(* ===== verification/Prelude.thy ===== *)
theory Prelude
  imports Complex_Main "HOL-Library.Word"
begin

text \<open>
  Shared vocabulary of the development: the error values of the chain code and the
  combinators that thread them (an exception of the C++ is an \<open>Inl\<close>), loops that may
  throw, and the sorted association lists that stand for \<open>std::map\<close> and for a
  \<open>multi_index_container\<close> read through its \<open>by_id\<close> index.
\<close>

named_theorems ok_iff \<open>when a computation of the error monad succeeds\<close>
named_theorems alist \<open>facts on sorted association lists\<close>

section \<open>Errors\<close>

text \<open>
  \<open>FC_ASSERT\<close> throws \<open>fc::assert_exception\<close>; the kind of condition it guards is kept
  as a \<open>fault\<close>. The other constructors are the other exceptions (or undefined
  behaviours) the code can run into.
\<close>

datatype fault =
    Not_found | Already_exists | Insufficient_funds | Wrong_symbol | Bad_amount
  | Bad_time | Bad_status | Not_authorized | Limit_exceeded | Bad_name | Bad_hex
  | Bad_text | Bad_size | Bad_precision | Bad_link | Bad_schedule | Bad_share | Bad_member

datatype error =
    Assert fault
  | Overflow
  | Undefined_behaviour
  | Out_of_range
  | Logic_error
  | Division_by_zero
  | Parse_error
  | Unlinkable_block
  | Unknown_hardfork
  | Missing_active_authority
  | Missing_owner_authority
  | Missing_other_authority
  | Missing_tenant_authority
  | Irrelevant_signature
  | Duplicate_signature
  | Tapos_mismatch
  | Transaction_expired

type_synonym 'a result = "error + 'a"

definition bindE :: "'a result \<Rightarrow> ('a \<Rightarrow> 'b result) \<Rightarrow> 'b result" where
  "bindE m f = (case m of Inl e \<Rightarrow> Inl e | Inr x \<Rightarrow> f x)"

definition require :: "bool \<Rightarrow> fault \<Rightarrow> 'a result \<Rightarrow> 'a result" where
  "require c e k = (if c then k else Inl (Assert e))"

definition the_or :: "error \<Rightarrow> 'a option \<Rightarrow> 'a result" where
  "the_or e x = (case x of None \<Rightarrow> Inl e | Some v \<Rightarrow> Inr v)"

definition succeeds :: "'a result \<Rightarrow> bool" where
  "succeeds m = (case m of Inl _ \<Rightarrow> False | Inr _ \<Rightarrow> True)"

lemma bindE_simps [simp]:
  "bindE (Inr x) f = f x"
  "bindE (Inl e) f = Inl e"
  by (simp_all add: bindE_def)

lemma bindE_cong [fundef_cong]:
  "m = m' \<Longrightarrow> (\<And>x. m' = Inr x \<Longrightarrow> f x = g x) \<Longrightarrow> bindE m f = bindE m' g"
  by (cases m') auto

lemma require_cong [fundef_cong]:
  "c = c' \<Longrightarrow> e = e' \<Longrightarrow> (c' \<Longrightarrow> k = k') \<Longrightarrow> require c e k = require c' e' k'"
  by (simp add: require_def)

lemma require_simps [simp]:
  "require True e k = k"
  "require False e k = Inl (Assert e)"
  by (simp_all add: require_def)

lemma the_or_simps [simp]:
  "the_or e (Some v) = Inr v"
  "the_or e None = Inl e"
  by (simp_all add: the_or_def)

lemma succeeds_simps [simp]:
  "succeeds (Inr x)"
  "\<not> succeeds (Inl e)"
  by (simp_all add: succeeds_def)

lemma bindE_ok [ok_iff]: "bindE m f = Inr y \<longleftrightarrow> (\<exists>x. m = Inr x \<and> f x = Inr y)"
  by (cases m) auto

lemma require_ok [ok_iff]: "require c e k = Inr y \<longleftrightarrow> c \<and> k = Inr y"
  by (simp add: require_def)

lemma the_or_ok [ok_iff]: "the_or e x = Inr y \<longleftrightarrow> x = Some y"
  by (simp add: the_or_def split: option.splits)

lemma succeeds_iff: "succeeds m \<longleftrightarrow> (\<exists>x. m = Inr x)"
  by (cases m) auto

section \<open>Loops that may throw\<close>

fun foldE :: "('a \<Rightarrow> 's \<Rightarrow> 's result) \<Rightarrow> 'a list \<Rightarrow> 's \<Rightarrow> 's result" where
  "foldE f [] s = Inr s"
| "foldE f (x # xs) s = bindE (f x s) (foldE f xs)"

lemma foldE_append: "foldE f (xs @ ys) s = bindE (foldE f xs s) (foldE f ys)"
proof (induction xs arbitrary: s)
  case (Cons x xs)
  then show ?case by (cases "f x s") auto
qed simp

lemma foldE_invariant:
  assumes step: "\<And>x s t. x \<in> set xs \<Longrightarrow> P s \<Longrightarrow> f x s = Inr t \<Longrightarrow> P t"
    and "foldE f xs s = Inr t" and "P s"
  shows "P t"
  using assms
proof (induction xs arbitrary: s)
  case (Cons x xs)
  from Cons.prems(2) obtain u where u: "f x s = Inr u" "foldE f xs u = Inr t"
    by (auto simp: ok_iff)
  show ?case
    by (rule Cons.IH [OF _ u(2)]) (use Cons.prems u(1) in auto)
qed simp

text \<open>A measure that each round of the loop moves by a known amount.\<close>

lemma foldE_sum:
  fixes m :: "'s \<Rightarrow> int"
  assumes step: "\<And>x s t. x \<in> set xs \<Longrightarrow> f x s = Inr t \<Longrightarrow> m t = m s + g x"
    and "foldE f xs s = Inr t"
  shows "m t = m s + sum_list (map g xs)"
  using assms
proof (induction xs arbitrary: s)
  case (Cons x xs)
  from Cons.prems(2) obtain u where u: "f x s = Inr u" "foldE f xs u = Inr t"
    by (auto simp: ok_iff)
  have "m t = m u + sum_list (map g xs)"
    by (rule Cons.IH [OF _ u(2)]) (use Cons.prems in auto)
  moreover have "m u = m s + g x"
    using Cons.prems(1) u(1) by simp
  ultimately show ?case by simp
qed simp

section \<open>Sorted association lists\<close>

definition sorted1 :: "(nat \<times> 'v) list \<Rightarrow> bool" where
  "sorted1 xs = sorted_wrt (<) (map fst xs)"

fun ins :: "nat \<Rightarrow> 'v \<Rightarrow> (nat \<times> 'v) list \<Rightarrow> (nat \<times> 'v) list" where
  "ins i v [] = [(i, v)]"
| "ins i v ((j, w) # xs) =
     (if i < j then (i, v) # (j, w) # xs
      else if i = j then (j, w) # xs
      else (j, w) # ins i v xs)"

definition upd :: "nat \<Rightarrow> 'v \<Rightarrow> (nat \<times> 'v) list \<Rightarrow> (nat \<times> 'v) list" where
  "upd i v xs = map (\<lambda>(j, w). if j = i then (j, v) else (j, w)) xs"

definition del :: "nat \<Rightarrow> (nat \<times> 'v) list \<Rightarrow> (nat \<times> 'v) list" where
  "del i xs = filter (\<lambda>p. fst p \<noteq> i) xs"

lemma sorted1_simps [simp]:
  "sorted1 []"
  "sorted1 (p # xs) \<longleftrightarrow> (\<forall>q\<in>set xs. fst p < fst q) \<and> sorted1 xs"
  by (auto simp: sorted1_def)

lemma sorted1_distinct: "sorted1 xs \<Longrightarrow> distinct (map fst xs)"
  by (simp add: sorted1_def strict_sorted_iff)

lemma map_of_eq_None [alist]: "map_of xs i = None \<longleftrightarrow> (\<forall>p\<in>set xs. fst p \<noteq> i)"
  by (auto simp: map_of_eq_None_iff image_iff)

lemma in_set_map_of [alist]: "sorted1 xs \<Longrightarrow> (i, v) \<in> set xs \<longleftrightarrow> map_of xs i = Some v"
  using sorted1_distinct by (metis map_of_is_SomeI map_of_SomeD)

lemma set_ins: "set (ins i v xs) \<subseteq> insert (i, v) (set xs)"
  by (induction i v xs rule: ins.induct) auto

lemma fst_set_ins: "fst ` set (ins i v xs) = insert i (fst ` set xs)"
  by (induction i v xs rule: ins.induct) auto

lemma sorted1_ins [alist]: "sorted1 xs \<Longrightarrow> sorted1 (ins i v xs)"
proof (induction i v xs rule: ins.induct)
  case (2 i v j w xs)
  then show ?case
    using set_ins [of i v xs] by (auto intro: less_trans)
qed simp

lemma map_of_ins [alist]:
  "sorted1 xs \<Longrightarrow> map_of (ins i v xs) k =
     (if k = i \<and> map_of xs i = None then Some v else map_of xs k)"
proof (induction i v xs rule: ins.induct)
  case (2 i v j w xs)
  have "map_of xs i = None" if "i < j"
    using 2 that by (force simp: map_of_eq_None)
  then show ?case using 2 by auto
qed simp

lemma ins_append: "\<forall>p\<in>set xs. fst p < i \<Longrightarrow> ins i v xs = xs @ [(i, v)]"
  by (induction i v xs rule: ins.induct) auto

lemma map_fst_upd [simp]: "map fst (upd i v xs) = map fst xs"
  by (simp add: upd_def split_def comp_def if_distrib)

lemma upd_Nil_Cons [simp]:
  "upd i v [] = []"
  "upd i v (p # xs) = (if fst p = i then (i, v) else p) # upd i v xs"
  by (simp_all add: upd_def split_def)

lemma del_Nil_Cons [simp]:
  "del i [] = []"
  "del i (p # xs) = (if fst p = i then del i xs else p # del i xs)"
  by (simp_all add: del_def)

lemma sorted1_upd [alist]: "sorted1 (upd i v xs) = sorted1 xs"
  by (simp add: sorted1_def)

lemma map_of_upd [alist]:
  "map_of (upd i v xs) k = (if k = i \<and> map_of xs i \<noteq> None then Some v else map_of xs k)"
  by (induction xs) auto

lemma upd_id: "map_of xs i = None \<Longrightarrow> upd i v xs = xs"
  by (induction xs) (auto split: if_splits)

lemma map_upd_distinct:
  "distinct (map fst xs) \<Longrightarrow> map_of xs i = Some v \<Longrightarrow> g (i, v') = g (i, v) \<Longrightarrow> map g (upd i v' xs) = map g xs"
proof (induction xs)
  case (Cons p xs)
  show ?case
  proof (cases "fst p = i")
    case True
    then have "map_of xs i = None"
      using Cons.prems(1) by (auto simp: map_of_eq_None_iff)
    then show ?thesis
      using True Cons.prems by (cases p) (auto simp: upd_id)
  next
    case False
    then show ?thesis
      using Cons by (cases p) auto
  qed
qed simp

lemma set_upd: "(j, w) \<in> set (upd i v xs) \<Longrightarrow> (j = i \<and> w = v) \<or> (j, w) \<in> set xs"
  by (induction xs) (auto split: if_splits)

lemma set_del [simp]: "set (del i xs) = {p \<in> set xs. fst p \<noteq> i}"
  by (auto simp: del_def)

lemma sorted1_del [alist]: "sorted1 xs \<Longrightarrow> sorted1 (del i xs)"
  by (induction xs) auto

lemma map_of_del [alist]: "map_of (del i xs) k = (if k = i then None else map_of xs k)"
  by (induction xs) auto

lemma map_of_keys: "distinct (map fst xs) \<Longrightarrow> map (\<lambda>k. (k, the (map_of xs k))) (map fst xs) = xs"
  by (simp add: comp_def) (auto intro!: map_idI simp: map_of_is_SomeI)

lemma sorted1_map_of_eqI:
  assumes "sorted1 xs" "sorted1 ys" "\<And>k. map_of xs k = map_of ys k"
  shows "xs = ys"
proof -
  have m: "map_of xs = map_of ys"
    using assms(3) by (rule ext)
  then have "set (map fst xs) = set (map fst ys)"
    by (metis dom_map_of_conv_image_fst list.set_map)
  with assms(1,2) have "map fst xs = map fst ys"
    by (auto simp: sorted1_def intro: strict_sorted_equal)
  with m show ?thesis
    using map_of_keys [OF sorted1_distinct [OF assms(1)]]
      map_of_keys [OF sorted1_distinct [OF assms(2)]] by simp
qed

text \<open>Sums over the rows of a table.\<close>

definition sum_rows :: "('v \<Rightarrow> int) \<Rightarrow> (nat \<times> 'v) list \<Rightarrow> int" where
  "sum_rows g xs = sum_list (map (\<lambda>p. g (snd p)) xs)"

lemma sum_rows_simps [simp]:
  "sum_rows g [] = 0"
  "sum_rows g (p # xs) = g (snd p) + sum_rows g xs"
  "sum_rows g (xs @ ys) = sum_rows g xs + sum_rows g ys"
  by (simp_all add: sum_rows_def)

lemma sum_rows_upd:
  "sorted1 xs \<Longrightarrow> map_of xs i = Some w \<Longrightarrow> sum_rows g (upd i v xs) = sum_rows g xs - g w + g v"
proof (induction xs)
  case (Cons p xs)
  show ?case
  proof (cases "fst p = i")
    case True
    with Cons.prems have "map_of xs i = None"
      by (auto simp: map_of_eq_None)
    with True Cons.prems show ?thesis by (cases p) (auto simp: upd_id)
  next
    case False
    with Cons show ?thesis by (cases p) auto
  qed
qed simp

lemma sum_rows_del:
  "sorted1 xs \<Longrightarrow> map_of xs i = Some w \<Longrightarrow> sum_rows g (del i xs) = sum_rows g xs - g w"
proof (induction xs)
  case (Cons p xs)
  show ?case
  proof (cases "fst p = i")
    case True
    with Cons.prems have "del i xs = xs"
      by (auto simp: del_def filter_id_conv)
    with True Cons.prems show ?thesis by (cases p) auto
  next
    case False
    with Cons show ?thesis by (cases p) auto
  qed
qed simp

lemma sum_rows_filter:
  "sum_rows g xs = sum_rows g (filter P xs) + sum_rows g (filter (\<lambda>p. \<not> P p) xs)"
  by (induction xs) auto

lemma sum_rows_cong: "(\<And>p. p \<in> set xs \<Longrightarrow> g (snd p) = h (snd p)) \<Longrightarrow> sum_rows g xs = sum_rows h xs"
  by (induction xs) auto

lemma sum_rows_if:
  "sum_rows (\<lambda>v. if P v then g v else 0) xs = sum_rows g (filter (\<lambda>p. P (snd p)) xs)"
  by (induction xs) auto

lemma sum_rows_nonneg: "(\<And>p. p \<in> set xs \<Longrightarrow> 0 \<le> g (snd p)) \<Longrightarrow> 0 \<le> sum_rows g xs"
  by (induction xs) (auto intro: add_nonneg_nonneg)

end
