(* ===== verification/Object_Store.thy ===== *)
theory Object_Store
  imports Prelude
begin

text \<open>
  The interface the services of the chain use of the object store: objects are created,
  modified and removed one at a time, and a lookup through a unique key finds at most one
  of them. The lemmas the services share (sums over all the objects of a type, properties
  every object has, what a lookup finds after an update) are proved here once, from the
  laws alone.
\<close>

locale object_store =
  fixes rows :: "'t \<Rightarrow> (nat \<times> 'v) list"
    and wf :: "('v \<Rightarrow> 'v \<Rightarrow> bool) \<Rightarrow> 't \<Rightarrow> bool"
    and emplace :: "('v \<Rightarrow> 'v \<Rightarrow> bool) \<Rightarrow> 'v \<Rightarrow> 't \<Rightarrow> (nat \<times> 't) result"
    and modify :: "('v \<Rightarrow> 'v \<Rightarrow> bool) \<Rightarrow> nat \<Rightarrow> ('v \<Rightarrow> 'v) \<Rightarrow> 't \<Rightarrow> 't result"
    and remove :: "nat \<Rightarrow> 't \<Rightarrow> 't result"
  assumes rows_sorted: "wf U t \<Longrightarrow> sorted1 (rows t)"
    and rows_unique: "wf U t \<Longrightarrow> (i, v) \<in> set (rows t) \<Longrightarrow> (j, w) \<in> set (rows t) \<Longrightarrow> U v w \<Longrightarrow> i = j"
    and emplace_law: "wf U t \<Longrightarrow> emplace U v t = Inr (i, t') \<Longrightarrow>
          rows t' = rows t @ [(i, v)] \<and> i \<notin> fst ` set (rows t)"
    and modify_law: "modify U i m t = Inr t' \<Longrightarrow>
          \<exists>v. map_of (rows t) i = Some v \<and> rows t' = upd i (m v) (rows t)"
    and remove_law: "remove i t = Inr t' \<Longrightarrow>
          \<exists>v. map_of (rows t) i = Some v \<and> rows t' = del i (rows t)"
    and wf_emplace: "symp U \<Longrightarrow> wf U t \<Longrightarrow> emplace U v t = Inr (i, t') \<Longrightarrow> wf U t'"
    and wf_modify: "symp U \<Longrightarrow> wf U t \<Longrightarrow> modify U i m t = Inr t' \<Longrightarrow> wf U t'"
    and wf_remove: "wf U t \<Longrightarrow> remove i t = Inr t' \<Longrightarrow> wf U t'"
begin

lemmas wf_intros = wf_emplace wf_modify wf_remove

lemma mem_map_of: "wf U t \<Longrightarrow> (i, v) \<in> set (rows t) \<longleftrightarrow> map_of (rows t) i = Some v"
  by (rule in_set_map_of [OF rows_sorted])

text \<open>A total over all objects moves by what the changed object contributes.\<close>

lemma sum_emplace:
  "wf U t \<Longrightarrow> emplace U v t = Inr (i, t') \<Longrightarrow> sum_rows g (rows t') = sum_rows g (rows t) + g v"
  by (drule (1) emplace_law) simp

lemma sum_modify:
  assumes "wf U t" "modify U i m t = Inr t'" "(i, v) \<in> set (rows t)"
  shows "sum_rows g (rows t') = sum_rows g (rows t) - g v + g (m v)"
  using modify_law [OF assms(2)] assms(1,3) mem_map_of [OF assms(1)]
    sum_rows_upd [OF rows_sorted [OF assms(1)]] by auto

lemma sum_remove:
  assumes "wf U t" "remove i t = Inr t'" "(i, v) \<in> set (rows t)"
  shows "sum_rows g (rows t') = sum_rows g (rows t) - g v"
  using remove_law [OF assms(2)] assms(1,3) mem_map_of [OF assms(1)]
    sum_rows_del [OF rows_sorted [OF assms(1)]] by auto

text \<open>A property of every object is kept when the created or modified object has it.\<close>

lemma all_emplace:
  "wf U t \<Longrightarrow> emplace U v t = Inr (i, t') \<Longrightarrow> \<forall>p\<in>set (rows t). P (snd p) \<Longrightarrow> P v \<Longrightarrow>
   \<forall>p\<in>set (rows t'). P (snd p)"
  by (drule (1) emplace_law) auto

lemma all_modify:
  assumes "modify U i m t = Inr t'" "\<forall>p\<in>set (rows t). P (snd p)"
    and "\<And>v. map_of (rows t) i = Some v \<Longrightarrow> P (m v)"
  shows "\<forall>p\<in>set (rows t'). P (snd p)"
proof -
  obtain v where "map_of (rows t) i = Some v" "rows t' = upd i (m v) (rows t)"
    using modify_law [OF assms(1)] by blast
  with assms(2,3) show ?thesis
    by (metis prod.collapse set_upd snd_conv)
qed

lemma all_remove:
  "remove i t = Inr t' \<Longrightarrow> \<forall>p\<in>set (rows t). P (snd p) \<Longrightarrow> \<forall>p\<in>set (rows t'). P (snd p)"
  by (drule remove_law) auto

lemma rows_modify_mem:
  "wf U t \<Longrightarrow> modify U i m t = Inr t' \<Longrightarrow> (i, v) \<in> set (rows t) \<Longrightarrow> rows t' = upd i (m v) (rows t)"
  using modify_law mem_map_of by fastforce

lemma modified_mem:
  assumes "wf U t" "modify U i m t = Inr t'" "(i, v) \<in> set (rows t)"
  shows "(j, w) \<in> set (rows t') \<longleftrightarrow> (if j = i then w = m v else (j, w) \<in> set (rows t))"
proof -
  have eq: "rows t' = upd i (m v) (rows t)"
    by (rule rows_modify_mem [OF assms])
  then have "sorted1 (rows t')"
    using rows_sorted [OF assms(1)] by (simp add: sorted1_upd)
  then show ?thesis
    using assms mem_map_of [OF assms(1)] by (auto simp: in_set_map_of eq map_of_upd split: if_splits)
qed

end

end
