(* ===== verification/Chainbase.thy ===== *)
theory Chainbase
  imports Object_Store
begin

text \<open>
  The object store of the chain: \<open>chainbase::generic_index\<close> of
  \<open>libraries/chainbase/include/chainbase/chainbase.hpp\<close>, with its undo stack.

  A row is a pair of the object's \<open>id\<close> (the key chainbase assigns) and the object; \<open>rows\<close>
  is the container read through its \<open>by_id\<close> index. The unique secondary indexes of an
  object type are a relation \<open>U\<close>: \<open>U v w\<close> says that \<open>v\<close> and \<open>w\<close> agree on some unique key,
  so that they cannot both be in the container. The undo stack is kept with its back (the
  current session) at the head of the list. Where the code would dereference \<open>end()\<close> the
  model returns \<open>Undefined_behaviour\<close>; a uniqueness violation is the \<open>std::logic_error\<close>
  the code throws.
\<close>

section \<open>State\<close>

record 'v undo_state =
  old_values :: "(nat \<times> 'v) list"
  removed_values :: "(nat \<times> 'v) list"
  new_ids :: "nat list"
  old_next_id :: nat
  undo_revision :: int

record 'v generic_index =
  stack :: "'v undo_state list"
  revision :: int
  next_id :: nat
  rows :: "(nat \<times> 'v) list"

definition empty_index :: "'v generic_index" where
  "empty_index = \<lparr>stack = [], revision = 0, next_id = 0, rows = []\<rparr>"

definition lookup :: "'v generic_index \<Rightarrow> nat \<Rightarrow> 'v option" where
  "lookup t i = map_of (rows t) i"

definition find_row :: "('v \<Rightarrow> bool) \<Rightarrow> 'v generic_index \<Rightarrow> (nat \<times> 'v) option" where
  "find_row P t = List.find (\<lambda>(i, v). P v) (rows t)"

text \<open>\<open>get\<close>: \<open>find\<close>, and \<open>std::out_of_range\<close> when there is no such key.\<close>

definition get_row :: "('v \<Rightarrow> bool) \<Rightarrow> 'v generic_index \<Rightarrow> (nat \<times> 'v) result" where
  "get_row P t = the_or Out_of_range (find_row P t)"

section \<open>The bookkeeping of the current session\<close>

definition on_create :: "nat \<Rightarrow> 'v undo_state list \<Rightarrow> 'v undo_state list" where
  "on_create i st =
     (case st of [] \<Rightarrow> []
      | h # hs \<Rightarrow> h\<lparr>new_ids := List.insert i (new_ids h)\<rparr> # hs)"

definition on_modify :: "nat \<Rightarrow> 'v \<Rightarrow> 'v undo_state list \<Rightarrow> 'v undo_state list" where
  "on_modify i v st =
     (case st of [] \<Rightarrow> []
      | h # hs \<Rightarrow>
          if i \<in> set (new_ids h) then h # hs
          else if map_of (old_values h) i \<noteq> None then h # hs
          else h\<lparr>old_values := ins i v (old_values h)\<rparr> # hs)"

definition on_remove :: "nat \<Rightarrow> 'v \<Rightarrow> 'v undo_state list \<Rightarrow> 'v undo_state list" where
  "on_remove i v st =
     (case st of [] \<Rightarrow> []
      | h # hs \<Rightarrow>
          if i \<in> set (new_ids h) then h\<lparr>new_ids := removeAll i (new_ids h)\<rparr> # hs
          else (case map_of (old_values h) i of
              Some w \<Rightarrow> h\<lparr>removed_values := ins i w (removed_values h),
                         old_values := del i (old_values h)\<rparr> # hs
            | None \<Rightarrow>
                if map_of (removed_values h) i \<noteq> None then h # hs
                else h\<lparr>removed_values := ins i v (removed_values h)\<rparr> # hs))"

section \<open>Creating, modifying and removing objects\<close>

definition emplace ::
  "('v \<Rightarrow> 'v \<Rightarrow> bool) \<Rightarrow> 'v \<Rightarrow> 'v generic_index \<Rightarrow> (nat \<times> 'v generic_index) result" where
  "emplace U v t =
     (let new_id = next_id t
      in if \<exists>p\<in>set (rows t). fst p = new_id \<or> U v (snd p) then Inl Logic_error
         else Inr (new_id,
                t\<lparr>rows := ins new_id v (rows t), next_id := new_id + 1,
                  stack := on_create new_id (stack t)\<rparr>))"

definition modify ::
  "('v \<Rightarrow> 'v \<Rightarrow> bool) \<Rightarrow> nat \<Rightarrow> ('v \<Rightarrow> 'v) \<Rightarrow> 'v generic_index \<Rightarrow> 'v generic_index result" where
  "modify U i m t =
     (case lookup t i of
        None \<Rightarrow> Inl Undefined_behaviour
      | Some v \<Rightarrow>
          if \<exists>p\<in>set (rows t). fst p \<noteq> i \<and> U (m v) (snd p) then Inl Logic_error
          else Inr (t\<lparr>stack := on_modify i v (stack t), rows := upd i (m v) (rows t)\<rparr>))"

definition remove :: "nat \<Rightarrow> 'v generic_index \<Rightarrow> 'v generic_index result" where
  "remove i t =
     (case lookup t i of
        None \<Rightarrow> Inl Undefined_behaviour
      | Some v \<Rightarrow> Inr (t\<lparr>stack := on_remove i v (stack t), rows := del i (rows t)\<rparr>))"

text \<open>\<open>remove_object\<close> checks that the id is there.\<close>

definition remove_object :: "nat \<Rightarrow> 'v generic_index \<Rightarrow> 'v generic_index result" where
  "remove_object i t = (case lookup t i of None \<Rightarrow> Inl Out_of_range | Some v \<Rightarrow> remove i t)"

section \<open>Sessions\<close>

definition start_undo_session :: "bool \<Rightarrow> 'v generic_index \<Rightarrow> 'v generic_index" where
  "start_undo_session enabled t =
     (if enabled
      then t\<lparr>revision := revision t + 1,
             stack := \<lparr>old_values = [], removed_values = [], new_ids = [],
                       old_next_id = next_id t, undo_revision = revision t + 1\<rparr> # stack t\<rparr>
      else t)"

definition restore_old ::
  "('v \<Rightarrow> 'v \<Rightarrow> bool) \<Rightarrow> nat \<times> 'v \<Rightarrow> (nat \<times> 'v) list \<Rightarrow> (nat \<times> 'v) list result" where
  "restore_old U item r =
     (case map_of r (fst item) of
        None \<Rightarrow> Inl Undefined_behaviour
      | Some _ \<Rightarrow>
          if \<exists>p\<in>set r. fst p \<noteq> fst item \<and> U (snd item) (snd p) then Inl Logic_error
          else Inr (upd (fst item) (snd item) r))"

definition erase_new :: "nat \<Rightarrow> (nat \<times> 'v) list \<Rightarrow> (nat \<times> 'v) list result" where
  "erase_new i r = (case map_of r i of None \<Rightarrow> Inl Undefined_behaviour | Some _ \<Rightarrow> Inr (del i r))"

definition restore_removed ::
  "('v \<Rightarrow> 'v \<Rightarrow> bool) \<Rightarrow> nat \<times> 'v \<Rightarrow> (nat \<times> 'v) list \<Rightarrow> (nat \<times> 'v) list result" where
  "restore_removed U item r =
     (if \<exists>p\<in>set r. fst p = fst item \<or> U (snd item) (snd p) then Inl Logic_error
      else Inr (ins (fst item) (snd item) r))"

definition undo :: "('v \<Rightarrow> 'v \<Rightarrow> bool) \<Rightarrow> 'v generic_index \<Rightarrow> 'v generic_index result" where
  "undo U t =
     (case stack t of
        [] \<Rightarrow> Inr t
      | h # hs \<Rightarrow>
          bindE (foldE (restore_old U) (old_values h) (rows t)) (\<lambda>r1.
          bindE (foldE erase_new (new_ids h) r1) (\<lambda>r2.
          bindE (foldE (restore_removed U) (removed_values h) r2) (\<lambda>r3.
            Inr (t\<lparr>rows := r3, next_id := old_next_id h, stack := hs,
                   revision := revision t - 1\<rparr>)))))"

text \<open>\<open>squash\<close>: the change set of the current session \<open>s\<close> is merged into the previous one \<open>p\<close>.\<close>

definition squash_old :: "'v undo_state \<Rightarrow> nat \<times> 'v \<Rightarrow> 'v undo_state" where
  "squash_old p item =
     (if fst item \<in> set (new_ids p) then p
      else if map_of (old_values p) (fst item) \<noteq> None then p
      else p\<lparr>old_values := ins (fst item) (snd item) (old_values p)\<rparr>)"

definition squash_removed :: "'v undo_state \<Rightarrow> nat \<times> 'v \<Rightarrow> 'v undo_state" where
  "squash_removed p item =
     (if fst item \<in> set (new_ids p) then p\<lparr>new_ids := removeAll (fst item) (new_ids p)\<rparr>
      else (case map_of (old_values p) (fst item) of
          Some w \<Rightarrow> p\<lparr>removed_values := ins (fst item) w (removed_values p),
                     old_values := del (fst item) (old_values p)\<rparr>
        | None \<Rightarrow> p\<lparr>removed_values := ins (fst item) (snd item) (removed_values p)\<rparr>))"

definition squash_states :: "'v undo_state \<Rightarrow> 'v undo_state \<Rightarrow> 'v undo_state" where
  "squash_states s p =
     foldl squash_removed
       (foldl (\<lambda>q i. q\<lparr>new_ids := List.insert i (new_ids q)\<rparr>)
          (foldl squash_old p (old_values s)) (new_ids s))
       (removed_values s)"

definition squash :: "'v generic_index \<Rightarrow> 'v generic_index" where
  "squash t =
     (case stack t of
        [] \<Rightarrow> t
      | [s] \<Rightarrow> t\<lparr>stack := []\<rparr>
      | s # p # hs \<Rightarrow> t\<lparr>stack := squash_states s p # hs, revision := revision t - 1\<rparr>)"

text \<open>\<open>commit\<close> drops the oldest sessions, those at the end of the list.\<close>

definition commit :: "int \<Rightarrow> 'v generic_index \<Rightarrow> 'v generic_index" where
  "commit r t = t\<lparr>stack := rev (dropWhile (\<lambda>h. undo_revision h \<le> r) (rev (stack t)))\<rparr>"

text \<open>\<open>undo_all\<close> undoes until the stack is empty: as many times as it has sessions.\<close>

fun undo_n :: "('v \<Rightarrow> 'v \<Rightarrow> bool) \<Rightarrow> nat \<Rightarrow> 'v generic_index \<Rightarrow> 'v generic_index result" where
  "undo_n U 0 t = Inr t"
| "undo_n U (Suc n) t = bindE (undo U t) (undo_n U n)"

definition undo_all :: "('v \<Rightarrow> 'v \<Rightarrow> bool) \<Rightarrow> 'v generic_index \<Rightarrow> 'v generic_index result" where
  "undo_all U t = undo_n U (length (stack t)) t"

definition set_revision :: "int \<Rightarrow> 'v generic_index \<Rightarrow> 'v generic_index result" where
  "set_revision r t = (if stack t \<noteq> [] then Inl Logic_error else Inr (t\<lparr>revision := r\<rparr>))"

section \<open>Well-formed indexes\<close>

text \<open>
  What the container keeps: the ids are in order and below the next one, and no two
  objects agree on a unique key.
\<close>

definition wf_rows :: "('v \<Rightarrow> 'v \<Rightarrow> bool) \<Rightarrow> nat \<Rightarrow> (nat \<times> 'v) list \<Rightarrow> bool" where
  "wf_rows U n r \<longleftrightarrow> sorted1 r \<and> (\<forall>p\<in>set r. fst p < n) \<and>
     (\<forall>p\<in>set r. \<forall>q\<in>set r. fst p \<noteq> fst q \<longrightarrow> \<not> U (snd p) (snd q))"

definition wf_index :: "('v \<Rightarrow> 'v \<Rightarrow> bool) \<Rightarrow> 'v generic_index \<Rightarrow> bool" where
  "wf_index U t = wf_rows U (next_id t) (rows t)"

lemma wf_empty_index [simp]: "wf_index U empty_index"
  by (simp add: wf_index_def wf_rows_def empty_index_def)

lemma emplace_Inr:
  assumes "emplace U v t = Inr (i, t')"
  shows "i = next_id t" "rows t' = ins i v (rows t)" "next_id t' = next_id t + 1"
    "stack t' = on_create i (stack t)" "revision t' = revision t"
    "\<forall>p\<in>set (rows t). fst p \<noteq> i \<and> \<not> U v (snd p)"
  using assms by (auto simp: emplace_def Let_def split: if_splits)

lemma modify_Inr:
  assumes "modify U i m t = Inr t'"
  obtains v where "map_of (rows t) i = Some v" "rows t' = upd i (m v) (rows t)"
    "next_id t' = next_id t" "stack t' = on_modify i v (stack t)" "revision t' = revision t"
    "\<forall>p\<in>set (rows t). fst p \<noteq> i \<longrightarrow> \<not> U (m v) (snd p)"
  using assms by (auto simp: modify_def lookup_def split: if_splits option.splits) blast

lemma remove_Inr:
  assumes "remove i t = Inr t'"
  obtains v where "map_of (rows t) i = Some v" "rows t' = del i (rows t)"
    "next_id t' = next_id t" "stack t' = on_remove i v (stack t)" "revision t' = revision t"
  using assms by (auto simp: remove_def lookup_def split: option.splits)

lemma wf_rows_upd:
  assumes "symp U" "wf_rows U n r" "\<forall>p\<in>set r. fst p \<noteq> i \<longrightarrow> \<not> U v (snd p)"
  shows "wf_rows U n (upd i v r)"
proof -
  have in_upd: "p \<in> set r \<or> p = (i, v)" if "p \<in> set (upd i v r)" for p
    using that set_upd [of "fst p" "snd p" i v r] by (cases p) auto
  have "fst p \<in> fst ` set r" if "p \<in> set (upd i v r)" for p
    using that by (metis image_eqI list.set_map map_fst_upd)
  then have lt: "\<forall>p\<in>set (upd i v r). fst p < n"
    using assms(2) by (force simp: wf_rows_def)
  have "\<not> U (snd p) (snd q)"
    if "p \<in> set (upd i v r)" "q \<in> set (upd i v r)" "fst p \<noteq> fst q" for p q
    using in_upd [OF that(1)] in_upd [OF that(2)] that(3) assms
    by (auto simp: wf_rows_def dest: sympD)
  with lt assms(2) show ?thesis
    by (auto simp: wf_rows_def sorted1_upd)
qed

lemma wf_rows_emplace:
  "symp U \<Longrightarrow> wf_rows U n r \<Longrightarrow> \<forall>p\<in>set r. \<not> U v (snd p) \<Longrightarrow> wf_rows U (n + 1) (r @ [(n, v)])"
  by (auto simp: wf_rows_def sorted1_def sorted_wrt_append less_Suc_eq dest: sympD)

lemma wf_rows_del: "wf_rows U n r \<Longrightarrow> wf_rows U n (del i r)"
  by (auto simp: wf_rows_def sorted1_del)

lemma emplace_rows:
  assumes "wf_index U t" "emplace U v t = Inr (i, t')"
  shows "rows t' = rows t @ [(i, v)]"
  using emplace_Inr [OF assms(2)] assms(1)
  by (auto simp: wf_index_def wf_rows_def intro: ins_append)

interpretation cb: object_store rows wf_index emplace modify remove
proof unfold_locales
  fix U :: "'v \<Rightarrow> 'v \<Rightarrow> bool" and t t' :: "'v generic_index" and i j v w m
  show "sorted1 (rows t)" if "wf_index U t"
    using that by (simp add: wf_index_def wf_rows_def)
  show "i = j" if "wf_index U t" "(i, v) \<in> set (rows t)" "(j, w) \<in> set (rows t)" "U v w"
    using that by (force simp: wf_index_def wf_rows_def)
  show "rows t' = rows t @ [(i, v)] \<and> i \<notin> fst ` set (rows t)"
    if "wf_index U t" "emplace U v t = Inr (i, t')"
    using emplace_rows [OF that] emplace_Inr(6) [OF that(2)] by auto
  show "\<exists>v. map_of (rows t) i = Some v \<and> rows t' = upd i (m v) (rows t)"
    if "modify U i m t = Inr t'"
    using that by (rule modify_Inr) blast
  show "\<exists>v. map_of (rows t) i = Some v \<and> rows t' = del i (rows t)" if "remove i t = Inr t'"
    using that by (rule remove_Inr) blast
  show "wf_index U t'" if "symp U" "wf_index U t" "emplace U v t = Inr (i, t')"
    using emplace_Inr(1,3,6) [OF that(3)] emplace_rows [OF that(2,3)]
      wf_rows_emplace [of U "next_id t" "rows t" v] that(1,2)
    by (simp add: wf_index_def)
  show "wf_index U t'" if "symp U" "wf_index U t" "modify U i m t = Inr t'"
    using that(3) by (rule modify_Inr) (use that wf_rows_upd in \<open>auto simp: wf_index_def\<close>)
  show "wf_index U t'" if "wf_index U t" "remove i t = Inr t'"
    using that(2) by (rule remove_Inr) (use that wf_rows_del in \<open>auto simp: wf_index_def\<close>)
qed

end
