(* ===== verification/Undo.thy ===== *)
theory Undo
  imports Chainbase
begin

text \<open>
  What the undo sessions of \<open>generic_index\<close> promise: discarding a session brings the
  index back to the state at its start, and merging a session into the previous one
  (\<open>squash\<close>) keeps the previous one able to do so. The work is in one relation,
  \<open>undo_rel\<close>: the change set at the top of the stack describes how the index differs
  from the state it is to be rewound to.
\<close>

datatype 'v store_op =
    Create 'v
  | Modify nat "'v \<Rightarrow> 'v"
  | Remove nat

fun run_op :: "('v \<Rightarrow> 'v \<Rightarrow> bool) \<Rightarrow> 'v store_op \<Rightarrow> 'v generic_index \<Rightarrow> 'v generic_index result" where
  "run_op U (Create v) t = bindE (emplace U v t) (\<lambda>(i, t'). Inr t')"
| "run_op U (Modify i m) t = modify U i m t"
| "run_op U (Remove i) t = remove i t"

definition run_ops ::
  "('v \<Rightarrow> 'v \<Rightarrow> bool) \<Rightarrow> 'v store_op list \<Rightarrow> 'v generic_index \<Rightarrow> 'v generic_index result" where
  "run_ops U ops t = foldE (run_op U) ops t"

text \<open>Two objects are interchangeable for the unique indexes.\<close>

definition same_keys :: "('v \<Rightarrow> 'v \<Rightarrow> bool) \<Rightarrow> 'v \<Rightarrow> 'v \<Rightarrow> bool" where
  "same_keys U v w \<longleftrightarrow> (\<forall>x. U v x = U w x)"

fun keeps_keys :: "('v \<Rightarrow> 'v \<Rightarrow> bool) \<Rightarrow> 'v store_op \<Rightarrow> bool" where
  "keeps_keys U (Modify i m) = (\<forall>v. same_keys U (m v) v)"
| "keeps_keys U _ = True"

lemma same_keys_refl [simp]: "same_keys U v v"
  by (simp add: same_keys_def)

lemma same_keys_trans: "same_keys U u v \<Longrightarrow> same_keys U v w \<Longrightarrow> same_keys U u w"
  by (simp add: same_keys_def)

lemma same_keys_sym: "same_keys U u v \<Longrightarrow> same_keys U v u"
  by (simp add: same_keys_def)

definition undo_rel ::
  "('v \<Rightarrow> 'v \<Rightarrow> bool) \<Rightarrow> 'v generic_index \<Rightarrow> 'v undo_state \<Rightarrow> 'v generic_index \<Rightarrow> bool" where
  "undo_rel U t0 h t \<longleftrightarrow>
     stack t = h # stack t0 \<and> revision t = revision t0 + 1 \<and>
     old_next_id h = next_id t0 \<and> next_id t0 \<le> next_id t \<and>
     wf_index U t0 \<and> wf_index U t \<and>
     sorted1 (old_values h) \<and> sorted1 (removed_values h) \<and> distinct (new_ids h) \<and>
     (\<forall>i < next_id t0. lookup t0 i =
        (case map_of (removed_values h) i of Some w \<Rightarrow> Some w
         | None \<Rightarrow> (case map_of (old_values h) i of Some w \<Rightarrow> Some w | None \<Rightarrow> lookup t i))) \<and>
     (\<forall>i w. map_of (old_values h) i = Some w \<longrightarrow>
        i < next_id t0 \<and> (\<exists>v. lookup t i = Some v \<and> same_keys U w v)) \<and>
     (\<forall>i. map_of (removed_values h) i \<noteq> None \<longrightarrow> i < next_id t0 \<and> lookup t i = None) \<and>
     (\<forall>i. i \<in> set (new_ids h) \<longleftrightarrow> next_id t0 \<le> i \<and> lookup t i \<noteq> None)"

lemma lookup_ge: "wf_index U t \<Longrightarrow> next_id t \<le> i \<Longrightarrow> lookup t i = None"
  by (force simp: lookup_def wf_index_def wf_rows_def map_of_eq_None)

lemma undo_rel_start:
  "wf_index U t \<Longrightarrow> undo_rel U t
     \<lparr>old_values = [], removed_values = [], new_ids = [], old_next_id = next_id t,
      undo_revision = revision t + 1\<rparr> (start_undo_session True t)"
  by (auto simp: undo_rel_def start_undo_session_def wf_index_def lookup_def dest: lookup_ge
      [unfolded wf_index_def lookup_def])

section \<open>Undoing\<close>

lemma restore_old_all:
  assumes "symp U" "wf_rows U n r" "distinct (map fst items)"
    and "\<forall>p\<in>set items. \<exists>v. map_of r (fst p) = Some v \<and> same_keys U (snd p) v"
  shows "\<exists>r'. foldE (restore_old U) items r = Inr r' \<and> wf_rows U n r' \<and>
    (\<forall>k. map_of r' k = (case map_of items k of Some w \<Rightarrow> Some w | None \<Rightarrow> map_of r k))"
  using assms(2-)
proof (induction items arbitrary: r)
  case (Cons p items)
  obtain v where v: "map_of r (fst p) = Some v" "same_keys U (snd p) v"
    using Cons.prems(3) by auto
  let ?r = "upd (fst p) (snd p) r"
  have free: "\<forall>q\<in>set r. fst q \<noteq> fst p \<longrightarrow> \<not> U (snd p) (snd q)"
    using v Cons.prems(1) map_of_SomeD [OF v(1)]
    by (fastforce simp: wf_rows_def same_keys_def)
  then have step: "restore_old U p r = Inr ?r"
    using v(1) by (auto simp: restore_old_def)
  have wf: "wf_rows U n ?r"
    by (rule wf_rows_upd [OF assms(1) Cons.prems(1) free])
  have fresh: "map_of items (fst p) = None"
    using Cons.prems(2) by (simp add: map_of_eq_None_iff)
  then have rest: "\<forall>q\<in>set items. \<exists>v. map_of ?r (fst q) = Some v \<and> same_keys U (snd q) v"
    using Cons.prems(3) by (auto simp: map_of_upd map_of_eq_None)
  obtain r' where r': "foldE (restore_old U) items ?r = Inr r'" "wf_rows U n r'"
    "\<forall>k. map_of r' k = (case map_of items k of Some w \<Rightarrow> Some w | None \<Rightarrow> map_of ?r k)"
    using Cons.IH [OF wf _ rest] Cons.prems(2) by auto
  have "map_of r' k = (case map_of (p # items) k of Some w \<Rightarrow> Some w | None \<Rightarrow> map_of r k)" for k
    using r'(3) fresh v(1) by (cases p) (simp add: map_of_upd split: option.splits)
  then show ?case
    using step r'(1,2) by simp
qed simp

lemma erase_new_all:
  assumes "wf_rows U n r" "distinct is" "\<forall>i\<in>set is. map_of r i \<noteq> None"
  shows "\<exists>r'. foldE erase_new is r = Inr r' \<and> wf_rows U n r' \<and>
    (\<forall>k. map_of r' k = (if k \<in> set is then None else map_of r k))"
  using assms
proof (induction "is" arbitrary: r)
  case (Cons i "is")
  have "erase_new i r = Inr (del i r)"
    using Cons.prems(3) by (auto simp: erase_new_def)
  then show ?case
    using Cons.IH [of "del i r"] Cons.prems wf_rows_del by (fastforce simp: map_of_del)
qed simp

lemma restore_removed_all:
  assumes "wf_rows U n r0" "sorted1 r" "distinct (map fst items)"
    and "\<forall>k v. map_of r k = Some v \<longrightarrow> map_of r0 k = Some v"
    and "\<forall>p\<in>set items. map_of r0 (fst p) = Some (snd p) \<and> map_of r (fst p) = None"
  shows "\<exists>r'. foldE (restore_removed U) items r = Inr r' \<and> sorted1 r' \<and>
    (\<forall>k. map_of r' k = (case map_of items k of Some w \<Rightarrow> Some w | None \<Rightarrow> map_of r k))"
  using assms(2-)
proof (induction items arbitrary: r)
  case (Cons p items)
  have p: "map_of r0 (fst p) = Some (snd p)" "map_of r (fst p) = None"
    using Cons.prems(4) by auto
  have "fst q \<noteq> fst p \<and> \<not> U (snd p) (snd q)" if "q \<in> set r" for q
  proof -
    have "fst q \<noteq> fst p"
      using p(2) that by (auto simp: map_of_eq_None)
    moreover have "map_of r0 (fst q) = Some (snd q)"
      using that Cons.prems(1,3) by (auto simp: in_set_map_of [symmetric])
    ultimately show ?thesis
      using assms(1) map_of_SomeD [OF p(1)] map_of_SomeD [of r0 "fst q" "snd q"]
      by (force simp: wf_rows_def)
  qed
  then have step: "restore_removed U p r = Inr (ins (fst p) (snd p) r)"
    by (auto simp: restore_removed_def)
  have fresh: "map_of items (fst p) = None"
    using Cons.prems(2) by (simp add: map_of_eq_None_iff)
  let ?r = "ins (fst p) (snd p) r"
  have srt: "sorted1 ?r"
    by (rule sorted1_ins [OF Cons.prems(1)])
  have sub: "\<forall>k v. map_of ?r k = Some v \<longrightarrow> map_of r0 k = Some v"
    using Cons.prems(1,3) p by (auto simp: map_of_ins)
  have rest: "\<forall>q\<in>set items. map_of r0 (fst q) = Some (snd q) \<and> map_of ?r (fst q) = None"
    using Cons.prems(1,4) fresh by (auto simp: map_of_ins map_of_eq_None)
  obtain r' where r': "foldE (restore_removed U) items ?r = Inr r'" "sorted1 r'"
    "\<forall>k. map_of r' k = (case map_of items k of Some w \<Rightarrow> Some w | None \<Rightarrow> map_of ?r k)"
    using Cons.IH [OF srt _ sub rest] Cons.prems(2) by auto
  have "map_of r' k = (case map_of (p # items) k of Some w \<Rightarrow> Some w | None \<Rightarrow> map_of r k)" for k
    using r'(3) fresh p(2) Cons.prems(1) by (cases p) (simp add: map_of_ins split: option.splits)
  then show ?case
    using step r'(1,2) by simp
qed simp

lemma undo_rel_undo:
  assumes U: "symp U" and rel: "undo_rel U t0 h t"
  shows "undo U t = Inr t0"
proof -
  have wf: "wf_rows U (next_id t) (rows t)" "wf_rows U (next_id t0) (rows t0)"
    using rel by (auto simp: undo_rel_def wf_index_def)
  note look = rel [unfolded undo_rel_def lookup_def]
  have olds: "\<forall>p\<in>set (old_values h). \<exists>v. map_of (rows t) (fst p) = Some v \<and> same_keys U (snd p) v"
    using look by (auto simp: in_set_map_of)
  obtain r1 where r1: "foldE (restore_old U) (old_values h) (rows t) = Inr r1"
      "wf_rows U (next_id t) r1"
      "\<And>k. map_of r1 k = (case map_of (old_values h) k of Some w \<Rightarrow> Some w | None \<Rightarrow> map_of (rows t) k)"
    using restore_old_all [OF U wf(1) sorted1_distinct olds] look by blast
  obtain r2 where r2: "foldE erase_new (new_ids h) r1 = Inr r2" "wf_rows U (next_id t) r2"
      "\<And>k. map_of r2 k = (if k \<in> set (new_ids h) then None else map_of r1 k)"
    using erase_new_all [OF r1(2), of "new_ids h"] look r1(3) by (force split: option.splits)
  have base: "map_of r2 k = (if k < next_id t0 \<and> map_of (removed_values h) k = None
      then map_of (rows t0) k else None)" for k
  proof (cases "k < next_id t0")
    case True
    moreover have "map_of (old_values h) k = None" if "map_of (removed_values h) k \<noteq> None"
      using look that by (cases "map_of (old_values h) k") force+
    ultimately show ?thesis
      using look by (auto simp: r1(3) r2(3) split: option.splits)
  next
    case False
    then show ?thesis
      using look by (force simp: r1(3) r2(3) split: option.splits)
  qed
  have gone: "\<forall>p\<in>set (removed_values h). map_of (rows t0) (fst p) = Some (snd p) \<and> map_of r2 (fst p) = None"
    using look base by (auto simp: in_set_map_of)
  have sub: "\<forall>k v. map_of r2 k = Some v \<longrightarrow> map_of (rows t0) k = Some v"
    by (simp add: base)
  obtain r3 where r3: "foldE (restore_removed U) (removed_values h) r2 = Inr r3" "sorted1 r3"
      "\<And>k. map_of r3 k = (case map_of (removed_values h) k of Some w \<Rightarrow> Some w | None \<Rightarrow> map_of r2 k)"
    using restore_removed_all [OF wf(2) _ sorted1_distinct sub gone] r2(2) look
    unfolding wf_rows_def by blast
  have "map_of (rows t0) k = None" if "\<not> k < next_id t0" for k
    using wf(2) that by (force simp: wf_rows_def map_of_eq_None)
  then have "map_of r3 k = map_of (rows t0) k" for k
    using gone look by (auto simp: r3(3) base in_set_map_of split: option.splits)
  then have "r3 = rows t0"
    using r3(2) wf(2) by (auto simp: wf_rows_def intro: sorted1_map_of_eqI)
  then show ?thesis
    using look r1(1) r2(1) r3(1) by (simp add: undo_def)
qed

section \<open>Operations within a session\<close>

lemma undo_rel_new:
  "undo_rel U t0 h t \<Longrightarrow> next_id t0 \<le> i \<Longrightarrow>
   map_of (old_values h) i = None \<and> map_of (removed_values h) i = None"
  by (metis undo_rel_def leD not_None_eq)

lemma undo_rel_disjoint:
  "undo_rel U t0 h t \<Longrightarrow> map_of (removed_values h) i \<noteq> None \<Longrightarrow> map_of (old_values h) i = None"
  by (metis undo_rel_def not_None_eq option.distinct(1))

lemma undo_rel_emplace:
  assumes U: "symp U" and rel: "undo_rel U t0 h t" and op: "emplace U v t = Inr (i, t')"
  shows "\<exists>h'. undo_rel U t0 h' t'"
proof -
  note e = emplace_Inr [OF op]
  note look = rel [unfolded undo_rel_def lookup_def]
  have wf: "wf_index U t"
    using look by blast
  have i: "next_id t0 \<le> i" "i = next_id t"
    using look e(1) by auto
  have m: "map_of (rows t') k = (if k = i then Some v else map_of (rows t) k)" for k
    using e(2,6) wf by (auto simp: map_of_ins wf_index_def wf_rows_def map_of_eq_None)
  have "undo_rel U t0 (h\<lparr>new_ids := List.insert i (new_ids h)\<rparr>) t'"
    unfolding undo_rel_def lookup_def m
    using look i e cb.wf_emplace [OF U wf op] undo_rel_new [OF rel i(1)]
    by (auto simp: on_create_def split: option.splits)
  then show ?thesis ..
qed

lemma undo_rel_modify:
  assumes U: "symp U" and rel: "undo_rel U t0 h t" and op: "modify U i f t = Inr t'"
    and keys: "\<And>v. same_keys U (f v) v"
  shows "\<exists>h'. undo_rel U t0 h' t'"
proof -
  note look = rel [unfolded undo_rel_def lookup_def]
  have wf: "wf_index U t"
    using look by blast
  from op obtain v where v: "map_of (rows t) i = Some v" "rows t' = upd i (f v) (rows t)"
    "next_id t' = next_id t" "stack t' = on_modify i v (stack t)" "revision t' = revision t"
    by (rule modify_Inr)
  have m: "map_of (rows t') k = (if k = i then Some (f v) else map_of (rows t) k)" for k
    using v(1,2) by (simp add: map_of_upd)
  have wf': "wf_index U t'"
    by (rule cb.wf_modify [OF U wf op])
  show ?thesis
  proof (cases "i \<in> set (new_ids h) \<or> map_of (old_values h) i \<noteq> None")
    case True
    then have st: "stack t' = h # stack t0"
      using look v(4) by (auto simp: on_modify_def)
    have "next_id t0 \<le> i \<or> map_of (old_values h) i \<noteq> None"
      using True look by blast
    moreover have "\<forall>w. map_of (old_values h) i = Some w \<longrightarrow> same_keys U w (f v)"
      using look v(1) keys by (metis option.inject same_keys_sym same_keys_trans)
    ultimately have "undo_rel U t0 h t'"
      unfolding undo_rel_def lookup_def m
      using look v st wf' undo_rel_new [OF rel]
      by (auto split: option.splits)
    then show ?thesis ..
  next
    case False
    then have old: "map_of (old_values h) i = None" and lt: "i < next_id t0"
      using look v(1) by auto
    have rem: "map_of (removed_values h) i = None"
      using look v(1) by force
    let ?h = "h\<lparr>old_values := ins i v (old_values h)\<rparr>"
    have "stack t' = ?h # stack t0"
      using look v(4) False by (auto simp: on_modify_def)
    moreover have m': "map_of (old_values ?h) k = (if k = i then Some v else map_of (old_values h) k)" for k
      using look old by (simp add: map_of_ins)
    ultimately have "undo_rel U t0 ?h t'"
      unfolding undo_rel_def lookup_def m m'
      using look v old lt rem wf' keys
      by (auto simp: sorted1_ins intro: same_keys_sym split: option.splits)
    then show ?thesis ..
  qed
qed

lemma undo_rel_remove:
  assumes rel: "undo_rel U t0 h t" and op: "remove i t = Inr t'"
  shows "\<exists>h'. undo_rel U t0 h' t'"
proof -
  note look = rel [unfolded undo_rel_def lookup_def]
  have wf: "wf_index U t"
    using look by blast
  from op obtain v where v: "map_of (rows t) i = Some v" "rows t' = del i (rows t)"
    "next_id t' = next_id t" "stack t' = on_remove i v (stack t)" "revision t' = revision t"
    by (rule remove_Inr)
  have m: "map_of (rows t') k = (if k = i then None else map_of (rows t) k)" for k
    using v(2) by (simp add: map_of_del)
  have wf': "wf_index U t'"
    by (rule cb.wf_remove [OF wf op])
  have rem: "map_of (removed_values h) i = None"
    using look v(1) by force
  consider (new) "i \<in> set (new_ids h)"
    | (old) w where "i \<notin> set (new_ids h)" "map_of (old_values h) i = Some w"
    | (fresh) "i \<notin> set (new_ids h)" "map_of (old_values h) i = None"
    by fastforce
  then show ?thesis
  proof cases
    case new
    let ?h = "h\<lparr>new_ids := removeAll i (new_ids h)\<rparr>"
    have ge: "next_id t0 \<le> i"
      using look new by blast
    then have old: "map_of (old_values h) i = None"
      using undo_rel_new [OF rel] by blast
    have "stack t' = ?h # stack t0"
      using look v(4) new by (auto simp: on_remove_def)
    then have "undo_rel U t0 ?h t'"
      unfolding undo_rel_def lookup_def m
      using look v ge old wf' by (auto simp: distinct_removeAll split: option.splits)
    then show ?thesis ..
  next
    case old
    let ?h = "h\<lparr>removed_values := ins i w (removed_values h), old_values := del i (old_values h)\<rparr>"
    have lt: "i < next_id t0"
      using look old(2) by blast
    have "stack t' = ?h # stack t0"
      using look v(4) old by (auto simp: on_remove_def)
    moreover have m': "map_of (removed_values ?h) k = (if k = i then Some w else map_of (removed_values h) k)"
      "map_of (old_values ?h) k = (if k = i then None else map_of (old_values h) k)" for k
      using look rem by (simp_all add: map_of_ins map_of_del)
    ultimately have "undo_rel U t0 ?h t'"
      unfolding undo_rel_def lookup_def m m'
      using look v old rem wf'
      by (auto simp: sorted1_ins sorted1_del split: option.splits)
    then show ?thesis ..
  next
    case fresh
    let ?h = "h\<lparr>removed_values := ins i v (removed_values h)\<rparr>"
    have lt: "i < next_id t0"
      using look fresh(1) v(1) by auto
    have "stack t' = ?h # stack t0"
      using look v(4) fresh rem by (auto simp: on_remove_def)
    moreover have m': "map_of (removed_values ?h) k = (if k = i then Some v else map_of (removed_values h) k)" for k
      using look rem by (simp add: map_of_ins)
    ultimately have "undo_rel U t0 ?h t'"
      unfolding undo_rel_def lookup_def m m'
      using look v fresh lt rem wf' by (auto simp: sorted1_ins split: option.splits)
    then show ?thesis ..
  qed
qed

lemma undo_rel_run:
  assumes U: "symp U" and "undo_rel U t0 h t" and "run_ops U ops t = Inr t'"
    and keys: "\<forall>op\<in>set ops. keeps_keys U op"
  shows "\<exists>h'. undo_rel U t0 h' t'"
proof -
  have step: "\<exists>h'. undo_rel U t0 h' t2"
    if "op \<in> set ops" "\<exists>h. undo_rel U t0 h t1" "run_op U op t1 = Inr t2" for op t1 t2
  proof (cases op)
    case (Create v)
    with that show ?thesis
      by (auto simp: ok_iff dest: undo_rel_emplace [OF U])
  next
    case (Modify i m)
    with that keys have "\<And>v. same_keys U (m v) v"
      by fastforce
    with that Modify show ?thesis
      by (auto dest: undo_rel_modify [OF U])
  next
    case (Remove i)
    with that show ?thesis
      by (auto dest: undo_rel_remove)
  qed
  show ?thesis
    by (rule foldE_invariant [where f = "run_op U" and xs = ops and s = t])
      (use step assms(2,3) in \<open>auto simp: run_ops_def\<close>)
qed

section \<open>Merging a session into the previous one\<close>

lemma squash_old_all:
  assumes "sorted1 (old_values p)" "distinct (map fst items)"
  shows "let q = foldl squash_old p items in
    sorted1 (old_values q) \<and> removed_values q = removed_values p \<and> new_ids q = new_ids p \<and>
    old_next_id q = old_next_id p \<and>
    (\<forall>k. map_of (old_values q) k =
       (case map_of (old_values p) k of Some w \<Rightarrow> Some w
        | None \<Rightarrow> if k \<in> set (new_ids p) then None else map_of items k))"
  using assms
proof (induction items arbitrary: p)
  case (Cons x items)
  let ?p = "squash_old p x"
  have fresh: "map_of items (fst x) = None"
    using Cons.prems(2) by (simp add: map_of_eq_None_iff)
  have p: "sorted1 (old_values ?p)" "removed_values ?p = removed_values p" "new_ids ?p = new_ids p"
    "old_next_id ?p = old_next_id p"
    "map_of (old_values ?p) k =
      (if k = fst x \<and> k \<notin> set (new_ids p) \<and> map_of (old_values p) k = None
       then Some (snd x) else map_of (old_values p) k)" for k
    using Cons.prems(1) by (auto simp: squash_old_def sorted1_ins map_of_ins)
  note IH = Cons.IH [OF p(1), unfolded p Let_def]
  show ?case
    using IH Cons.prems(2) fresh unfolding Let_def by (cases x) (auto split: option.splits)
qed (simp add: option.case_eq_if)

lemma squash_new_all:
  "let q = foldl (\<lambda>q i. q\<lparr>new_ids := List.insert i (new_ids q)\<rparr>) p is in
    old_values q = old_values p \<and> removed_values q = removed_values p \<and>
    old_next_id q = old_next_id p \<and> set (new_ids q) = set (new_ids p) \<union> set is \<and>
    (distinct (new_ids p) \<longrightarrow> distinct (new_ids q))"
  by (induction "is" arbitrary: p) (auto simp: Let_def)

lemma squash_removed_all:
  assumes "sorted1 (old_values p)" "sorted1 (removed_values p)" "distinct (new_ids p)"
    and "distinct (map fst items)" "\<forall>x\<in>set items. map_of (removed_values p) (fst x) = None"
  shows "let q = foldl squash_removed p items in
    sorted1 (old_values q) \<and> sorted1 (removed_values q) \<and> distinct (new_ids q) \<and>
    old_next_id q = old_next_id p \<and>
    set (new_ids q) = {i \<in> set (new_ids p). map_of items i = None} \<and>
    (\<forall>k. map_of (old_values q) k =
       (if k \<notin> set (new_ids p) \<and> map_of items k \<noteq> None then None else map_of (old_values p) k)) \<and>
    (\<forall>k. map_of (removed_values q) k =
       (if k \<in> set (new_ids p) then map_of (removed_values p) k
        else (case map_of items k of None \<Rightarrow> map_of (removed_values p) k
              | Some v \<Rightarrow> (case map_of (old_values p) k of Some w \<Rightarrow> Some w | None \<Rightarrow> Some v))))"
  using assms
proof (induction items arbitrary: p)
  case (Cons x items)
  let ?p = "squash_removed p x"
  have fresh: "map_of items (fst x) = None"
    using Cons.prems(4) by (simp add: map_of_eq_None_iff)
  have none: "map_of (removed_values p) (fst x) = None"
    using Cons.prems(5) by simp
  have p: "sorted1 (old_values ?p)" "sorted1 (removed_values ?p)" "distinct (new_ids ?p)"
    "old_next_id ?p = old_next_id p"
    "set (new_ids ?p) = set (new_ids p) - {fst x}"
    "map_of (old_values ?p) k =
      (if k = fst x \<and> k \<notin> set (new_ids p) then None else map_of (old_values p) k)"
    "map_of (removed_values ?p) k =
      (if k = fst x \<and> k \<notin> set (new_ids p)
       then (case map_of (old_values p) k of Some w \<Rightarrow> Some w | None \<Rightarrow> Some (snd x))
       else map_of (removed_values p) k)" for k
    using Cons.prems(1-3) none
    by (auto simp: squash_removed_def sorted1_ins sorted1_del map_of_ins map_of_del
        distinct_removeAll split: option.splits)
  have rest: "\<forall>y\<in>set items. map_of (removed_values ?p) (fst y) = None"
  proof
    fix y
    assume "y \<in> set items"
    then have "fst y \<noteq> fst x" "map_of (removed_values p) (fst y) = None"
      using Cons.prems(4,5) by (auto simp: image_iff)
    then show "map_of (removed_values ?p) (fst y) = None"
      by (simp add: p(7))
  qed
  note IH = Cons.IH [OF p(1-3) _ rest, unfolded p Let_def]
  show ?case
    using IH Cons.prems(4) fresh none unfolding Let_def
    by (cases x) (auto split: option.splits)
qed (simp add: option.case_eq_if)

lemma squash_states_all:
  assumes "undo_rel U t0 h0 t1" "undo_rel U t1 h1 t2"
  shows "sorted1 (old_values (squash_states h1 h0))" "sorted1 (removed_values (squash_states h1 h0))"
    "distinct (new_ids (squash_states h1 h0))" "old_next_id (squash_states h1 h0) = old_next_id h0"
    "set (new_ids (squash_states h1 h0)) =
      {i \<in> set (new_ids h0) \<union> set (new_ids h1). map_of (removed_values h1) i = None}"
    "map_of (old_values (squash_states h1 h0)) k =
      (if k \<notin> set (new_ids h0) \<union> set (new_ids h1) \<and> map_of (removed_values h1) k \<noteq> None then None
       else (case map_of (old_values h0) k of Some w \<Rightarrow> Some w
             | None \<Rightarrow> if k \<in> set (new_ids h0) then None else map_of (old_values h1) k))"
    "map_of (removed_values (squash_states h1 h0)) k =
      (if k \<in> set (new_ids h0) \<union> set (new_ids h1) then map_of (removed_values h0) k
       else (case map_of (removed_values h1) k of None \<Rightarrow> map_of (removed_values h0) k
             | Some v \<Rightarrow> (case map_of (old_values h0) k of Some w \<Rightarrow> Some w
                 | None \<Rightarrow> (case map_of (old_values h1) k of Some w \<Rightarrow> Some w | None \<Rightarrow> Some v))))"
proof -
  note look0 = assms(1) [unfolded undo_rel_def lookup_def]
  note look1 = assms(2) [unfolded undo_rel_def lookup_def]
  have srt: "sorted1 (old_values h0)" "sorted1 (removed_values h0)" "sorted1 (old_values h1)"
    "sorted1 (removed_values h1)" "distinct (new_ids h0)"
    using look0 look1 by auto
  define q1 where "q1 = foldl squash_old h0 (old_values h1)"
  define q2 where "q2 = foldl (\<lambda>q i. q\<lparr>new_ids := List.insert i (new_ids q)\<rparr>) q1 (new_ids h1)"
  have q3: "squash_states h1 h0 = foldl squash_removed q2 (removed_values h1)"
    by (simp add: squash_states_def q1_def q2_def)
  have q1: "sorted1 (old_values q1)" "removed_values q1 = removed_values h0" "new_ids q1 = new_ids h0"
    "old_next_id q1 = old_next_id h0" "\<And>k. map_of (old_values q1) k =
       (case map_of (old_values h0) k of Some w \<Rightarrow> Some w
        | None \<Rightarrow> if k \<in> set (new_ids h0) then None else map_of (old_values h1) k)"
    using squash_old_all [OF srt(1) sorted1_distinct [OF srt(3)]]
    unfolding q1_def Let_def by blast+
  have q2: "old_values q2 = old_values q1" "removed_values q2 = removed_values h0"
    "old_next_id q2 = old_next_id h0" "set (new_ids q2) = set (new_ids h0) \<union> set (new_ids h1)"
    "distinct (new_ids q2)"
    using squash_new_all [of q1 "new_ids h1"] srt(5) unfolding q2_def Let_def q1 by blast+
  have "\<forall>x\<in>set (removed_values h1). map_of (removed_values q2) (fst x) = None"
  proof
    fix x
    assume "x \<in> set (removed_values h1)"
    then have "map_of (removed_values h1) (fst x) = Some (snd x)"
      using look1 by (metis in_set_map_of prod.collapse)
    then have "map_of (rows t1) (fst x) = Some (snd x)"
      using look1 by fastforce
    then show "map_of (removed_values q2) (fst x) = None"
      using look0 q2(2) by (metis option.distinct(1))
  qed
  note all = squash_removed_all [OF _ _ q2(5) sorted1_distinct [OF srt(4)] this, folded q3,
      unfolded Let_def q2, OF q1(1) srt(2)]
  show "sorted1 (old_values (squash_states h1 h0))" "sorted1 (removed_values (squash_states h1 h0))"
    "distinct (new_ids (squash_states h1 h0))" "old_next_id (squash_states h1 h0) = old_next_id h0"
    "set (new_ids (squash_states h1 h0)) =
      {i \<in> set (new_ids h0) \<union> set (new_ids h1). map_of (removed_values h1) i = None}"
    "map_of (old_values (squash_states h1 h0)) k =
      (if k \<notin> set (new_ids h0) \<union> set (new_ids h1) \<and> map_of (removed_values h1) k \<noteq> None then None
       else (case map_of (old_values h0) k of Some w \<Rightarrow> Some w
             | None \<Rightarrow> if k \<in> set (new_ids h0) then None else map_of (old_values h1) k))"
    "map_of (removed_values (squash_states h1 h0)) k =
      (if k \<in> set (new_ids h0) \<union> set (new_ids h1) then map_of (removed_values h0) k
       else (case map_of (removed_values h1) k of None \<Rightarrow> map_of (removed_values h0) k
             | Some v \<Rightarrow> (case map_of (old_values h0) k of Some w \<Rightarrow> Some w
                 | None \<Rightarrow> (case map_of (old_values h1) k of Some w \<Rightarrow> Some w | None \<Rightarrow> Some v))))"
    using all unfolding q1(5) by (auto split: option.splits)
qed

lemma undo_rel_squash:
  assumes r0: "undo_rel U t0 h0 t1" and r1: "undo_rel U t1 h1 t2"
  shows "undo_rel U t0 (squash_states h1 h0) (squash t2)"
proof -
  note sq = squash_states_all [OF r0 r1]
  note look0 = r0 [unfolded undo_rel_def lookup_def]
  note look1 = r1 [unfolded undo_rel_def lookup_def]
  have st: "squash t2 = t2\<lparr>stack := squash_states h1 h0 # stack t0, revision := revision t2 - 1\<rparr>"
    using look0 look1 by (simp add: squash_def)
  have new: "\<And>i. next_id t0 \<le> i \<Longrightarrow> map_of (old_values h0) i = None \<and> map_of (removed_values h0) i = None"
    "\<And>i. next_id t1 \<le> i \<Longrightarrow> map_of (old_values h1) i = None \<and> map_of (removed_values h1) i = None"
    using undo_rel_new [OF r0] undo_rel_new [OF r1] by blast+
  have newids: "i \<in> set (new_ids h0) \<longleftrightarrow> next_id t0 \<le> i \<and> map_of (rows t1) i \<noteq> None"
    "i \<in> set (new_ids h1) \<longleftrightarrow> next_id t1 \<le> i \<and> map_of (rows t2) i \<noteq> None" for i
    using look0 look1 by auto
  have le: "next_id t0 \<le> next_id t1" "next_id t1 \<le> next_id t2"
    using look0 look1 by auto
  have back0: "map_of (rows t0) i =
        (case map_of (removed_values h0) i of Some w \<Rightarrow> Some w
         | None \<Rightarrow> (case map_of (old_values h0) i of Some w \<Rightarrow> Some w | None \<Rightarrow> map_of (rows t1) i))"
    if "i < next_id t0" for i using look0 that by auto
  have back1: "map_of (rows t1) i =
        (case map_of (removed_values h1) i of Some w \<Rightarrow> Some w
         | None \<Rightarrow> (case map_of (old_values h1) i of Some w \<Rightarrow> Some w | None \<Rightarrow> map_of (rows t2) i))"
    if "i < next_id t1" for i using look1 that by auto
  have old0: "map_of (old_values h0) i = Some w \<Longrightarrow> i < next_id t0 \<and> (\<exists>v. map_of (rows t1) i = Some v \<and> same_keys U w v)" for i w
    using look0 by auto
  have old1: "map_of (old_values h1) i = Some w \<Longrightarrow> i < next_id t1 \<and> (\<exists>v. map_of (rows t2) i = Some v \<and> same_keys U w v)" for i w
    using look1 by auto
  have rem0: "map_of (removed_values h0) i = Some w \<Longrightarrow> i < next_id t0 \<and> map_of (rows t1) i = None" for i w
    using look0 by auto
  have rem1: "map_of (removed_values h1) i = Some w \<Longrightarrow> i < next_id t1 \<and> map_of (rows t2) i = None" for i w
    using look1 by auto
  have wf: "wf_index U (squash t2)"
    using look1 by (simp add: st wf_index_def)
  have disj: "map_of (removed_values h1) i = Some w \<Longrightarrow> map_of (old_values h1) i = None"
    "map_of (removed_values h0) i = Some w \<Longrightarrow> map_of (old_values h0) i = None" for i w
    using undo_rel_disjoint [OF r1, of i] undo_rel_disjoint [OF r0, of i] by auto
  have above: "map_of (rows t1) i = None" if "next_id t1 \<le> i" for i
    using lookup_ge [of U t1 i] look1 that by (simp add: lookup_def)
  have A: "map_of (rows t0) i =
        (case map_of (removed_values (squash_states h1 h0)) i of Some w \<Rightarrow> Some w
         | None \<Rightarrow> (case map_of (old_values (squash_states h1 h0)) i of Some w \<Rightarrow> Some w
                   | None \<Rightarrow> map_of (rows t2) i))" if "i < next_id t0" for i
    using that le newids [of i] back0 [of i] back1 [of i] rem1 [of i] rem0 [of i] disj
    by (auto simp: sq split: option.splits)
  have B: "i < next_id t0 \<and> (\<exists>v. map_of (rows t2) i = Some v \<and> same_keys U w v)"
    if "map_of (old_values (squash_states h1 h0)) i = Some w" for i w
  proof (cases "map_of (old_values h0) i")
    case None
    with that have o1: "map_of (old_values h1) i = Some w" "i \<notin> set (new_ids h0)"
      by (auto simp: sq split: if_splits)
    then have "i < next_id t0"
      using newids(1) [of i] back1 [of i] old1 [of i] by (auto split: option.splits)
    with o1 show ?thesis
      using old1 by blast
  next
    case (Some w')
    with that have w: "w' = w" "map_of (removed_values h1) i = None \<or> i \<in> set (new_ids h0) \<union> set (new_ids h1)"
      by (auto simp: sq split: if_splits)
    then obtain v where v: "i < next_id t0" "map_of (rows t1) i = Some v" "same_keys U w v"
      using old0 [OF Some] by blast
    then have "map_of (removed_values h1) i = None"
      using w(2) newids [of i] le by auto
    then show ?thesis
      using v back1 [of i] le old1 [of i] by (auto split: option.splits intro: same_keys_trans)
  qed
  have C: "i < next_id t0 \<and> map_of (rows t2) i = None"
    if "map_of (removed_values (squash_states h1 h0)) i \<noteq> None" for i
  proof (cases "map_of (removed_values h0) i")
    case None
    with that have "map_of (removed_values h1) i \<noteq> None" "i \<notin> set (new_ids h0)"
      by (auto simp: sq split: if_splits option.splits)
    then show ?thesis
      using rem1 [of i] newids(1) [of i] back1 [of i] by (auto split: option.splits)
  next
    case (Some w)
    then show ?thesis
      using rem0 [OF Some] le back1 [of i] by (auto split: option.splits)
  qed
  have D: "i \<in> set (new_ids (squash_states h1 h0)) \<longleftrightarrow> next_id t0 \<le> i \<and> map_of (rows t2) i \<noteq> None" for i
  proof (cases "i < next_id t1")
    case True
    then show ?thesis
      using le newids [of i] back1 [of i] rem1 [of i] old1 [of i]
      by (auto simp: sq split: option.splits)
  next
    case False
    then show ?thesis
      using le newids [of i] above [of i] new [of i] by (auto simp: sq)
  qed
  have sqt: "rows (squash t2) = rows t2" "next_id (squash t2) = next_id t2"
    "stack (squash t2) = squash_states h1 h0 # stack t0" "revision (squash t2) = revision t0 + 1"
    using look0 look1 by (simp_all add: st)
  have "wf_index U t0" "old_next_id (squash_states h1 h0) = next_id t0" "next_id t0 \<le> next_id t2"
    using look0 le sq(4) by auto
  moreover have "\<forall>i. i < next_id t0 \<longrightarrow> map_of (rows t0) i =
        (case map_of (removed_values (squash_states h1 h0)) i of Some w \<Rightarrow> Some w
         | None \<Rightarrow> (case map_of (old_values (squash_states h1 h0)) i of Some w \<Rightarrow> Some w
                   | None \<Rightarrow> map_of (rows t2) i))"
    by (intro allI impI A)
  moreover have "\<forall>i w. map_of (old_values (squash_states h1 h0)) i = Some w \<longrightarrow>
      i < next_id t0 \<and> (\<exists>v. map_of (rows t2) i = Some v \<and> same_keys U w v)"
    by (intro allI impI B)
  moreover have "\<forall>i. map_of (removed_values (squash_states h1 h0)) i \<noteq> None \<longrightarrow>
      i < next_id t0 \<and> map_of (rows t2) i = None"
    by (intro allI impI C)
  moreover have "\<forall>i. i \<in> set (new_ids (squash_states h1 h0)) \<longleftrightarrow>
      next_id t0 \<le> i \<and> map_of (rows t2) i \<noteq> None"
    by (intro allI D)
  ultimately show ?thesis
    using sq(1-3) wf unfolding undo_rel_def lookup_def sqt by - (intro conjI; (rule refl | assumption))
qed

section \<open>Histories of sessions\<close>

text \<open>
  Everything that happens to an index between two starts of the node: sessions opened,
  objects created, modified (keeping their unique keys) and removed, sessions merged,
  undone and committed, in any order.
\<close>

inductive index_step ::
  "('v \<Rightarrow> 'v \<Rightarrow> bool) \<Rightarrow> 'v generic_index \<Rightarrow> 'v generic_index \<Rightarrow> bool" for U where
  step_start: "index_step U t (start_undo_session e t)"
| step_op: "keeps_keys U op \<Longrightarrow> run_op U op t = Inr t' \<Longrightarrow> index_step U t t'"
| step_squash: "index_step U t (squash t)"
| step_undo: "undo U t = Inr t' \<Longrightarrow> index_step U t t'"
| step_commit: "index_step U t (commit r t)"

inductive index_reachable ::
  "('v \<Rightarrow> 'v \<Rightarrow> bool) \<Rightarrow> 'v generic_index \<Rightarrow> bool" for U where
  reach_empty: "index_reachable U empty_index"
| reach_step: "index_reachable U t \<Longrightarrow> index_step U t t' \<Longrightarrow> index_reachable U t'"

text \<open>Every session of the stack can be rewound to the state it began in.\<close>

fun rewinds :: "('v \<Rightarrow> 'v \<Rightarrow> bool) \<Rightarrow> 'v generic_index \<Rightarrow> 'v generic_index list \<Rightarrow> bool" where
  "rewinds U t [] = (stack t = [] \<and> wf_index U t)"
| "rewinds U t (b # bs) = ((\<exists>h. undo_rel U b h t) \<and> rewinds U b bs)"

lemma rewinds_wf: "rewinds U t bs \<Longrightarrow> wf_index U t"
  by (cases bs) (auto simp: undo_rel_def)

lemma rewinds_length: "rewinds U t bs \<Longrightarrow> length (stack t) = length bs"
  by (induction U t bs rule: rewinds.induct) (auto simp: undo_rel_def)

lemma with_stack:
  "lookup (t\<lparr>stack := s\<rparr>) i = lookup t i"
  "wf_index U (t\<lparr>stack := s\<rparr>) = wf_index U t"
  by (simp_all add: lookup_def wf_index_def)

lemma undo_rel_take:
  "undo_rel U b h t \<Longrightarrow>
   undo_rel U (b\<lparr>stack := take n (stack b)\<rparr>) h (t\<lparr>stack := take (Suc n) (stack t)\<rparr>)"
  unfolding undo_rel_def with_stack by simp

lemma rewinds_take:
  "rewinds U t bs \<Longrightarrow> \<exists>bs'. rewinds U (t\<lparr>stack := take n (stack t)\<rparr>) bs'"
proof (induction bs arbitrary: t n)
  case Nil
  then have "rewinds U (t\<lparr>stack := take n (stack t)\<rparr>) []"
    by (simp add: wf_index_def)
  then show ?case ..
next
  case (Cons b bs)
  then obtain h where h: "undo_rel U b h t" "rewinds U b bs"
    by auto
  show ?case
  proof (cases n)
    case 0
    have "rewinds U (t\<lparr>stack := take n (stack t)\<rparr>) []"
      using h(1) 0 by (simp add: undo_rel_def wf_index_def)
    then show ?thesis ..
  next
    case (Suc m)
    obtain bs' where "rewinds U (b\<lparr>stack := take m (stack b)\<rparr>) bs'"
      using Cons.IH [OF h(2)] by blast
    with undo_rel_take [OF h(1), of m] Suc
    have "rewinds U (t\<lparr>stack := take n (stack t)\<rparr>) (b\<lparr>stack := take m (stack b)\<rparr> # bs')"
      by auto
    then show ?thesis ..
  qed
qed

lemma commit_take: "\<exists>n. commit r t = t\<lparr>stack := take n (stack t)\<rparr>"
proof -
  have "\<exists>n. rev (dropWhile P (rev xs)) = take n xs" for P and xs :: "'b list"
    using dropWhile_eq_drop [of P "rev xs"] by (metis rev_drop rev_rev_ident)
  then show ?thesis
    unfolding commit_def by metis
qed

lemma rewinds_op:
  assumes "symp U" "keeps_keys U op" "run_op U op t = Inr t'" "rewinds U t bs"
  shows "rewinds U t' bs"
proof (cases bs)
  case Nil
  then have "wf_index U t" "stack t = []"
    using assms(4) by auto
  moreover from this have "wf_index U t'"
    using assms(1,3) by (cases op) (auto simp: ok_iff intro: cb.wf_intros)
  moreover have "stack t' = []"
    using assms(3) calculation(2)
    by (cases op) (auto simp: ok_iff on_create_def on_modify_def on_remove_def
        elim!: modify_Inr remove_Inr dest: emplace_Inr(4))
  ultimately have "wf_index U t' \<and> stack t' = []"
    by blast
  with Nil show ?thesis
    by simp
next
  case (Cons b bs')
  then obtain h where "undo_rel U b h t" "rewinds U b bs'"
    using assms(4) by auto
  moreover have "run_ops U [op] t = Inr t'"
    using assms(3) by (simp add: run_ops_def)
  ultimately show ?thesis
    using Cons undo_rel_run [OF assms(1), of b h t "[op]" t'] assms(2) by auto
qed

lemma rewinds_squash: "rewinds U t bs \<Longrightarrow> \<exists>bs'. rewinds U (squash t) bs'"
proof (cases bs)
  case Nil
  assume "rewinds U t bs"
  with Nil have "rewinds U (squash t) []"
    by (simp add: squash_def)
  then show ?thesis ..
next
  case (Cons b bs1)
  assume "rewinds U t bs"
  with Cons obtain h where h: "undo_rel U b h t" "rewinds U b bs1"
    by auto
  show ?thesis
  proof (cases bs1)
    case Nil
    then have "rewinds U (squash t) []"
      using h by (simp add: squash_def undo_rel_def wf_index_def)
    then show ?thesis ..
  next
    case (Cons b2 bs2)
    then obtain h2 where "undo_rel U b2 h2 b" "rewinds U b2 bs2"
      using h(2) by auto
    then have "rewinds U (squash t) (b2 # bs2)"
      using undo_rel_squash [OF _ h(1)] by auto
    then show ?thesis ..
  qed
qed

lemma rewinds_undo:
  assumes "symp U" "rewinds U t bs"
  shows "\<exists>t'. undo U t = Inr t' \<and> rewinds U t' (tl bs)"
  using assms undo_rel_undo [OF assms(1)] by (cases bs) (auto simp: undo_def)

lemma reachable_rewinds:
  assumes "symp U" "index_reachable U t"
  shows "\<exists>bs. rewinds U t bs"
  using assms(2)
proof induction
  case reach_empty
  have "rewinds U empty_index []"
    by (simp add: empty_index_def wf_index_def wf_rows_def)
  then show ?case ..
next
  case (reach_step t t')
  then obtain bs where bs: "rewinds U t bs"
    by blast
  from reach_step.hyps(2) show ?case
  proof (cases rule: index_step.cases)
    case (step_start e)
    show ?thesis
    proof (cases e)
      case True
      have "rewinds U t' (t # bs)"
        using bs undo_rel_start [OF rewinds_wf [OF bs]] step_start True by auto
      then show ?thesis ..
    qed (use step_start bs in \<open>auto simp: start_undo_session_def\<close>)
  next
    case (step_op op)
    then show ?thesis
      using rewinds_op [OF assms(1) _ _ bs] by blast
  next
    case step_squash
    then show ?thesis
      using rewinds_squash [OF bs] by simp
  next
    case step_undo
    then show ?thesis
      using rewinds_undo [OF assms(1) bs] by auto
  next
    case (step_commit r)
    then show ?thesis
      using rewinds_take [OF bs] commit_take [of r t] by metis
  qed
qed

lemma rewinds_undo_n:
  assumes "symp U"
  shows "rewinds U t bs \<Longrightarrow> n \<le> length bs \<Longrightarrow> \<exists>t'. undo_n U n t = Inr t' \<and> rewinds U t' (drop n bs)"
proof (induction n arbitrary: t bs)
  case (Suc n)
  obtain t1 where t1: "undo U t = Inr t1" "rewinds U t1 (tl bs)"
    using rewinds_undo [OF assms Suc.prems(1)] by blast
  then show ?case
    using Suc.IH [OF t1(2)] Suc.prems(2) by (auto simp: drop_Suc)
qed simp

section \<open>Properties\<close>


text \<open>An index of two accounts for the witnesses: a pair is (unique name, balance).\<close>

definition same_name :: "nat \<times> int \<Rightarrow> nat \<times> int \<Rightarrow> bool" where
  "same_name v w = (fst v = fst w)"

lemma symp_same_name [simp]: "symp same_name"
  by (simp add: symp_def same_name_def)

definition two_accounts :: "(nat \<times> int) generic_index" where
  "two_accounts = \<lparr>stack = [], revision = 7, next_id = 2, rows = [(0, (10, 5)), (1, (11, 6))]\<rparr>"

definition sample_session :: "(nat \<times> int) store_op list" where
  "sample_session =
     [Modify 0 (\<lambda>(n, b). (n, b + 1)), Create (12, 0), Remove 1, Create (11, 9), Remove 2]"

lemma wf_two_accounts: "wf_index same_name two_accounts"
  by (simp add: wf_index_def wf_rows_def two_accounts_def same_name_def)

lemma sample_keeps_keys: "\<forall>op\<in>set sample_session. keeps_keys same_name op"
  by (auto simp: sample_session_def same_keys_def same_name_def)




text \<open>
  From an empty index, after any history of sessions, operations that keep the unique
  keys, merges, undos and commits, \<open>undo_all\<close> never throws: it returns to a well formed
  index with no session open.
\<close>

theorem undo_all_total:
  assumes "symp U" "index_reachable U t"
  shows "\<exists>t'. undo_all U t = Inr t' \<and> wf_index U t' \<and> stack t' = []"
proof -
  obtain bs where bs: "rewinds U t bs"
    using reachable_rewinds [OF assms] by blast
  have "length (stack t) = length bs"
    by (rule rewinds_length [OF bs])
  with rewinds_undo_n [OF assms(1) bs, of "length bs"] show ?thesis
    by (auto simp: undo_all_def)
qed

lemma undo_all_total_witness:
  "\<exists>t. index_reachable same_name t \<and> rows t = [(0, (4, 2))] \<and>
     (\<exists>t'. undo_all same_name t = Inr t' \<and> wf_index same_name t' \<and> stack t' = [])"
proof -
  have "index_reachable same_name (start_undo_session True empty_index)"
    by (rule reach_step [OF reach_empty step_start])
  moreover have "\<exists>t. run_op same_name (Create (4, 2)) (start_undo_session True empty_index) = Inr t \<and>
      rows t = [(0, (4, 2))]"
    by (simp add: emplace_def start_undo_session_def empty_index_def)
  ultimately obtain t where "index_reachable same_name t" "rows t = [(0, (4, 2))]"
    using reach_step step_op by (metis keeps_keys.simps(2))
  with undo_all_total [OF symp_same_name this(1)] show ?thesis
    by blast
qed

text \<open>
  The condition on the unique keys is needed: old values are restored before the new
  objects are erased, so a session that renames an account and gives its old name to a new
  one cannot be undone; \<open>undo\<close> throws.
\<close>

theorem undo_throws_on_reused_key:
  "\<exists>t'. run_ops same_name [Modify 0 (\<lambda>(n, b). (20, b)), Create (10, 0)]
       (start_undo_session True two_accounts) = Inr t' \<and>
     undo same_name t' = Inl Logic_error"
  by (simp add: run_ops_def two_accounts_def start_undo_session_def modify_def emplace_def
      lookup_def same_name_def on_modify_def on_create_def undo_def restore_old_def Let_def)

end
