(* ===== verification/Fc.thy ===== *)
theory Fc
  imports Prelude "HOL-Library.Signed_Division"
begin

text \<open>
  The functions of the \<open>fc\<close> library the chain computes with. \<open>fc\<close> is a git submodule
  (\<open>libraries/fc\<close>), so its functions are the fields of a record the definitions of the
  other theories take as their first argument; what the code relies on is stated by the
  predicates \<open>safe_ok\<close> (checked 64-bit arithmetic of \<open>fc::safe<int64_t>\<close>, the
  \<open>share_type\<close>), \<open>u128_ok\<close> (\<open>fc::uint128\<close>), \<open>text_ok\<close> (\<open>fc::to_string\<close>, \<open>fc::to_int64\<close>,
  \<open>fc::trim\<close>, \<open>fc::is_utf8\<close>). The record \<open>fc_ref\<close> is an instance that meets them all.
  Arithmetic on the raw \<open>value\<close> of a \<open>share_type\<close> is plain C++ arithmetic on
  \<open>int64_t\<close>, whose overflow is undefined behaviour.
\<close>

record fc_lib =
  safe_add :: "int \<Rightarrow> int \<Rightarrow> int option"
  safe_sub :: "int \<Rightarrow> int \<Rightarrow> int option"
  safe_mul :: "int \<Rightarrow> int \<Rightarrow> int option"
  safe_div :: "int \<Rightarrow> int \<Rightarrow> int option"
  safe_neg :: "int \<Rightarrow> int option"
  u128_of_int :: "int \<Rightarrow> 128 word"
  u128_add :: "128 word \<Rightarrow> 128 word \<Rightarrow> 128 word"
  u128_sub :: "128 word \<Rightarrow> 128 word \<Rightarrow> 128 word"
  u128_mul :: "128 word \<Rightarrow> 128 word \<Rightarrow> 128 word"
  u128_div :: "128 word \<Rightarrow> 128 word \<Rightarrow> 128 word option"
  u128_less :: "128 word \<Rightarrow> 128 word \<Rightarrow> bool"
  to_string :: "int \<Rightarrow> string"
  to_int64 :: "string \<Rightarrow> int option"
  trim :: "string \<Rightarrow> string"
  is_utf8 :: "string \<Rightarrow> bool"

section \<open>Machine integers\<close>

definition int64 :: "int \<Rightarrow> bool" where
  "int64 x \<longleftrightarrow> - (2 ^ 63) \<le> x \<and> x < 2 ^ 63"

lemma int64_iff: "int64 x \<longleftrightarrow> -9223372036854775808 \<le> x \<and> x < 9223372036854775808"
  by (simp add: int64_def)

definition checked :: "int \<Rightarrow> int option" where
  "checked x = (if int64 x then Some x else None)"

lemma checked_Some [simp]: "checked x = Some y \<longleftrightarrow> int64 x \<and> y = x"
  by (auto simp: checked_def)

definition raw :: "int \<Rightarrow> int result" where
  "raw x = (if int64 x then Inr x else Inl Undefined_behaviour)"

lemma raw_ok [ok_iff]: "raw x = Inr y \<longleftrightarrow> int64 x \<and> y = x"
  by (auto simp: raw_def)

definition add :: "fc_lib \<Rightarrow> int \<Rightarrow> int \<Rightarrow> int result" where
  "add L x y = the_or Overflow (safe_add L x y)"

definition sub :: "fc_lib \<Rightarrow> int \<Rightarrow> int \<Rightarrow> int result" where
  "sub L x y = the_or Overflow (safe_sub L x y)"

definition mul :: "fc_lib \<Rightarrow> int \<Rightarrow> int \<Rightarrow> int result" where
  "mul L x y = the_or Overflow (safe_mul L x y)"

definition sdivide :: "fc_lib \<Rightarrow> int \<Rightarrow> int \<Rightarrow> int result" where
  "sdivide L x y = the_or Overflow (safe_div L x y)"

text \<open>C++ division truncates; on nonnegative operands it is \<open>div\<close>.\<close>

lemma sdiv_nonneg: "0 \<le> a \<Longrightarrow> 0 < b \<Longrightarrow> (a::int) sdiv b = a div b"
  by (cases "a = 0") (simp_all add: signed_divide_int_def)

lemma smod_nonneg: "0 \<le> a \<Longrightarrow> 0 < b \<Longrightarrow> (a::int) smod b = a mod b"
  by (cases "a = 0") (simp_all add: signed_modulo_int_def)

section \<open>What the code relies on\<close>

definition safe_ok :: "fc_lib \<Rightarrow> bool" where
  "safe_ok L \<longleftrightarrow> (\<forall>x y. int64 x \<longrightarrow> int64 y \<longrightarrow>
     safe_add L x y = checked (x + y) \<and> safe_sub L x y = checked (x - y) \<and>
     safe_mul L x y = checked (x * y) \<and> safe_neg L x = checked (- x) \<and>
     (y \<noteq> 0 \<longrightarrow> safe_div L x y = checked (x sdiv y)))"

lemma add_ok:
  "safe_ok L \<Longrightarrow> int64 x \<Longrightarrow> int64 y \<Longrightarrow> add L x y = Inr z \<longleftrightarrow> z = x + y \<and> int64 z"
  by (auto simp: safe_ok_def add_def ok_iff)

lemma sub_ok:
  "safe_ok L \<Longrightarrow> int64 x \<Longrightarrow> int64 y \<Longrightarrow> sub L x y = Inr z \<longleftrightarrow> z = x - y \<and> int64 z"
  by (auto simp: safe_ok_def sub_def ok_iff)

lemma mul_ok:
  "safe_ok L \<Longrightarrow> int64 x \<Longrightarrow> int64 y \<Longrightarrow> mul L x y = Inr z \<longleftrightarrow> z = x * y \<and> int64 z"
  by (auto simp: safe_ok_def mul_def ok_iff)

lemma sdivide_ok:
  "safe_ok L \<Longrightarrow> int64 x \<Longrightarrow> int64 y \<Longrightarrow> y \<noteq> 0 \<Longrightarrow>
   sdivide L x y = Inr z \<longleftrightarrow> z = x sdiv y \<and> int64 z"
  by (auto simp: safe_ok_def sdivide_def ok_iff)

lemma add_D: "add L x y = Inr z \<Longrightarrow> safe_ok L \<Longrightarrow> int64 x \<Longrightarrow> int64 y \<Longrightarrow> z = x + y \<and> int64 (x + y)"
  by (auto simp: add_ok)

lemma sub_D: "sub L x y = Inr z \<Longrightarrow> safe_ok L \<Longrightarrow> int64 x \<Longrightarrow> int64 y \<Longrightarrow> z = x - y \<and> int64 (x - y)"
  by (auto simp: sub_ok)

lemma mul_D: "mul L x y = Inr z \<Longrightarrow> safe_ok L \<Longrightarrow> int64 x \<Longrightarrow> int64 y \<Longrightarrow> z = x * y \<and> int64 (x * y)"
  by (auto simp: mul_ok)

lemma add_Inr: "safe_ok L \<Longrightarrow> int64 x \<Longrightarrow> int64 y \<Longrightarrow> int64 (x + y) \<Longrightarrow> add L x y = Inr (x + y)"
  by (simp add: add_ok)

lemma sub_Inr: "safe_ok L \<Longrightarrow> int64 x \<Longrightarrow> int64 y \<Longrightarrow> int64 (x - y) \<Longrightarrow> sub L x y = Inr (x - y)"
  by (simp add: sub_ok)

text \<open>The two's complement reading of a signed value, and division that fails by zero only.\<close>

definition u128_ok :: "fc_lib \<Rightarrow> bool" where
  "u128_ok L \<longleftrightarrow> (\<forall>x. u128_of_int L x = word_of_int x) \<and>
     (\<forall>a b. u128_add L a b = a + b \<and> u128_sub L a b = a - b \<and> u128_mul L a b = a * b \<and>
        (b \<noteq> 0 \<longrightarrow> u128_div L a b = Some (a div b)) \<and> (u128_less L a b \<longleftrightarrow> a < b))"

text \<open>Decimal notation.\<close>

definition digit :: "nat \<Rightarrow> char" where
  "digit n = char_of (48 + n)"

fun digits :: "nat \<Rightarrow> string" where
  "digits n = (if n < 10 then [digit n] else digits (n div 10) @ [digit (n mod 10)])"

declare digits.simps [simp del]

definition decimal :: "int \<Rightarrow> string" where
  "decimal x = (if x < 0 then CHR ''-'' # digits (nat (- x)) else digits (nat x))"

definition blank :: "char \<Rightarrow> bool" where
  "blank c = (c \<in> {CHR '' '', CHR 0x09, CHR 0x0A, CHR 0x0D})"

definition text_ok :: "fc_lib \<Rightarrow> bool" where
  "text_ok L \<longleftrightarrow> (\<forall>x. int64 x \<longrightarrow> to_string L x = decimal x \<and> to_int64 L (decimal x) = Some x) \<and>
     (\<forall>s. s \<noteq> [] \<longrightarrow> \<not> blank (hd s) \<longrightarrow> \<not> blank (last s) \<longrightarrow> trim L s = s)"

lemma digit_simps [simp]:
  "digit 0 = CHR ''0''" "digit (Suc 0) = CHR ''1''" "digit 2 = CHR ''2''" "digit 3 = CHR ''3''"
  "digit 4 = CHR ''4''" "digit 5 = CHR ''5''" "digit 6 = CHR ''6''" "digit 7 = CHR ''7''"
  "digit 8 = CHR ''8''" "digit 9 = CHR ''9''"
  by code_simp+

text \<open>Digits are digits.\<close>

lemma digits_ne [simp]: "digits n \<noteq> []"
  by (subst digits.simps) simp

definition is_digit :: "char \<Rightarrow> bool" where
  "is_digit c \<longleftrightarrow> 48 \<le> (of_char c :: nat) \<and> (of_char c :: nat) \<le> 57"

lemma is_digit_digit [simp]: "n < 10 \<Longrightarrow> is_digit (digit n)"
  by (simp add: is_digit_def digit_def)

lemma digits_digits: "c \<in> set (digits n) \<Longrightarrow> is_digit c"
proof (induction n rule: digits.induct)
  case (1 n)
  then show ?case
    using digits.simps [of n] by (auto split: if_splits)
qed

lemma is_digit_not_blank: "is_digit c \<Longrightarrow> \<not> blank c"
  by (auto simp: is_digit_def blank_def)

text \<open>A number between $10^d$ and $2 \cdot 10^d$ is written with a leading 1 and \<open>d\<close> more digits.\<close>

lemma digits_one:
  "10 ^ d \<le> n \<Longrightarrow> n < 2 * 10 ^ d \<Longrightarrow> \<exists>ds. digits n = CHR ''1'' # ds \<and> length ds = d"
proof (induction d arbitrary: n)
  case 0
  then have "n = 1"
    by simp
  moreover have "digit 1 = CHR ''1''"
    unfolding digit_def by code_simp
  ultimately show ?case
    by (subst digits.simps) simp
next
  case (Suc d)
  have "(1::nat) \<le> 10 ^ d"
    by simp
  then have "10 \<le> n"
    using Suc.prems(1) unfolding power_Suc by linarith
  moreover have "10 ^ d \<le> n div 10" "n div 10 < 2 * 10 ^ d"
    using Suc.prems by (simp_all add: less_eq_div_iff_mult_less_eq div_less_iff_less_mult ac_simps)
  then obtain ds where "digits (n div 10) = CHR ''1'' # ds" "length ds = d"
    using Suc.IH by blast
  ultimately show ?case
    by (subst digits.simps) simp
qed

section \<open>An instance\<close>

fun undigits :: "string \<Rightarrow> nat" where
  "undigits s = foldl (\<lambda>n c. 10 * n + (of_char c - 48)) 0 s"

definition parse_int :: "string \<Rightarrow> int option" where
  "parse_int s =
     (if s \<noteq> [] \<and> hd s = CHR ''-'' then
        (if tl s \<noteq> [] \<and> list_all is_digit (tl s) then checked (- int (undigits (tl s))) else None)
      else if s \<noteq> [] \<and> list_all is_digit s then checked (int (undigits s)) else None)"

definition fc_ref :: fc_lib where
  "fc_ref = \<lparr>safe_add = \<lambda>x y. checked (x + y), safe_sub = \<lambda>x y. checked (x - y),
     safe_mul = \<lambda>x y. checked (x * y), safe_div = \<lambda>x y. if y = 0 then None else checked (x sdiv y),
     safe_neg = \<lambda>x. checked (- x), u128_of_int = word_of_int,
     u128_add = (+), u128_sub = (-), u128_mul = (*),
     u128_div = \<lambda>a b. if b = 0 then None else Some (a div b), u128_less = (<),
     to_string = decimal, to_int64 = parse_int,
     trim = \<lambda>s. rev (dropWhile blank (rev (dropWhile blank s))),
     is_utf8 = list_all (\<lambda>c. (of_char c :: nat) < 128)\<rparr>"

lemma undigits_digits: "undigits (digits n) = n"
proof (induction n rule: digits.induct)
  case (1 n)
  show ?case
  proof (cases "n < 10")
    case True
    then show ?thesis
      by (subst digits.simps) (simp add: digit_def)
  next
    case False
    have "n mod 10 < 10"
      by simp
    then have d: "of_char (digit (n mod 10)) - 48 = n mod 10"
      by (simp only: digit_def of_char_of) simp
    with False 1 show ?thesis
      by (subst digits.simps) simp
  qed
qed

lemma parse_decimal: "int64 x \<Longrightarrow> parse_int (decimal x) = Some x"
proof -
  assume x: "int64 x"
  have all: "list_all is_digit (digits n)" for n
    using digits_digits by (auto simp: list_all_iff)
  have hd: "hd (digits n) \<noteq> CHR ''-''" for n
  proof
    assume "hd (digits n) = CHR ''-''"
    then have "is_digit CHR ''-''"
      by (metis digits_digits digits_ne hd_in_set)
    then show False
      by (simp add: is_digit_def)
  qed
  show ?thesis
    using x by (simp add: parse_int_def decimal_def all hd undigits_digits del: undigits.simps)
qed

lemma dropWhile_hd: "s \<noteq> [] \<Longrightarrow> \<not> P (hd s) \<Longrightarrow> dropWhile P s = s"
  by (cases s) auto

lemma fc_ref_ok [simp]: "safe_ok fc_ref" "u128_ok fc_ref" "text_ok fc_ref"
proof -
  show "safe_ok fc_ref"
    by (simp add: safe_ok_def fc_ref_def)
  show "u128_ok fc_ref"
    by (simp add: u128_ok_def fc_ref_def)
  show "text_ok fc_ref"
    by (simp add: text_ok_def fc_ref_def parse_decimal dropWhile_hd hd_rev)
qed

end
