(* ===== verification/Assets.thy ===== *)
theory Assets
  imports Fc "HOL-Library.Product_Lexorder"
begin

text \<open>
  Amounts of an asset and prices: \<open>libraries/protocol/include/deip/protocol/asset.hpp\<close> and
  \<open>libraries/protocol/asset.cpp\<close>. A symbol is a 64-bit word read as 8 bytes (byte 0 holds
  the decimals, bytes 1..6 the name, byte 7 is 0); the code reads the bytes of the word in
  memory, little endian. \<open>fc::safe\<close> amounts are kept as the integers they hold.
\<close>

section \<open>Constants\<close>

definition DEIP_100_PERCENT :: int where "DEIP_100_PERCENT = 10000"
definition DEIP_1_PERCENT :: int where "DEIP_1_PERCENT = DEIP_100_PERCENT div 100"
definition DEIP_MAX_SHARE_SUPPLY :: int where "DEIP_MAX_SHARE_SUPPLY = 1000000000000000"

definition DEIP_SYMBOL :: "64 word" where
  "DEIP_SYMBOL = 3 + 0x44 * 2 ^ 8 + 0x45 * 2 ^ 16 + 0x49 * 2 ^ 24 + 0x50 * 2 ^ 32"

section \<open>Symbols\<close>

record asset =
  amount :: int
  symbol :: "64 word"

definition sym_bytes :: "64 word \<Rightarrow> nat list" where
  "sym_bytes s = map (\<lambda>k. unat s div 256 ^ k mod 256) [0..<8]"

fun bytes_nat :: "nat list \<Rightarrow> nat" where
  "bytes_nat [] = 0"
| "bytes_nat (b # bs) = b + 256 * bytes_nat bs"

definition of_bytes :: "nat list \<Rightarrow> 64 word" where
  "of_bytes bs = word_of_nat (bytes_nat bs)"

definition decimals :: "64 word \<Rightarrow> nat result" where
  "decimals s = (let d = sym_bytes s ! 0 in require (d < 15) Bad_precision (Inr d))"

definition set_decimals :: "nat \<Rightarrow> 64 word \<Rightarrow> 64 word result" where
  "set_decimals d s = require (d < 15) Bad_precision (Inr (of_bytes ((sym_bytes s)[0 := d])))"

text \<open>The C string that starts at byte 1.\<close>

definition symbol_name :: "64 word \<Rightarrow> string result" where
  "symbol_name s =
     require (sym_bytes s ! 7 = 0) Bad_name
       (Inr (map char_of (takeWhile (\<lambda>b. b \<noteq> 0) (tl (sym_bytes s)))))"

definition precision_table :: "int list" where
  "precision_table = [1, 10, 100, 1000, 10000, 100000, 1000000, 10000000, 100000000,
     1000000000, 10000000000, 100000000000, 1000000000000, 10000000000000, 100000000000000]"

definition precision :: "64 word \<Rightarrow> int result" where
  "precision s = bindE (decimals s) (\<lambda>d. Inr (precision_table ! d))"

section \<open>Text form\<close>

definition asset_to_string :: "fc_lib \<Rightarrow> asset \<Rightarrow> string result" where
  "asset_to_string L a =
     bindE (precision (symbol a)) (\<lambda>prec.
       let whole = to_string L (amount a sdiv prec);
           text = (if prec > 1
                   then whole @ ''.'' @ tl (to_string L (prec + amount a smod prec))
                   else whole)
       in bindE (symbol_name (symbol a)) (\<lambda>name. Inr (text @ '' '' @ name)))"

definition find_char :: "char \<Rightarrow> string \<Rightarrow> nat option" where
  "find_char c s = (if c \<in> set s then Some (length (takeWhile (\<lambda>x. x \<noteq> c) s)) else None)"

definition memcpy_name :: "string \<Rightarrow> 64 word \<Rightarrow> 64 word" where
  "memcpy_name name s =
     of_bytes (take 1 (sym_bytes s) @ map of_char name @ drop (1 + length name) (sym_bytes s))"

definition asset_from_string :: "fc_lib \<Rightarrow> string \<Rightarrow> asset result" where
  "asset_from_string L from =
     (let s = trim L from
      in case find_char CHR '' '' s of
           None \<Rightarrow> Inl (Assert Bad_text)
         | Some space_pos \<Rightarrow>
             bindE
               (case find_char CHR ''.'' s of
                  Some dot_pos \<Rightarrow>
                    require (space_pos > dot_pos) Bad_text
                     (let intpart = take dot_pos s;
                          fractpart = CHR ''1'' # take (space_pos - dot_pos - 1) (drop (dot_pos + 1) s)
                      in bindE (set_decimals ((length fractpart - 1) mod 256) 0) (\<lambda>sym.
                         bindE (the_or Parse_error (to_int64 L intpart)) (\<lambda>whole.
                         bindE (precision sym) (\<lambda>prec.
                         bindE (raw (whole * prec)) (\<lambda>v1.
                         bindE (the_or Parse_error (to_int64 L fractpart)) (\<lambda>fract.
                         bindE (raw (v1 + fract)) (\<lambda>v2.
                         bindE (raw (v2 - prec)) (\<lambda>v3.
                           Inr \<lparr>amount = v3, symbol = sym\<rparr>))))))))
                | None \<Rightarrow>
                    bindE (the_or Parse_error (to_int64 L (take space_pos s))) (\<lambda>v.
                    bindE (set_decimals 0 0) (\<lambda>sym. Inr \<lparr>amount = v, symbol = sym\<rparr>)))
               (\<lambda>result.
                  let name = drop (space_pos + 1) s
                  in if length name > 0
                     then require (length name \<le> 6) Bad_name
                            (Inr (result\<lparr>symbol := memcpy_name name (symbol result)\<rparr>))
                     else Inr result))"

section \<open>Arithmetic and comparison\<close>

definition asset_plus :: "fc_lib \<Rightarrow> asset \<Rightarrow> asset \<Rightarrow> asset result" where
  "asset_plus L a b = require (symbol a = symbol b) Wrong_symbol
     (bindE (add L (amount a) (amount b)) (\<lambda>v. Inr \<lparr>amount = v, symbol = symbol a\<rparr>))"

definition asset_minus :: "fc_lib \<Rightarrow> asset \<Rightarrow> asset \<Rightarrow> asset result" where
  "asset_minus L a b = require (symbol a = symbol b) Wrong_symbol
     (bindE (sub L (amount a) (amount b)) (\<lambda>v. Inr \<lparr>amount = v, symbol = symbol a\<rparr>))"

definition asset_times :: "fc_lib \<Rightarrow> asset \<Rightarrow> asset \<Rightarrow> asset result" where
  "asset_times L a b = require (symbol a = symbol b) Wrong_symbol
     (bindE (mul L (amount a) (amount b)) (\<lambda>v. Inr \<lparr>amount = v, symbol = symbol a\<rparr>))"

definition asset_uminus :: "fc_lib \<Rightarrow> asset \<Rightarrow> asset result" where
  "asset_uminus L a =
     bindE (the_or Overflow (safe_neg L (amount a))) (\<lambda>v. Inr \<lparr>amount = v, symbol = symbol a\<rparr>)"

definition asset_less :: "asset \<Rightarrow> asset \<Rightarrow> bool result" where
  "asset_less a b = require (symbol a = symbol b) Wrong_symbol (Inr (amount a < amount b))"

definition asset_le :: "asset \<Rightarrow> asset \<Rightarrow> bool result" where
  "asset_le a b = (if a = b then Inr True else asset_less a b)"

definition asset_gt :: "asset \<Rightarrow> asset \<Rightarrow> bool result" where
  "asset_gt a b = bindE (asset_le a b) (\<lambda>c. Inr (\<not> c))"

definition asset_ge :: "asset \<Rightarrow> asset \<Rightarrow> bool result" where
  "asset_ge a b = bindE (asset_less a b) (\<lambda>c. Inr (\<not> c))"

section \<open>Prices\<close>

record price =
  price_base :: asset
  price_quote :: asset

definition price_cross :: "fc_lib \<Rightarrow> price \<Rightarrow> price \<Rightarrow> 128 word" where
  "price_cross L a b =
     u128_mul L (u128_of_int L (amount (price_quote b))) (u128_of_int L (amount (price_base a)))"

definition price_eq :: "fc_lib \<Rightarrow> price \<Rightarrow> price \<Rightarrow> bool" where
  "price_eq L a b =
     (if symbol (price_base a) \<noteq> symbol (price_base b) \<or>
         symbol (price_quote a) \<noteq> symbol (price_quote b) then False
      else price_cross L a b = price_cross L b a)"

definition price_less :: "fc_lib \<Rightarrow> price \<Rightarrow> price \<Rightarrow> bool" where
  "price_less L a b =
     (if symbol (price_base a) < symbol (price_base b) then True
      else if symbol (price_base a) > symbol (price_base b) then False
      else if symbol (price_quote a) < symbol (price_quote b) then True
      else if symbol (price_quote a) > symbol (price_quote b) then False
      else u128_less L (price_cross L a b) (price_cross L b a))"

definition price_le :: "fc_lib \<Rightarrow> price \<Rightarrow> price \<Rightarrow> bool" where
  "price_le L a b = (price_eq L a b \<or> price_less L a b)"

definition price_validate :: "price \<Rightarrow> unit result" where
  "price_validate p =
     require (amount (price_base p) > 0) Bad_amount
     (require (amount (price_quote p) > 0) Bad_amount
     (bindE (symbol_name (symbol (price_base p))) (\<lambda>b.
      bindE (symbol_name (symbol (price_quote p))) (\<lambda>q.
        require (b \<noteq> q) Wrong_symbol (Inr ())))))"

definition mk_price :: "asset \<Rightarrow> asset \<Rightarrow> price result" where
  "mk_price base quote =
     bindE (symbol_name (symbol base)) (\<lambda>b.
     bindE (symbol_name (symbol quote)) (\<lambda>q.
       require (b \<noteq> q) Wrong_symbol (Inr \<lparr>price_base = base, price_quote = quote\<rparr>)))"

definition price_invert :: "price \<Rightarrow> price" where
  "price_invert p = \<lparr>price_base = price_quote p, price_quote = price_base p\<rparr>"

definition price_max :: "64 word \<Rightarrow> 64 word \<Rightarrow> price result" where
  "price_max base quote =
     mk_price \<lparr>amount = DEIP_MAX_SHARE_SUPPLY, symbol = base\<rparr> \<lparr>amount = 1, symbol = quote\<rparr>"

definition price_min :: "64 word \<Rightarrow> 64 word \<Rightarrow> price result" where
  "price_min base quote =
     mk_price \<lparr>amount = 1, symbol = base\<rparr> \<lparr>amount = DEIP_MAX_SHARE_SUPPLY, symbol = quote\<rparr>"

definition price_is_null :: "fc_lib \<Rightarrow> price \<Rightarrow> bool" where
  "price_is_null L p =
     price_eq L p \<lparr>price_base = \<lparr>amount = 0, symbol = DEIP_SYMBOL\<rparr>,
                   price_quote = \<lparr>amount = 0, symbol = DEIP_SYMBOL\<rparr>\<rparr>"

text \<open>
  The amount the code returns is the low word of the quotient read as \<open>int64_t\<close>.
\<close>

definition scale :: "fc_lib \<Rightarrow> int \<Rightarrow> asset \<Rightarrow> int \<Rightarrow> asset result" where
  "scale L v to by =
     require (by > 0) Bad_amount
      (bindE (the_or Division_by_zero
               (u128_div L (u128_mul L (u128_of_int L v) (u128_of_int L (amount to))) (u128_of_int L by)))
        (\<lambda>result. require (drop_bit 64 result = 0) Bad_amount
          (Inr \<lparr>amount = sint (ucast result :: 64 word), symbol = symbol to\<rparr>)))"

definition asset_times_price :: "fc_lib \<Rightarrow> asset \<Rightarrow> price \<Rightarrow> asset result" where
  "asset_times_price L a b =
     bindE (symbol_name (symbol a)) (\<lambda>n.
     bindE (symbol_name (symbol (price_base b))) (\<lambda>nb.
       if n = nb then scale L (amount a) (price_quote b) (amount (price_base b))
       else bindE (symbol_name (symbol (price_quote b))) (\<lambda>nq.
         if n = nq then scale L (amount a) (price_base b) (amount (price_quote b))
         else Inl (Assert Wrong_symbol))))"

section \<open>Facts about symbols\<close>

lemma length_sym_bytes [simp]: "length (sym_bytes s) = 8"
  by (simp add: sym_bytes_def)

lemma sym_bytes_lt: "b \<in> set (sym_bytes s) \<Longrightarrow> b < 256"
  by (auto simp: sym_bytes_def)

lemma bytes_nat_lt: "\<forall>b\<in>set bs. b < 256 \<Longrightarrow> bytes_nat bs < 256 ^ length bs"
proof (induction bs)
  case (Cons b bs)
  then have "b < 256" "bytes_nat bs + 1 \<le> 256 ^ length bs"
    by auto
  then show ?case
    unfolding bytes_nat.simps length_Cons power_Suc by linarith
qed simp

lemma bytes_nat_nth:
  "\<forall>b\<in>set bs. b < 256 \<Longrightarrow> k < length bs \<Longrightarrow> bytes_nat bs div 256 ^ k mod 256 = bs ! k"
proof (induction bs arbitrary: k)
  case (Cons b bs)
  show ?case
  proof (cases k)
    case (Suc j)
    have "bytes_nat (b # bs) div 256 ^ Suc j = (b + 256 * bytes_nat bs) div 256 div 256 ^ j"
      by (simp add: div_mult2_eq)
    also have "(b + 256 * bytes_nat bs) div 256 = bytes_nat bs"
      using Cons.prems(1) by simp
    finally show ?thesis
      using Cons Suc by simp
  qed (use Cons.prems in simp)
qed simp

lemma bytes_nat_digits: "bytes_nat (map (\<lambda>k. n div 256 ^ k mod 256) [0..<m]) = n mod 256 ^ m"
proof (induction m arbitrary: n)
  case (Suc m)
  have "bytes_nat (map (\<lambda>k. n div 256 ^ k mod 256) [0..<Suc m]) =
      n mod 256 + 256 * bytes_nat (map (\<lambda>k. n div 256 ^ Suc k mod 256) [0..<m])"
    by (simp add: upt_conv_Cons map_Suc_upt [symmetric] comp_def del: upt_Suc)
  also have "bytes_nat (map (\<lambda>k. n div 256 ^ Suc k mod 256) [0..<m]) = n div 256 mod 256 ^ m"
    using Suc.IH [of "n div 256"] by (simp add: div_mult2_eq)
  finally show ?case
    by (simp add: mod_mult2_eq)
qed simp

lemma of_sym_bytes: "of_bytes (sym_bytes s) = s"
proof -
  have "unat s < 256 ^ 8"
    using unsigned_less [of s, where 'a = nat] by simp
  then show ?thesis
    by (simp add: of_bytes_def sym_bytes_def bytes_nat_digits del: upt_Suc)
qed

lemma sym_of_bytes:
  assumes "length bs = 8" "\<forall>b\<in>set bs. b < 256"
  shows "sym_bytes (of_bytes bs) = bs"
proof -
  have "bytes_nat bs < 2 ^ 64"
    using bytes_nat_lt [OF assms(2)] assms(1) by simp
  then have "unat (of_bytes bs) = bytes_nat bs"
    by (simp add: of_bytes_def unat_of_nat take_bit_nat_eq_self)
  then show ?thesis
    using bytes_nat_nth [OF assms(2)] assms(1)
    by (auto simp: sym_bytes_def intro!: nth_equalityI simp del: upt_Suc)
qed

text \<open>
  A symbol the parser can read back: fewer than 15 decimals, then a name of one to six
  characters without blanks or dots, then zeros.
\<close>

definition name_char :: "nat \<Rightarrow> bool" where
  "name_char b \<longleftrightarrow> b \<noteq> 0 \<and> b \<noteq> 46 \<and> \<not> blank (char_of b)"

definition symbol_ok :: "64 word \<Rightarrow> bool" where
  "symbol_ok s \<longleftrightarrow>
     (let bs = sym_bytes s; name = takeWhile (\<lambda>b. b \<noteq> 0) (tl bs)
      in hd bs < 15 \<and> name \<noteq> [] \<and> length name \<le> 6 \<and> list_all name_char name \<and>
         bs = hd bs # name @ replicate (7 - length name) 0)"

lemma precision_table_power: "d < 15 \<Longrightarrow> precision_table ! d = 10 ^ d"
  by (auto simp: precision_table_def less_Suc_eq numeral_eq_Suc)

lemma find_char_append [simp]: "c \<notin> set xs \<Longrightarrow> find_char c (xs @ c # ys) = Some (length xs)"
  by (auto simp: find_char_def takeWhile_append)

lemma find_char_none [simp]: "c \<notin> set xs \<Longrightarrow> find_char c xs = None"
  by (simp add: find_char_def)

lemma sym_bytes_0: "sym_bytes 0 = replicate 8 0"
  by (simp add: sym_bytes_def map_replicate_const)

lemma set_decimals_0: "d < 15 \<Longrightarrow> set_decimals d 0 = Inr (of_bytes (d # replicate 7 0))"
  by (simp add: set_decimals_def sym_bytes_0 numeral_eq_Suc)

lemma symbol_okE:
  assumes "symbol_ok s"
  obtains d name where "d < 15" "precision s = Inr (10 ^ d)" "symbol_name s = Inr name"
    "name \<noteq> []" "length name \<le> 6" "\<forall>c\<in>set name. c \<noteq> CHR ''.'' \<and> \<not> blank c"
    "memcpy_name name (of_bytes (d # replicate 7 0)) = s"
proof -
  let ?name = "takeWhile (\<lambda>b. b \<noteq> 0) (tl (sym_bytes s))"
  let ?d = "hd (sym_bytes s)"
  have ok: "?d < 15" "?name \<noteq> []" "length ?name \<le> 6" "list_all name_char ?name"
    "sym_bytes s = ?d # ?name @ replicate (7 - length ?name) 0"
    using assms by (auto simp: symbol_ok_def Let_def)
  have nth: "sym_bytes s ! 0 = ?d" "sym_bytes s ! 7 = 0"
    by (subst ok(5), use ok(3) in \<open>simp add: nth_append\<close>)+
  have lt: "\<forall>b\<in>set ?name. b < 256"
    using sym_bytes_lt [of _ s] by (metis list.set_sel(2) length_sym_bytes list.size(3) set_takeWhileD zero_neq_numeral)
  have "of_char (char_of b :: char) = b" if "b \<in> set ?name" for b
    using lt that by simp
  then have chars: "map of_char (map char_of ?name :: string) = ?name"
    by (simp add: map_idI)
  have sb: "sym_bytes (of_bytes (?d # replicate 7 0)) = ?d # replicate 7 0"
    using ok(1) by (intro sym_of_bytes) auto
  have "memcpy_name (map char_of ?name) (of_bytes (?d # replicate 7 0)) = of_bytes (sym_bytes s)"
    unfolding memcpy_name_def sb chars by (subst (3) ok(5)) simp
  moreover have "\<forall>c\<in>set (map char_of ?name). c \<noteq> CHR ''.'' \<and> \<not> blank c"
  proof
    fix c :: char
    assume "c \<in> set (map char_of ?name)"
    then obtain b where b: "b \<in> set ?name" "c = char_of b"
      by auto
    then have nc: "name_char b" and cb: "of_char c = b"
      using ok(4) lt by (auto simp: list_all_iff)
    have "c \<noteq> CHR ''.''"
    proof
      assume "c = CHR ''.''"
      then have "b = of_char CHR ''.''"
        using cb by simp
      then show False
        using nc by (simp add: name_char_def)
    qed
    then show "c \<noteq> CHR ''.'' \<and> \<not> blank c"
      using b(2) nc by (simp add: name_char_def)
  qed
  ultimately show ?thesis
    using that [of ?d "map char_of ?name"] ok(1-3)
    by (simp add: precision_def decimals_def nth precision_table_power symbol_name_def of_sym_bytes)
qed

lemma decimal_chars: "0 \<le> x \<Longrightarrow> c \<in> set (decimal x) \<Longrightarrow> is_digit c"
  by (auto simp: decimal_def dest: digits_digits)

lemma decimal_ne [simp]: "decimal x \<noteq> []"
  by (simp add: decimal_def)

lemma not_digit [simp]: "\<not> is_digit CHR '' ''" "\<not> is_digit CHR ''.''"
  by (simp_all add: is_digit_def)

lemma decimal_one:
  assumes "0 \<le> f" "f < 10 ^ d"
  shows "\<exists>ds. decimal (10 ^ d + f) = CHR ''1'' # ds \<and> length ds = d \<and> (\<forall>c\<in>set ds. is_digit c)"
proof -
  have "nat (10 ^ d + f) = 10 ^ d + nat f" "nat f < 10 ^ d"
    using assms by (simp_all add: nat_add_distrib nat_power_eq nat_less_iff)
  then obtain ds where ds: "digits (nat (10 ^ d + f)) = CHR ''1'' # ds" "length ds = d"
    using digits_one [of d "10 ^ d + nat f"] by auto
  moreover have "decimal (10 ^ d + f) = digits (nat (10 ^ d + f))"
    using assms by (simp add: decimal_def add_nonneg_nonneg not_less)
  moreover have "\<forall>c\<in>set ds. is_digit c"
    using digits_digits ds(1) by (metis list.set_intros(2))
  ultimately show ?thesis
    by auto
qed

lemma trim_text:
  assumes "text_ok L" "0 \<le> x" "name \<noteq> []" "\<forall>c\<in>set name. \<not> blank c"
  shows "trim L (decimal x @ mid @ name) = decimal x @ mid @ name"
proof -
  have "is_digit (hd (decimal x))"
    using decimal_chars [OF assms(2)] by simp
  then have "\<not> blank (hd (decimal x @ mid @ name))" "\<not> blank (last (decimal x @ mid @ name))"
    using assms(3,4) is_digit_not_blank by auto
  then show ?thesis
    using assms(1) by (simp add: text_ok_def)
qed


lemma sym_bytes_DEIP [simp]: "sym_bytes DEIP_SYMBOL = [3, 68, 69, 73, 80, 0, 0, 0]"
proof -
  have eq: "DEIP_SYMBOL = of_bytes [3, 68, 69, 73, 80, 0, 0, 0]"
    by (simp add: DEIP_SYMBOL_def of_bytes_def)
  show ?thesis
    unfolding eq by (rule sym_of_bytes) simp_all
qed

lemma DEIP_name: "map char_of [68, 69, 73, 80 :: nat] = ''DEIP''"
  by code_simp

lemma DEIP_SYMBOL_ok [simp]: "symbol_ok DEIP_SYMBOL"
proof -
  have "list_all name_char [68, 69, 73, 80]"
    by code_simp
  then show ?thesis
    by (simp add: symbol_ok_def numeral_eq_Suc)
qed

lemma symbol_name_DEIP [simp]: "symbol_name DEIP_SYMBOL = Inr ''DEIP''"
  using DEIP_name by (simp add: symbol_name_def)

lemma precision_DEIP [simp]: "precision DEIP_SYMBOL = Inr 1000"
  by (simp add: precision_def decimals_def precision_table_def)


text \<open>
  Negative amounts are not printed faithfully: the fraction is added to the power of ten
  whose leading digit is trimmed, so -1.005 DEIP is printed as "-1.95 DEIP", with one
  decimal less, and a fraction alone loses its sign.
\<close>

theorem negative_asset_text:
  assumes "text_ok L"
  shows "asset_to_string L \<lparr>amount = -1005, symbol = DEIP_SYMBOL\<rparr> = Inr ''-1.95 DEIP'' \<and>
    asset_to_string L \<lparr>amount = -5, symbol = DEIP_SYMBOL\<rparr> = Inr ''0.95 DEIP''"
proof -
  have "to_string L (-1) = decimal (-1)" "to_string L 995 = decimal 995" "to_string L 0 = decimal 0"
    using assms by (auto simp: text_ok_def int64_iff)
  moreover have "decimal (-1) = ''-1''" "decimal 995 = ''995''" "decimal 0 = ''0''"
    by (simp_all add: decimal_def digits.simps)
  moreover have "-1005 sdiv 1000 = (-1::int)" "-1005 smod 1000 = (-5::int)"
    "-5 sdiv 1000 = (0::int)" "-5 smod 1000 = (-5::int)"
    by (simp_all add: signed_divide_int_def signed_modulo_int_def)
  ultimately show ?thesis
    by (simp_all add: asset_to_string_def Let_def)
qed

lemma negative_asset_text_witness:
  "asset_to_string fc_ref \<lparr>amount = -1005, symbol = DEIP_SYMBOL\<rparr> = Inr ''-1.95 DEIP''"
  by (rule negative_asset_text [THEN conjunct1]) simp

section \<open>Prices\<close>

lemma u128_of_pos: "u128_ok L \<Longrightarrow> 0 \<le> x \<Longrightarrow> int64 x \<Longrightarrow> unat (u128_of_int L x) = nat x"
proof -
  assume L: "u128_ok L" and x: "0 \<le> x" "int64 x"
  then have "x < 2 ^ 128"
    by (simp add: int64_iff)
  then have "uint (word_of_int x :: 128 word) = x"
    using x(1) by (simp add: uint_word_of_int_eq take_bit_int_eq_self)
  then show ?thesis
    using L by (metis u128_ok_def unat_eq_nat_uint)
qed

definition price_ok :: "price \<Rightarrow> bool" where
  "price_ok p \<longleftrightarrow> 0 < amount (price_base p) \<and> int64 (amount (price_base p)) \<and>
     0 < amount (price_quote p) \<and> int64 (amount (price_quote p))"

lemma u128_product:
  assumes "u128_ok L" "0 \<le> x" "int64 x" "0 \<le> y" "int64 y"
  shows "unat (u128_mul L (u128_of_int L x) (u128_of_int L y)) = nat (x * y)"
proof -
  have "nat x < 2 ^ 63" "nat y < 2 ^ 63"
    using assms(2-5) by (auto simp: int64_def nat_less_iff)
  then have "nat x * nat y < 2 ^ 63 * 2 ^ 63"
    by (rule mult_strict_mono) auto
  then have "nat x * nat y < 2 ^ 128"
    by simp
  then have "unat (u128_of_int L x * u128_of_int L y) = nat x * nat y"
    using u128_of_pos [OF assms(1-3)] u128_of_pos [OF assms(1,4,5)] unat_mult_lem [of "u128_of_int L x" "u128_of_int L y"]
    by simp
  then show ?thesis
    using assms(1,2) by (simp add: u128_ok_def nat_mult_distrib)
qed

lemma price_cross:
  "u128_ok L \<Longrightarrow> price_ok p \<Longrightarrow> price_ok q \<Longrightarrow>
   unat (price_cross L p q) = nat (amount (price_quote q) * amount (price_base p))"
  by (simp add: price_cross_def price_ok_def u128_product)

text \<open>The key a price compares by: the symbols, then the rate.\<close>

definition price_key :: "price \<Rightarrow> 64 word \<times> 64 word \<times> rat" where
  "price_key p = (symbol (price_base p), symbol (price_quote p),
     of_int (amount (price_base p)) / of_int (amount (price_quote p)))"

lemma rate_less:
  "0 < b \<Longrightarrow> 0 < d \<Longrightarrow> of_int a / of_int b < (of_int c / of_int d :: rat) \<longleftrightarrow> a * d < c * b"
  by (simp add: divide_less_eq less_divide_eq flip: of_int_mult)

lemma rate_eq:
  "0 < b \<Longrightarrow> 0 < d \<Longrightarrow> of_int a / of_int b = (of_int c / of_int d :: rat) \<longleftrightarrow> a * d = c * b"
  by (simp add: divide_eq_eq eq_divide_eq flip: of_int_mult)

text \<open>
  C7. On prices with positive amounts the 128-bit cross multiplications compare exactly:
  \<open>==\<close> and \<open><\<close> are equality and the lexicographic order of base symbol, quote symbol and
  rational rate. No product overflows.
\<close>

theorem price_comparison_exact:
  assumes L: "u128_ok L" and pq: "price_ok p" "price_ok q"
  shows "(price_eq L p q \<longleftrightarrow> price_key p = price_key q) \<and>
    (price_less L p q \<longleftrightarrow> price_key p < price_key q)"
proof -
  let ?x = "amount (price_quote q) * amount (price_base p)"
  let ?y = "amount (price_quote p) * amount (price_base q)"
  have pos: "0 < ?x" "0 < ?y"
    using pq by (simp_all add: price_ok_def)
  have "price_cross L p q = price_cross L q p \<longleftrightarrow> ?x = ?y"
    using price_cross [OF L pq] price_cross [OF L pq(2,1)] pos by (metis eq_nat_nat_iff less_imp_le unsigned_word_eqI)
  moreover have "u128_less L (price_cross L p q) (price_cross L q p) \<longleftrightarrow> ?x < ?y"
    using L price_cross [OF L pq] price_cross [OF L pq(2,1)] pos
    by (simp add: u128_ok_def word_less_nat_alt)
  ultimately show ?thesis
    using pq by (auto simp: price_eq_def price_less_def price_key_def price_ok_def rate_less rate_eq ac_simps)
qed

definition half_price :: price where
  "half_price = \<lparr>price_base = \<lparr>amount = 1, symbol = DEIP_SYMBOL\<rparr>, price_quote = \<lparr>amount = 2, symbol = 0\<rparr>\<rparr>"

definition third_price :: price where
  "third_price = \<lparr>price_base = \<lparr>amount = 4, symbol = DEIP_SYMBOL\<rparr>, price_quote = \<lparr>amount = 12, symbol = 0\<rparr>\<rparr>"

lemma price_comparison_exact_witness:
  "price_less fc_ref third_price half_price \<longleftrightarrow> price_key third_price < price_key half_price"
  by (rule price_comparison_exact [THEN conjunct2]) (simp_all add: price_ok_def half_price_def third_price_def int64_iff)

text \<open>The low word of a quotient, read as a signed number.\<close>

lemma low_word:
  fixes w :: "128 word"
  assumes "uint w = q" "q < 2 ^ 64"
  shows "sint (ucast w :: 64 word) = (if q < 2 ^ 63 then q else q - 2 ^ 64)"
proof -
  have q0: "0 \<le> q"
    using assms(1) by (metis uint_ge_0)
  have "uint (ucast w :: 64 word) = q"
    using assms(2) q0 by (simp only: unsigned_ucast_eq assms(1)) (simp add: take_bit_int_eq_self)
  then have "sint (ucast w :: 64 word) = signed_take_bit 63 q"
    by (simp only: sint_uint) simp
  also have "\<dots> = (q + 2 ^ 63) mod 2 ^ 64 - 2 ^ 63"
    by (simp add: signed_take_bit_eq_take_bit_shift take_bit_eq_mod)
  also have "\<dots> = (if q < 2 ^ 63 then q else q - 2 ^ 64)"
  proof (cases "q < 2 ^ 63")
    case False
    have "(q + 2 ^ 63) mod 2 ^ 64 = (q + 2 ^ 63 - 2 ^ 64) mod 2 ^ 64"
      by (rule minus_mod_self2 [symmetric])
    with False assms(2) show ?thesis
      by simp
  qed (use q0 in simp)
  finally show ?thesis .
qed

lemma high_word:
  fixes w :: "128 word"
  assumes "uint w = q"
  shows "drop_bit 64 w = 0 \<longleftrightarrow> q < 2 ^ 64"
proof -
  have "drop_bit 64 w = 0 \<longleftrightarrow> uint (drop_bit 64 w) = 0"
    by (simp only: uint_0_iff)
  also have "uint (drop_bit 64 w) = q div 2 ^ 64"
    unfolding drop_bit_eq_div uint_div [of w] assms by simp
  finally show ?thesis
    using assms uint_ge_0 [of w] by (auto simp: div_eq_0_iff zdiv_eq_0_iff)
qed

lemma scale_floor:
  assumes L: "u128_ok L" and x: "0 \<le> x" "int64 x" and to: "0 \<le> amount to" "int64 (amount to)" and y: "0 < by" "int64 by"
  shows "scale L x to by =
    (let v = x * amount to div by
     in if v < 2 ^ 63 then Inr \<lparr>amount = v, symbol = symbol to\<rparr>
        else if v < 2 ^ 64 then Inr \<lparr>amount = v - 2 ^ 64, symbol = symbol to\<rparr>
        else Inl (Assert Bad_amount))"
proof -
  let ?m = "u128_mul L (u128_of_int L x) (u128_of_int L (amount to))" and ?b = "u128_of_int L by"
  define v where "v = x * amount to div by"
  have m: "unat ?m = nat (x * amount to)" "unat ?b = nat by"
    using assms by (simp_all add: u128_product [OF L] u128_of_pos [OF L])
  then have "?b \<noteq> 0"
    using y by auto
  then have d: "u128_div L ?m ?b = Some (?m div ?b)"
    using L by (simp add: u128_ok_def)
  have "uint (?m div ?b) = int (unat ?m div unat ?b)"
    by (simp add: uint_div zdiv_int)
  also have "\<dots> = v"
    unfolding m v_def using x to y by (simp add: zdiv_int)
  finally have r: "uint (?m div ?b) = v" .
  show ?thesis
    using y d high_word [OF r] low_word [OF r] by (simp add: scale_def v_def [symmetric] Let_def)
qed

text \<open>
  Converting a nonnegative amount by a price whose base has its symbol gives the floor
  of the exact product when that fits; a quotient between \<open>2^63\<close> and \<open>2^64\<close> passes the
  check of the high word and comes back negative; a larger one is refused.
\<close>

theorem asset_times_price_floor:
  assumes L: "u128_ok L" and p: "price_ok p" and a: "0 \<le> amount a" "int64 (amount a)"
    and sym: "symbol a = symbol (price_base p)" "symbol_name (symbol a) = Inr n"
  shows "asset_times_price L a p =
    (let v = amount a * amount (price_quote p) div amount (price_base p)
     in if v < 2 ^ 63 then Inr \<lparr>amount = v, symbol = symbol (price_quote p)\<rparr>
        else if v < 2 ^ 64 then Inr \<lparr>amount = v - 2 ^ 64, symbol = symbol (price_quote p)\<rparr>
        else Inl (Assert Bad_amount))"
  using scale_floor [OF L a] p sym by (simp add: asset_times_price_def price_ok_def)

lemma asset_times_price_floor_witness:
  "asset_times_price fc_ref \<lparr>amount = 1001, symbol = DEIP_SYMBOL\<rparr> half_price =
     Inr \<lparr>amount = 2002, symbol = 0\<rparr>"
proof -
  have "asset_times_price fc_ref \<lparr>amount = 1001, symbol = DEIP_SYMBOL\<rparr> half_price =
    (let v = amount \<lparr>amount = 1001, symbol = DEIP_SYMBOL\<rparr> * amount (price_quote half_price)
             div amount (price_base half_price)
     in if v < 2 ^ 63 then Inr \<lparr>amount = v, symbol = symbol (price_quote half_price)\<rparr>
        else if v < 2 ^ 64 then Inr \<lparr>amount = v - 2 ^ 64, symbol = symbol (price_quote half_price)\<rparr>
        else Inl (Assert Bad_amount))"
    by (rule asset_times_price_floor [where n = "''DEIP''"])
      (simp_all add: price_ok_def half_price_def int64_iff)
  then show ?thesis
    by (simp add: half_price_def)
qed

end
