(* ===== verification/Rewards.thy ===== *)
theory Rewards
  imports Assets
begin

text \<open>
  Percents with decimals (\<open>libraries/protocol/percent.cpp\<close> and its header) and the shares
  the chain computes from them (\<open>calculate_share\<close> of \<open>libraries/chain/util/reward.cpp\<close>).
\<close>

section \<open>Percents\<close>

definition DEIP_PERCENT_DECIMALS :: nat where "DEIP_PERCENT_DECIMALS = 2"

record percent =
  pc_amount :: int
  pc_decimals :: nat

definition mk_percent :: "int \<Rightarrow> nat \<Rightarrow> percent result" where
  "mk_percent a d = require (d < 15) Bad_precision (Inr \<lparr>pc_amount = a, pc_decimals = d\<rparr>)"

definition percent_precision :: "nat \<Rightarrow> int result" where
  "percent_precision d =
     (if d < length precision_table then Inr (precision_table ! d) else Inl Undefined_behaviour)"

definition percent_to_string :: "fc_lib \<Rightarrow> percent \<Rightarrow> string result" where
  "percent_to_string L p =
     bindE (percent_precision (pc_decimals p)) (\<lambda>prec.
       let whole = to_string L (pc_amount p sdiv prec);
           text = (if prec > 1
                   then whole @ ''.'' @ tl (to_string L (prec + pc_amount p smod prec))
                   else whole)
       in Inr (text @ '' '' @ ''%''))"

definition percent_from_string :: "fc_lib \<Rightarrow> string \<Rightarrow> percent result" where
  "percent_from_string L from =
     (let s = trim L from
      in case find_char CHR '' '' s of
           None \<Rightarrow> Inl (Assert Bad_text)
         | Some space_pos \<Rightarrow>
             require (drop (space_pos + 1) s = ''%'') Bad_text
              (case find_char CHR ''.'' s of
                 Some dot_pos \<Rightarrow>
                   require (space_pos > dot_pos) Bad_text
                    (let intpart = take dot_pos s;
                         fractpart = CHR ''1'' # take (space_pos - dot_pos - 1) (drop (dot_pos + 1) s);
                         d = (length fractpart - 1) mod 256
                     in require (d < 15) Bad_precision
                         (bindE (percent_precision d) (\<lambda>prec.
                          bindE (the_or Parse_error (to_int64 L intpart)) (\<lambda>whole.
                          bindE (raw (whole * prec)) (\<lambda>v1.
                          bindE (the_or Parse_error (to_int64 L fractpart)) (\<lambda>fract.
                          bindE (raw (v1 + fract)) (\<lambda>v2.
                          bindE (raw (v2 - prec)) (\<lambda>v3. mk_percent v3 d))))))))
               | None \<Rightarrow>
                   bindE (the_or Parse_error (to_int64 L (take space_pos s))) (\<lambda>v. mk_percent v 0)))"

definition percent_plus :: "fc_lib \<Rightarrow> percent \<Rightarrow> percent \<Rightarrow> percent result" where
  "percent_plus L a b = require (pc_decimals a = pc_decimals b) Bad_precision
     (bindE (add L (pc_amount a) (pc_amount b)) (\<lambda>v. mk_percent v (pc_decimals a)))"

definition percent_minus :: "fc_lib \<Rightarrow> percent \<Rightarrow> percent \<Rightarrow> percent result" where
  "percent_minus L a b = require (pc_decimals a = pc_decimals b) Bad_precision
     (bindE (sub L (pc_amount a) (pc_amount b)) (\<lambda>v. mk_percent v (pc_decimals a)))"

definition percent_times :: "fc_lib \<Rightarrow> percent \<Rightarrow> percent \<Rightarrow> percent result" where
  "percent_times L a b = require (pc_decimals a = pc_decimals b) Bad_precision
     (bindE (mul L (pc_amount a) (pc_amount b)) (\<lambda>v. mk_percent v (pc_decimals a)))"

definition percent_eq :: "percent \<Rightarrow> percent \<Rightarrow> bool result" where
  "percent_eq a b =
     require (pc_decimals a = pc_decimals b) Bad_precision (Inr (pc_amount a = pc_amount b))"

definition percent_less :: "percent \<Rightarrow> percent \<Rightarrow> bool result" where
  "percent_less a b =
     require (pc_decimals a = pc_decimals b) Bad_precision (Inr (pc_amount a < pc_amount b))"

definition percent_le :: "percent \<Rightarrow> percent \<Rightarrow> bool result" where
  "percent_le a b = bindE (percent_eq a b) (\<lambda>e. if e then Inr True else percent_less a b)"

definition percent_gt :: "percent \<Rightarrow> percent \<Rightarrow> bool result" where
  "percent_gt a b = bindE (percent_le a b) (\<lambda>c. Inr (\<not> c))"

definition percent_ge :: "percent \<Rightarrow> percent \<Rightarrow> bool result" where
  "percent_ge a b = bindE (percent_less a b) (\<lambda>c. Inr (\<not> c))"

section \<open>Shares\<close>

definition share_of_percent :: "fc_lib \<Rightarrow> int \<Rightarrow> int \<Rightarrow> int result" where
  "share_of_percent L a p = bindE (mul L a p) (\<lambda>v. sdivide L v DEIP_100_PERCENT)"

definition share_of_weight :: "fc_lib \<Rightarrow> int \<Rightarrow> int \<Rightarrow> int \<Rightarrow> int result" where
  "share_of_weight L a w tw =
     require (tw \<noteq> 0) Bad_amount (bindE (mul L a w) (\<lambda>v. sdivide L v tw))"

definition share_of :: "fc_lib \<Rightarrow> int \<Rightarrow> percent \<Rightarrow> int result" where
  "share_of L a p =
     bindE (percent_precision (pc_decimals p)) (\<lambda>prec.
     bindE (raw (100 * prec)) (\<lambda>full.
     bindE (mk_percent full (pc_decimals p)) (\<lambda>full_share.
       require (pc_amount full_share \<noteq> 0) Bad_amount
         (bindE (mul L a (pc_amount p)) (\<lambda>v. sdivide L v (pc_amount full_share))))))"

definition asset_share_of_percent :: "fc_lib \<Rightarrow> asset \<Rightarrow> int \<Rightarrow> asset result" where
  "asset_share_of_percent L a p =
     bindE (share_of_percent L (amount a) p) (\<lambda>v. Inr \<lparr>amount = v, symbol = symbol a\<rparr>)"

definition asset_share_of_weight :: "fc_lib \<Rightarrow> asset \<Rightarrow> int \<Rightarrow> int \<Rightarrow> asset result" where
  "asset_share_of_weight L a w tw =
     bindE (share_of_weight L (amount a) w tw) (\<lambda>v. Inr \<lparr>amount = v, symbol = symbol a\<rparr>)"

definition asset_share_of :: "fc_lib \<Rightarrow> asset \<Rightarrow> percent \<Rightarrow> asset result" where
  "asset_share_of L a p =
     bindE (share_of L (amount a) p) (\<lambda>v. Inr \<lparr>amount = v, symbol = symbol a\<rparr>)"

text \<open>
  A share is the floor of the exact quotient; it never exceeds the amount when the weight
  does not exceed the total.
\<close>

lemma share_of_weight_Inr:
  assumes L: "safe_ok L" and r: "share_of_weight L a w t = Inr v"
    and i: "int64 a" "int64 w" "int64 t" and pos: "0 \<le> a" "0 \<le> w" "0 < t"
  shows "v = a * w div t" "0 \<le> v" "w \<le> t \<Longrightarrow> v \<le> a"
proof -
  obtain m where m: "mul L a w = Inr m" "sdivide L m t = Inr v"
    using r pos by (auto simp: share_of_weight_def ok_iff)
  then have m': "m = a * w" "int64 m"
    using mul_ok [OF L i(1,2)] by auto
  then have "v = m sdiv t"
    using m(2) sdivide_ok [OF L _ i(3)] pos by auto
  then show v: "v = a * w div t"
    using m' pos by (simp add: sdiv_nonneg)
  then show "0 \<le> v"
    using pos by (simp add: pos_imp_zdiv_nonneg_iff)
  assume "w \<le> t"
  then have "a * w div t \<le> a * t div t"
    using pos by (intro zdiv_mono1 mult_left_mono) auto
  then show "v \<le> a"
    using v pos by simp
qed

lemma share_of_percent_Inr:
  assumes "safe_ok L" "share_of_percent L a p = Inr v" "int64 a" "int64 p" "0 \<le> a" "0 \<le> p"
  shows "v = a * p div DEIP_100_PERCENT" "0 \<le> v" "p \<le> DEIP_100_PERCENT \<Longrightarrow> v \<le> a"
proof -
  have "share_of_weight L a p DEIP_100_PERCENT = Inr v"
    using assms(2) by (simp add: share_of_weight_def share_of_percent_def DEIP_100_PERCENT_def)
  note w = share_of_weight_Inr [OF assms(1) this assms(3,4) _ assms(5,6)]
  show "v = a * p div DEIP_100_PERCENT" "0 \<le> v" "p \<le> DEIP_100_PERCENT \<Longrightarrow> v \<le> a"
    using w by (simp_all add: int64_iff DEIP_100_PERCENT_def)
qed



end
