(* ===== verification/Authority.thy ===== *)
theory Authority
  imports Prelude
begin

text \<open>
  Who may sign: \<open>libraries/protocol/authority.cpp\<close> (authorities, account names) and
  \<open>libraries/protocol/sign_state.cpp\<close> (the recursive check of the signatures of a
  transaction against the authorities of the accounts it needs). A public key is the number
  its bytes encode; a \<open>flat_map\<close> is the list of its pairs in key order. The accumulated
  weight is a 32-bit word, the weights are 16-bit words, as in the code. The model counts the
  recursion levels that are left (\<open>max_recursion - depth\<close>) instead of the depth.
\<close>

section \<open>Account names\<close>

definition DEIP_MIN_ACCOUNT_NAME_LENGTH :: nat where "DEIP_MIN_ACCOUNT_NAME_LENGTH = 3"
definition DEIP_MAX_ACCOUNT_NAME_LENGTH :: nat where "DEIP_MAX_ACCOUNT_NAME_LENGTH = 40"

definition islower :: "char \<Rightarrow> bool" where
  "islower c \<longleftrightarrow> 97 \<le> (of_char c :: nat) \<and> (of_char c :: nat) \<le> 122"

definition isdigit :: "char \<Rightarrow> bool" where
  "isdigit c \<longleftrightarrow> 48 \<le> (of_char c :: nat) \<and> (of_char c :: nat) \<le> 57"

definition find_first_of :: "char \<Rightarrow> string \<Rightarrow> nat \<Rightarrow> nat option" where
  "find_first_of c s b =
     (if c \<in> set (drop b s) then Some (b + length (takeWhile (\<lambda>x. x \<noteq> c) (drop b s))) else None)"

lemma find_first_of_bounds:
  "find_first_of c s b = Some e \<Longrightarrow> b \<le> e \<and> e < length s"
proof -
  assume f: "find_first_of c s b = Some e"
  then have e: "e = b + length (takeWhile (\<lambda>x. x \<noteq> c) (drop b s))" and c: "c \<in> set (drop b s)"
    by (auto simp: find_first_of_def split: if_splits)
  have "length (takeWhile (\<lambda>x. x \<noteq> c) xs) < length xs" if "c \<in> set xs" for xs
    using that by (induction xs) auto
  then have "length (takeWhile (\<lambda>x. x \<noteq> c) (drop b s)) < length (drop b s)"
    using c by blast
  then show ?thesis
    using e by simp
qed

function valid_labels :: "string \<Rightarrow> nat \<Rightarrow> bool" where
  "valid_labels name begin_pos =
     (let len = length name;
          end_pos = (case find_first_of CHR ''.'' name begin_pos of Some e \<Rightarrow> e | None \<Rightarrow> len)
      in if end_pos - begin_pos < 3 then False
         else if \<not> islower (name ! begin_pos) \<and> \<not> isdigit (name ! begin_pos) then False
         else if \<not> islower (name ! (end_pos - 1)) \<and> \<not> isdigit (name ! (end_pos - 1)) then False
         else if \<not> list_all (\<lambda>i. islower (name ! i) \<or> isdigit (name ! i) \<or> name ! i = CHR ''-'')
                   [begin_pos + 1..<end_pos - 1] then False
         else if end_pos = len then True
         else valid_labels name (end_pos + 1))"
  by pat_completeness auto
termination
  by (relation "measure (\<lambda>(name, b). length name - b)")
    (auto split: option.splits dest!: find_first_of_bounds)

declare valid_labels.simps [simp del]

definition is_valid_account_name :: "string \<Rightarrow> bool" where
  "is_valid_account_name name =
     (if length name < DEIP_MIN_ACCOUNT_NAME_LENGTH then False
      else if length name > DEIP_MAX_ACCOUNT_NAME_LENGTH then False
      else valid_labels name 0)"

section \<open>Authorities\<close>

type_synonym public_key = nat
type_synonym weight_type = "16 word"

record authority =
  weight_threshold :: "32 word"
  account_auths :: "(string \<times> weight_type) list"
  key_auths :: "(public_key \<times> weight_type) list"

definition get_keys :: "authority \<Rightarrow> public_key list" where
  "get_keys au = map fst (key_auths au)"

definition is_impossible :: "authority \<Rightarrow> bool" where
  "is_impossible au =
     (let auth_weights = foldl (\<lambda>t k. t + ucast (snd k)) (0 :: 64 word) (account_auths au);
          auth_weights = foldl (\<lambda>t k. t + ucast (snd k)) auth_weights (key_auths au)
      in auth_weights < ucast (weight_threshold au))"

definition num_auths :: "authority \<Rightarrow> 32 word" where
  "num_auths au = word_of_nat (length (account_auths au) + length (key_auths au))"

definition authority_validate :: "authority \<Rightarrow> unit result" where
  "authority_validate au =
     require (\<not> is_impossible au) Not_authorized
     (require (weight_threshold au \<ge> 1) Not_authorized
     (require (list_all (\<lambda>item. is_valid_account_name (fst item)) (account_auths au)) Bad_name
       (Inr ())))"

section \<open>Signature checking\<close>

definition DEIP_MAX_SIG_CHECK_DEPTH :: nat where "DEIP_MAX_SIG_CHECK_DEPTH = 2"

record sign_env =
  get_active :: "string \<Rightarrow> authority result"
  get_owner :: "string \<Rightarrow> authority result"
  available_keys :: "public_key list"

record sign_state =
  provided_signatures :: "(public_key \<times> bool) list"
  approved_by :: "string list"

definition mk_sign_state :: "public_key list \<Rightarrow> sign_state" where
  "mk_sign_state sigs = \<lparr>provided_signatures = foldl (\<lambda>m k. ins k False m) [] sigs, approved_by = []\<rparr>"

definition signed_by :: "sign_env \<Rightarrow> public_key \<Rightarrow> sign_state \<Rightarrow> bool \<times> sign_state" where
  "signed_by E k st =
     (case map_of (provided_signatures st) k of
        None \<Rightarrow>
          if k \<in> set (available_keys E)
          then (True, st\<lparr>provided_signatures := ins k True (provided_signatures st)\<rparr>)
          else (False, st)
      | Some _ \<Rightarrow> (True, st\<lparr>provided_signatures := upd k True (provided_signatures st)\<rparr>))"

text \<open>The first component tells an early \<open>return true\<close>.\<close>

fun check_keys ::
  "sign_env \<Rightarrow> 32 word \<Rightarrow> (public_key \<times> weight_type) list \<Rightarrow> 32 word \<Rightarrow> sign_state \<Rightarrow>
   bool \<times> 32 word \<times> sign_state" where
  "check_keys E th [] tw st = (False, tw, st)"
| "check_keys E th ((k, w) # ks) tw st =
     (case signed_by E k st of
        (True, st') \<Rightarrow>
          if tw + ucast w \<ge> th then (True, tw + ucast w, st')
          else check_keys E th ks (tw + ucast w) st'
      | (False, st') \<Rightarrow> check_keys E th ks tw st')"

function
  check_authority :: "sign_env \<Rightarrow> nat \<Rightarrow> authority \<Rightarrow> sign_state \<Rightarrow> (bool \<times> sign_state) result" and
  check_accounts :: "sign_env \<Rightarrow> nat \<Rightarrow> 32 word \<Rightarrow> (string \<times> weight_type) list \<Rightarrow> 32 word \<Rightarrow>
    sign_state \<Rightarrow> (bool \<times> sign_state) result" where
  "check_authority E left au st =
     (case check_keys E (weight_threshold au) (key_auths au) 0 st of
        (True, tw, st') \<Rightarrow> Inr (True, st')
      | (False, tw, st') \<Rightarrow> check_accounts E left (weight_threshold au) (account_auths au) tw st')"
| "check_accounts E left th [] tw st = Inr (tw \<ge> th, st)"
| "check_accounts E left th ((a, w) # as) tw st =
     (if a \<notin> set (approved_by st) then
        if left = 0 then check_accounts E left th as tw st
        else
          bindE (get_active E a) (\<lambda>au1.
          bindE (check_authority E (left - 1) au1 st) (\<lambda>(ok1, st1).
          bindE (if ok1 then Inr (True, st1)
                 else bindE (get_owner E a) (\<lambda>au2. check_authority E (left - 1) au2 st1)) (\<lambda>(ok, st2).
            if ok then
              let st3 = st2\<lparr>approved_by := List.insert a (approved_by st2)\<rparr>; tw' = tw + ucast w
              in if tw' \<ge> th then Inr (True, st3) else check_accounts E left th as tw' st3
            else check_accounts E left th as tw st2)))
      else
        (let tw' = tw + ucast w
         in if tw' \<ge> th then Inr (True, st) else check_accounts E left th as tw' st))"
  by pat_completeness auto
termination
  by (relation "measures [\<lambda>x. case x of Inl (E, n, au, st) \<Rightarrow> n | Inr (E, n, th, as, tw, st) \<Rightarrow> n,
        \<lambda>x. case x of Inl _ \<Rightarrow> Suc 0 | Inr _ \<Rightarrow> 0,
        \<lambda>x. case x of Inl _ \<Rightarrow> 0 | Inr (E, n, th, as, tw, st) \<Rightarrow> length as]") auto

declare check_authority.simps [simp del] check_accounts.simps(2) [simp del]

definition check_authority_of :: "sign_env \<Rightarrow> string \<Rightarrow> sign_state \<Rightarrow> (bool \<times> sign_state) result" where
  "check_authority_of E a st =
     (if a \<in> set (approved_by st) then Inr (True, st)
      else
        bindE (get_active E a) (\<lambda>au1.
        bindE (check_authority E DEIP_MAX_SIG_CHECK_DEPTH au1 st) (\<lambda>(ok, st1).
          if ok then Inr (True, st1)
          else bindE (get_owner E a) (\<lambda>au2. check_authority E DEIP_MAX_SIG_CHECK_DEPTH au2 st1))))"

definition remove_unused_signatures :: "sign_state \<Rightarrow> bool \<times> sign_state" where
  "remove_unused_signatures st =
     (let remove_sigs = filter (\<lambda>sig. \<not> snd sig) (provided_signatures st)
      in (remove_sigs \<noteq> [],
          st\<lparr>provided_signatures := foldl (\<lambda>m sig. del (fst sig) m) (provided_signatures st) remove_sigs\<rparr>))"

section \<open>Names against the grammar\<close>

text \<open>The labels of a name, and what a label is made of.\<close>

fun labels :: "string \<Rightarrow> string list" where
  "labels [] = [[]]"
| "labels (c # cs) =
     (if c = CHR ''.'' then [] # labels cs
      else (case labels cs of [] \<Rightarrow> [[c]] | l # ls \<Rightarrow> (c # l) # ls))"

definition label_ok :: "string \<Rightarrow> bool" where
  "label_ok l \<longleftrightarrow> 3 \<le> length l \<and> (islower (hd l) \<or> isdigit (hd l)) \<and>
     (islower (last l) \<or> isdigit (last l)) \<and>
     list_all (\<lambda>c. islower c \<or> isdigit c \<or> c = CHR ''-'') l"

lemma labels_none: "CHR ''.'' \<notin> set l \<Longrightarrow> labels l = [l]"
  by (induction l) auto

lemma labels_dot: "CHR ''.'' \<notin> set l \<Longrightarrow> labels (l @ CHR ''.'' # r) = l # labels r"
  by (induction l) auto

lemma map_nth_mid: "map ((!) (p @ m @ q)) [length p..<length p + length m] = m"
  by (rule nth_equalityI) (simp_all add: nth_append)

lemma segment_ok:
  assumes "drop b name = l @ r" "b \<le> length name" "e = b + length l" "3 \<le> length l"
  shows "(islower (name ! b) \<or> isdigit (name ! b)) \<and> (islower (name ! (e - 1)) \<or> isdigit (name ! (e - 1))) \<and>
     list_all (\<lambda>i. islower (name ! i) \<or> isdigit (name ! i) \<or> name ! i = CHR ''-'') [b + 1..<e - 1]
   \<longleftrightarrow> label_ok l"
proof -
  obtain x m z where l: "l = x # m @ [z]"
    using assms(4) by (cases l; cases "tl l" rule: rev_cases) auto
  define pre where "pre = take b name"
  have name: "name = pre @ x # m @ z # r" "length pre = b"
    using assms(1,2) append_take_drop_id [of b name] by (auto simp: pre_def l)
  have e: "e - 1 = length (pre @ x # m)"
    using assms(3) name(2) by (simp add: l)
  have "name ! (length (pre @ x # m)) = z"
    unfolding name(1) by (metis append.assoc append_Cons nth_append_length)
  then have ends: "name ! b = x" "name ! (e - 1) = z"
    unfolding e using name by (metis nth_append_length)+
  have bounds: "b + 1 = length (pre @ [x])" "e - 1 = length (pre @ [x]) + length m"
    using name(2) e by simp_all
  then have "[b + 1..<e - 1] = [length (pre @ [x])..<length (pre @ [x]) + length m]"
    by (simp only:)
  then have "map ((!) name) [b + 1..<e - 1] = m"
    using map_nth_mid [of "pre @ [x]" m "z # r"] name(1) by simp
  then have "list_all (P \<circ> (!) name) [b + 1..<e - 1] = list_all P m" for P
    by (metis list.pred_map)
  from this [of "\<lambda>c. islower c \<or> isdigit c \<or> c = CHR ''-''"] show ?thesis
    unfolding ends using assms(4) by (auto simp: label_ok_def l comp_def)
qed

definition segment :: "string \<Rightarrow> nat \<Rightarrow> nat \<Rightarrow> bool" where
  "segment name b e \<longleftrightarrow> 3 \<le> e - b \<and> (islower (name ! b) \<or> isdigit (name ! b)) \<and>
     (islower (name ! (e - 1)) \<or> isdigit (name ! (e - 1))) \<and>
     list_all (\<lambda>i. islower (name ! i) \<or> isdigit (name ! i) \<or> name ! i = CHR ''-'') [b + 1..<e - 1]"

lemma segment_iff:
  "drop b name = l @ r \<Longrightarrow> b \<le> length name \<Longrightarrow> segment name b (b + length l) \<longleftrightarrow> label_ok l"
  using segment_ok [of b name l r "b + length l"]
  unfolding segment_def by (cases "3 \<le> length l") (auto simp: label_ok_def)

lemma valid_labels_step:
  "find_first_of CHR ''.'' name b = None \<Longrightarrow> valid_labels name b \<longleftrightarrow> segment name b (length name)"
  "find_first_of CHR ''.'' name b = Some e \<Longrightarrow>
   valid_labels name b \<longleftrightarrow> segment name b e \<and> valid_labels name (e + 1)"
proof -
  assume "find_first_of CHR ''.'' name b = None"
  then show "valid_labels name b \<longleftrightarrow> segment name b (length name)"
    unfolding segment_def by (subst valid_labels.simps) (simp only: Let_def option.case if_bool_eq_conj, auto)
next
  assume f: "find_first_of CHR ''.'' name b = Some e"
  then have "e \<noteq> length name"
    using find_first_of_bounds by blast
  with f show "valid_labels name b \<longleftrightarrow> segment name b e \<and> valid_labels name (e + 1)"
    unfolding segment_def by (subst valid_labels.simps) (simp only: Let_def option.case if_bool_eq_conj, auto)
qed

lemma valid_labels_iff:
  "b \<le> length name \<Longrightarrow> valid_labels name b \<longleftrightarrow> list_all label_ok (labels (drop b name))"
proof (induction "length name - b" arbitrary: b rule: less_induct)
  case less
  show ?case
  proof (cases "CHR ''.'' \<in> set (drop b name)")
    case False
    then have "valid_labels name b \<longleftrightarrow> segment name b (length name)"
      by (intro valid_labels_step) (simp add: find_first_of_def)
    then show ?thesis
      using False segment_iff [of b name "drop b name" "[]"] less.prems by (simp add: labels_none)
  next
    case True
    then obtain l r where r: "drop b name = l @ CHR ''.'' # r" and nl: "CHR ''.'' \<notin> set l"
      using split_list_first by metis
    have "takeWhile (\<lambda>x. x \<noteq> CHR ''.'') (drop b name) = l"
      unfolding r using nl by (auto simp: takeWhile_append)
    then have f: "find_first_of CHR ''.'' name b = Some (b + length l)"
      using True by (simp add: find_first_of_def)
    then have e: "b + length l < length name"
      using find_first_of_bounds by blast
    have "drop (b + length l + 1) name = drop (length l + 1) (drop b name)"
      by (simp add: ac_simps)
    then have rest: "drop (b + length l + 1) name = r"
      unfolding r by simp
    have "valid_labels name (b + length l + 1) \<longleftrightarrow> list_all label_ok (labels r)"
      using less.hyps [of "b + length l + 1"] e unfolding rest by simp
    then show ?thesis
      using valid_labels_step(2) [OF f] segment_iff [OF r less.prems] by (simp add: r labels_dot [OF nl])
  qed
qed


text \<open>The comment asks every label to begin with a letter; a name of digits is accepted.\<close>

lemma digit_name_accepted: "is_valid_account_name ''123'' \<and> \<not> islower (hd ''123'')"
proof -
  have "isdigit CHR ''1''" "isdigit CHR ''2''" "isdigit CHR ''3''" "\<not> islower CHR ''1''"
    by (simp_all add: isdigit_def islower_def)
  then show ?thesis
    unfolding is_valid_account_name_def
    using valid_labels_iff [of 0 "''123''"]
    by (simp add: DEIP_MIN_ACCOUNT_NAME_LENGTH_def DEIP_MAX_ACCOUNT_NAME_LENGTH_def label_ok_def)
qed

section \<open>What an authority grants\<close>

text \<open>
  The specification has no recursion limit, no cache and no order: an account is granted
  when it was approved beforehand, or when the known keys and the granted accounts of its
  active or owner authority reach the threshold.
\<close>

definition known_keys :: "sign_env \<Rightarrow> sign_state \<Rightarrow> public_key set" where
  "known_keys E st = fst ` set (provided_signatures st) \<union> set (available_keys E)"

definition weight_of :: "'a set \<Rightarrow> ('a \<times> weight_type) list \<Rightarrow> nat" where
  "weight_of S ps = sum_list (map (\<lambda>p. if fst p \<in> S then unat (snd p) else 0) ps)"

lemma weight_of_simps [simp]:
  "weight_of S [] = 0"
  "weight_of S (p # ps) = (if fst p \<in> S then unat (snd p) else 0) + weight_of S ps"
  by (simp_all add: weight_of_def)

lemma weight_of_mono: "S \<subseteq> T \<Longrightarrow> weight_of S ps \<le> weight_of T ps"
  unfolding weight_of_def by (rule sum_list_mono) auto

definition granted_weight :: "public_key set \<Rightarrow> string set \<Rightarrow> authority \<Rightarrow> nat" where
  "granted_weight K S au = weight_of K (key_auths au) + weight_of S (account_auths au)"

inductive account_granted :: "sign_env \<Rightarrow> public_key set \<Rightarrow> string set \<Rightarrow> string \<Rightarrow> bool"
  for E K A where
  granted_before: "a \<in> A \<Longrightarrow> account_granted E K A a"
| granted_by: "get_active E a = Inr au \<or> get_owner E a = Inr au \<Longrightarrow>
     unat (weight_threshold au) \<le> granted_weight K S au \<Longrightarrow>
     \<forall>x\<in>S. account_granted E K A x \<Longrightarrow> account_granted E K A a"

text \<open>The accounts granted within \<open>n\<close> levels.\<close>

fun granted_within :: "sign_env \<Rightarrow> public_key set \<Rightarrow> string set \<Rightarrow> nat \<Rightarrow> string set" where
  "granted_within E K A 0 = A"
| "granted_within E K A (Suc n) = A \<union>
     {a. \<exists>au. (get_active E a = Inr au \<or> get_owner E a = Inr au) \<and>
        unat (weight_threshold au) \<le> granted_weight K (granted_within E K A n) au}"

text \<open>The weights of an authority fit the 32-bit counter.\<close>

definition weights_fit :: "authority \<Rightarrow> bool" where
  "weights_fit au \<longleftrightarrow> granted_weight UNIV UNIV au < 2 ^ 32"

lemma fst_set_upd: "fst ` set (upd i v xs) = fst ` set xs"
  using map_fst_upd [of i v xs] by (metis list.set_map)

lemma signed_by_known:
  assumes "signed_by E k st = (b, st')"
  shows "b \<longleftrightarrow> k \<in> known_keys E st" "known_keys E st' = known_keys E st"
    "approved_by st' = approved_by st"
proof -
  have all: "(b \<longleftrightarrow> k \<in> known_keys E st) \<and> known_keys E st' = known_keys E st \<and> approved_by st' = approved_by st"
  proof (cases "map_of (provided_signatures st) k")
    case None
    then have "k \<notin> fst ` set (provided_signatures st)"
      by (simp add: map_of_eq_None_iff)
    moreover have "b \<and> k \<in> set (available_keys E) \<and>
        st' = st\<lparr>provided_signatures := ins k True (provided_signatures st)\<rparr> \<or>
        \<not> b \<and> k \<notin> set (available_keys E) \<and> st' = st"
      using None assms by (auto simp: signed_by_def split: if_splits)
    ultimately show ?thesis
      unfolding known_keys_def by (elim disjE conjE) (simp_all add: fst_set_ins insert_absorb)
  next
    case (Some v)
    then have "k \<in> fst ` set (provided_signatures st)"
      by (metis map_of_eq_None_iff option.distinct(1))
    moreover have "b \<and> st' = st\<lparr>provided_signatures := upd k True (provided_signatures st)\<rparr>"
      using Some assms by (simp add: signed_by_def)
    ultimately show ?thesis
      unfolding known_keys_def by (elim conjE) (simp add: fst_set_upd)
  qed
  then show "b \<longleftrightarrow> k \<in> known_keys E st" "known_keys E st' = known_keys E st"
    "approved_by st' = approved_by st"
    by auto
qed

lemma unat_ucast16 [simp]: "unat (ucast (w :: 16 word) :: 32 word) = unat w"
  by (simp add: unsigned_ucast_eq take_bit_nat_eq_self_iff) (rule less_trans [OF unsigned_less], simp)

lemma unat_plus_le: "unat (a + b :: 32 word) \<le> unat a + unat b"
  by (simp add: unat_plus_if_size)

lemma unat_plus_fits: "unat a + unat b < 2 ^ 32 \<Longrightarrow> unat (a + b :: 32 word) = unat a + unat b"
  using unat_add_lem [of a b] by simp

lemma check_keys_spec:
  assumes "check_keys E th ks tw st = (b, tw', st')"
  shows "known_keys E st' = known_keys E st \<and> approved_by st' = approved_by st \<and> (b \<longrightarrow> th \<le> tw') \<and>
     unat tw' \<le> unat tw + weight_of (known_keys E st) ks \<and>
     (\<not> b \<longrightarrow> unat tw + weight_of UNIV ks < 2 ^ 32 \<longrightarrow> unat tw' = unat tw + weight_of (known_keys E st) ks)"
  using assms
proof (induction E th ks tw st rule: check_keys.induct)
  case (2 E th k w ks tw st)
  obtain c st1 where c: "signed_by E k st = (c, st1)"
    by fastforce
  note s = signed_by_known [OF c]
  have le: "weight_of (known_keys E st) ks \<le> weight_of UNIV ks"
    by (rule weight_of_mono) simp
  show ?case
  proof (cases c)
    case True
    note plus = unat_plus_le [of tw "ucast w"] unat_plus_fits [of tw "ucast w"]
    show ?thesis
    proof (cases "tw + ucast w \<ge> th")
      case reached: True
      then show ?thesis
        using 2(3) c s True plus by auto
    next
      case False
      with 2(1) [OF c [symmetric]] 2(3) c s True plus show ?thesis
        by auto
    qed
  next
    case False
    with 2(2) [OF c [symmetric]] 2(3) c s show ?thesis
      by auto
  qed
qed auto

definition only_granted :: "sign_env \<Rightarrow> public_key set \<Rightarrow> string set \<Rightarrow> sign_state \<Rightarrow> bool" where
  "only_granted E K A st \<longleftrightarrow>
     known_keys E st = K \<and> set (approved_by st) \<subseteq> {a. account_granted E K A a}"

lemma granted_by_weight:
  "get_active E a = Inr au \<or> get_owner E a = Inr au \<Longrightarrow>
   unat (weight_threshold au) \<le> granted_weight K {x. account_granted E K A x} au \<Longrightarrow>
   account_granted E K A a"
  by (rule granted_by [where S = "{x. account_granted E K A x}"]) auto

text \<open>An account is tried through its active authority, then through its owner authority.\<close>

definition try_account ::
  "sign_env \<Rightarrow> nat \<Rightarrow> string \<Rightarrow> sign_state \<Rightarrow> (bool \<times> sign_state) result" where
  "try_account E left a st =
     bindE (get_active E a) (\<lambda>au1.
     bindE (check_authority E left au1 st) (\<lambda>(ok1, st1).
       if ok1 then Inr (True, st1)
       else bindE (get_owner E a) (\<lambda>au2. check_authority E left au2 st1)))"

lemma try_accountE:
  assumes "try_account E left a st = Inr (ok, st2)"
  obtains au1 ok1 st1 where "get_active E a = Inr au1" "check_authority E left au1 st = Inr (ok1, st1)"
    "ok1 \<and> ok \<and> st2 = st1 \<or>
     \<not> ok1 \<and> (\<exists>au2. get_owner E a = Inr au2 \<and> check_authority E left au2 st1 = Inr (ok, st2))"
  using assms by (auto simp: try_account_def ok_iff split: if_splits prod.splits)

lemma check_accounts_Cons:
  "check_accounts E left th ((a, w) # as) tw st =
     (if a \<notin> set (approved_by st) then
        if left = 0 then check_accounts E left th as tw st
        else bindE (try_account E (left - 1) a st) (\<lambda>(ok, st2).
          if ok then
            let st3 = st2\<lparr>approved_by := List.insert a (approved_by st2)\<rparr>; tw' = tw + ucast w
            in if tw' \<ge> th then Inr (True, st3) else check_accounts E left th as tw' st3
          else check_accounts E left th as tw st2)
      else
        (let tw' = tw + ucast w
         in if tw' \<ge> th then Inr (True, st) else check_accounts E left th as tw' st))"
  by (subst check_accounts.simps, cases "get_active E a";
      cases "check_authority E (left - Suc 0) (projr (get_active E a)) st")
    (auto simp: try_account_def split: prod.splits if_splits)

lemma try_account_sound:
  assumes "try_account E left a st = Inr (ok, st2)" "only_granted E K A st"
    and IH: "\<And>au st ok st'. check_authority E left au st = Inr (ok, st') \<Longrightarrow> only_granted E K A st \<Longrightarrow>
       only_granted E K A st' \<and>
       (ok \<longrightarrow> unat (weight_threshold au) \<le> granted_weight K {x. account_granted E K A x} au)"
  shows "only_granted E K A st2 \<and> (ok \<longrightarrow> account_granted E K A a)"
  using assms(1)
proof (rule try_accountE)
  fix au1 ok1 st1
  assume a: "get_active E a = Inr au1" "check_authority E left au1 st = Inr (ok1, st1)"
    "ok1 \<and> ok \<and> st2 = st1 \<or>
     \<not> ok1 \<and> (\<exists>au2. get_owner E a = Inr au2 \<and> check_authority E left au2 st1 = Inr (ok, st2))"
  note I1 = IH [OF a(2) assms(2)]
  from a(3) show ?thesis
  proof (elim disjE conjE exE)
    fix au2
    assume "get_owner E a = Inr au2" "check_authority E left au2 st1 = Inr (ok, st2)"
    with I1 IH [of au2 st1 ok st2] show ?thesis
      using granted_by_weight by blast
  qed (use I1 a(1) granted_by_weight in blast)
qed

lemma check_accounts_sound:
  assumes "\<And>a st ok st2. left \<noteq> 0 \<Longrightarrow> try_account E (left - 1) a st = Inr (ok, st2) \<Longrightarrow>
      only_granted E K A st \<Longrightarrow> only_granted E K A st2 \<and> (ok \<longrightarrow> account_granted E K A a)"
  shows "check_accounts E left th as tw st = Inr (ok, st') \<Longrightarrow> only_granted E K A st \<Longrightarrow>
    only_granted E K A st' \<and>
    (ok \<longrightarrow> unat th \<le> unat tw + weight_of {x. account_granted E K A x} as)"
proof (induction as arbitrary: tw st)
  case (Cons p as)
  obtain a w where p: "p = (a, w)"
    by fastforce
  note chk = Cons.prems(1) [unfolded p check_accounts_Cons]
  have plus: "unat (tw + ucast w) \<le> unat tw + unat w"
    using unat_plus_le [of tw "ucast w"] by simp
  have goal: ?case if "only_granted E K A st1"
      "check_accounts E left th as tw1 st1 = Inr (ok, st')"
      "unat tw1 \<le> unat tw + (if account_granted E K A a then unat w else 0)" for st1 tw1
    using Cons.IH [OF that(2,1)] that(3) by (auto simp: p split: if_splits)
  show ?case
  proof (cases "a \<in> set (approved_by st)")
    case True
    then have a: "account_granted E K A a"
      using Cons.prems(2) by (auto simp: only_granted_def)
    show ?thesis
    proof (cases "tw + ucast w \<ge> th")
      case reached: True
      then have "unat th \<le> unat tw + unat w"
        using plus by (simp add: word_le_nat_alt)
      then show ?thesis
        using chk True reached a Cons.prems(2) by (simp add: p)
    next
      case False
      then show ?thesis
        using chk True a plus by (intro goal [OF Cons.prems(2)]) auto
    qed
  next
    case False
    note fresh = this
    show ?thesis
    proof (cases "left = 0")
      case True
      then show ?thesis
        using chk fresh by (intro goal [OF Cons.prems(2)]) auto
    next
      case False
      then obtain ok2 st2 where tried: "try_account E (left - 1) a st = Inr (ok2, st2)"
        using chk fresh by (auto simp: ok_iff)
      note t = assms [OF False tried Cons.prems(2)]
      show ?thesis
      proof (cases ok2)
        case True
        let ?st3 = "st2\<lparr>approved_by := List.insert a (approved_by st2)\<rparr>"
        have og: "only_granted E K A ?st3" and a: "account_granted E K A a"
          using t True by (auto simp: only_granted_def known_keys_def)
        show ?thesis
        proof (cases "tw + ucast w \<ge> th")
          case reached: True
          then have "unat th \<le> unat tw + unat w"
            using plus by (simp add: word_le_nat_alt)
          then show ?thesis
            using chk fresh False tried True reached og a by (simp add: p)
        next
          case notyet: False
          then show ?thesis
            using chk fresh False tried True a plus by (intro goal [OF og]) auto
        qed
      next
        case no: False
        then show ?thesis
          using chk fresh False tried t by (intro goal [of st2 tw]) auto
      qed
    qed
  qed
qed (auto simp: word_le_nat_alt)

lemma check_sound_step:
  assumes tried: "\<And>a st ok st2. left \<noteq> 0 \<Longrightarrow> try_account E (left - 1) a st = Inr (ok, st2) \<Longrightarrow>
      only_granted E K A st \<Longrightarrow> only_granted E K A st2 \<and> (ok \<longrightarrow> account_granted E K A a)"
    and chk: "check_authority E left au st = Inr (ok, st')" and og: "only_granted E K A st"
  shows "only_granted E K A st' \<and>
     (ok \<longrightarrow> unat (weight_threshold au) \<le> granted_weight K {x. account_granted E K A x} au)"
proof -
  obtain b tw st1 where keys: "check_keys E (weight_threshold au) (key_auths au) 0 st = (b, tw, st1)"
    by (metis prod_cases3)
  note k = check_keys_spec [OF keys]
  have og1: "only_granted E K A st1"
    using k og by (simp add: only_granted_def)
  have tw: "unat tw \<le> weight_of K (key_auths au)"
    using k og by (simp add: only_granted_def)
  show ?thesis
  proof (cases b)
    case True
    then have "unat (weight_threshold au) \<le> unat tw"
      using k by (simp add: word_le_nat_alt)
    then show ?thesis
      using True chk keys og1 tw by (simp add: check_authority.simps granted_weight_def)
  next
    case False
    then have accts: "check_accounts E left (weight_threshold au) (account_auths au) tw st1 = Inr (ok, st')"
      using chk keys by (simp add: check_authority.simps)
    have "only_granted E K A st' \<and>
        (ok \<longrightarrow> unat (weight_threshold au) \<le> unat tw + weight_of {x. account_granted E K A x} (account_auths au))"
      by (rule check_accounts_sound [OF tried accts og1])
    then show ?thesis
      using tw by (auto simp: granted_weight_def)
  qed
qed

lemma check_sound:
  "check_authority E left au st = Inr (ok, st') \<Longrightarrow> only_granted E K A st \<Longrightarrow>
     only_granted E K A st' \<and>
     (ok \<longrightarrow> unat (weight_threshold au) \<le> granted_weight K {x. account_granted E K A x} au)"
proof (induction left arbitrary: au st ok st')
  case 0
  show ?case
    by (rule check_sound_step [OF _ 0]) simp
next
  case (Suc left)
  show ?case
  proof (rule check_sound_step [OF _ Suc.prems])
    fix a st ok st2
    assume "try_account E (Suc left - 1) a st = Inr (ok, st2)" "only_granted E K A st"
    then show "only_granted E K A st2 \<and> (ok \<longrightarrow> account_granted E K A a)"
      using try_account_sound [OF _ _ Suc.IH] by simp
  qed
qed

text \<open>Completeness: whatever is granted within the levels left is found.\<close>

definition starts_with :: "sign_env \<Rightarrow> public_key set \<Rightarrow> string set \<Rightarrow> sign_state \<Rightarrow> bool" where
  "starts_with E K A st \<longleftrightarrow> known_keys E st = K \<and> A \<subseteq> set (approved_by st)"

lemma check_accounts_complete:
  assumes "\<And>a st ok st2. left \<noteq> 0 \<Longrightarrow> try_account E (left - 1) a st = Inr (ok, st2) \<Longrightarrow>
      a \<notin> set (approved_by st) \<Longrightarrow> starts_with E K A st \<Longrightarrow> starts_with E K A st2 \<and> (a \<in> S \<longrightarrow> ok)"
    and "left = 0 \<Longrightarrow> S \<subseteq> A"
  shows "check_accounts E left th as tw st = Inr (ok, st') \<Longrightarrow> starts_with E K A st \<Longrightarrow>
    unat tw + weight_of UNIV as < 2 ^ 32 \<Longrightarrow>
    starts_with E K A st' \<and> (unat th \<le> unat tw + weight_of S as \<longrightarrow> ok)"
proof (induction as arbitrary: tw st)
  case (Cons p as)
  obtain a w where p: "p = (a, w)"
    by fastforce
  note chk = Cons.prems(1) [unfolded p check_accounts_Cons]
  have plus: "unat (tw + ucast w) = unat tw + unat w"
    using unat_plus_fits [of tw "ucast w"] Cons.prems(3) by (simp add: p)
  have le: "weight_of S as \<le> weight_of UNIV as"
    by (rule weight_of_mono) simp
  have skip: ?case if "starts_with E K A st1"
      "check_accounts E left th as tw st1 = Inr (ok, st')" "a \<notin> S" for st1
    using Cons.IH [OF that(2,1)] that(3) Cons.prems(3) by (simp add: p)
  have take: ?case if "starts_with E K A st1"
      "(if th \<le> tw + ucast w then Inr (True, st1) else check_accounts E left th as (tw + ucast w) st1) = Inr (ok, st')"
      for st1
  proof (cases "th \<le> tw + ucast w")
    case False
    with Cons.IH [of "tw + ucast w" st1] that Cons.prems(3) plus show ?thesis
      by (auto simp: p)
  qed (use that in auto)
  show ?case
  proof (cases "a \<in> set (approved_by st)")
    case True
    then show ?thesis
      using chk take [OF Cons.prems(2)] by (simp add: Let_def)
  next
    case fresh: False
    then have "a \<notin> A"
      using Cons.prems(2) by (auto simp: starts_with_def)
    show ?thesis
    proof (cases "left = 0")
      case True
      with assms(2) \<open>a \<notin> A\<close> chk fresh show ?thesis
        by (intro skip [OF Cons.prems(2)]) auto
    next
      case False
      then obtain ok2 st2 where tried: "try_account E (left - 1) a st = Inr (ok2, st2)"
        using chk fresh by (auto simp: ok_iff)
      note t = assms(1) [OF False tried fresh Cons.prems(2)]
      let ?st3 = "st2\<lparr>approved_by := List.insert a (approved_by st2)\<rparr>"
      have "starts_with E K A ?st3"
        using t by (auto simp: starts_with_def known_keys_def)
      then show ?thesis
        using chk fresh False tried t take [of ?st3] skip [of st2] by (cases ok2) (auto simp: Let_def)
    qed
  qed
qed (auto simp: word_le_nat_alt)

lemma check_complete_step:
  assumes tried: "\<And>a st ok st2. left \<noteq> 0 \<Longrightarrow> try_account E (left - 1) a st = Inr (ok, st2) \<Longrightarrow>
      a \<notin> set (approved_by st) \<Longrightarrow> starts_with E K A st \<Longrightarrow> starts_with E K A st2 \<and> (a \<in> S \<longrightarrow> ok)"
    and S: "left = 0 \<Longrightarrow> S \<subseteq> A"
    and chk: "check_authority E left au st = Inr (ok, st')" and sw: "starts_with E K A st"
    and fit: "weights_fit au"
  shows "starts_with E K A st' \<and> (unat (weight_threshold au) \<le> granted_weight K S au \<longrightarrow> ok)"
proof -
  obtain b tw st1 where keys: "check_keys E (weight_threshold au) (key_auths au) 0 st = (b, tw, st1)"
    by (metis prod_cases3)
  note k = check_keys_spec [OF keys]
  have sw1: "starts_with E K A st1"
    using k sw by (simp add: starts_with_def)
  have le: "weight_of K (key_auths au) \<le> weight_of UNIV (key_auths au)"
    by (rule weight_of_mono) simp
  show ?thesis
  proof (cases b)
    case False
    then have tw: "unat tw = weight_of K (key_auths au)"
      using k sw fit by (auto simp: starts_with_def weights_fit_def granted_weight_def)
    have "check_accounts E left (weight_threshold au) (account_auths au) tw st1 = Inr (ok, st')"
      using False chk keys by (simp add: check_authority.simps)
    moreover have "unat tw + weight_of UNIV (account_auths au) < 2 ^ 32"
      using tw le fit by (simp add: weights_fit_def granted_weight_def)
    ultimately have "starts_with E K A st' \<and>
        (unat (weight_threshold au) \<le> unat tw + weight_of S (account_auths au) \<longrightarrow> ok)"
      by (intro check_accounts_complete [OF tried S _ sw1])
    then show ?thesis
      using tw by (simp add: granted_weight_def)
  qed (use chk keys sw1 in \<open>simp add: check_authority.simps\<close>)
qed

lemma try_account_complete:
  assumes IH: "\<And>au st ok st'. check_authority E left au st = Inr (ok, st') \<Longrightarrow> starts_with E K A st \<Longrightarrow>
      weights_fit au \<Longrightarrow> starts_with E K A st' \<and>
      (unat (weight_threshold au) \<le> granted_weight K (granted_within E K A left) au \<longrightarrow> ok)"
    and fit: "\<And>x au. get_active E x = Inr au \<or> get_owner E x = Inr au \<Longrightarrow> weights_fit au"
    and tried: "try_account E left a st = Inr (ok, st2)" and sw: "starts_with E K A st"
    and fresh: "a \<notin> set (approved_by st)"
  shows "starts_with E K A st2 \<and> (a \<in> granted_within E K A (Suc left) \<longrightarrow> ok)"
  using tried
proof (rule try_accountE)
  fix au1 ok1 st1
  assume a: "get_active E a = Inr au1" "check_authority E left au1 st = Inr (ok1, st1)"
    "ok1 \<and> ok \<and> st2 = st1 \<or>
     \<not> ok1 \<and> (\<exists>au2. get_owner E a = Inr au2 \<and> check_authority E left au2 st1 = Inr (ok, st2))"
  have notA: "a \<notin> A"
    using sw fresh by (auto simp: starts_with_def)
  have "weights_fit au1"
    using fit a(1) by blast
  note I1 = IH [OF a(2) sw this]
  from a(3) show ?thesis
  proof (elim disjE conjE exE)
    fix au2
    assume o: "\<not> ok1" "get_owner E a = Inr au2" "check_authority E left au2 st1 = Inr (ok, st2)"
    have "weights_fit au2"
      using fit o(2) by blast
    with IH [OF o(3)] I1 o a(1) notA show ?thesis
      by auto
  qed (use I1 in auto)
qed

lemma check_complete:
  assumes fit: "\<And>x au. get_active E x = Inr au \<or> get_owner E x = Inr au \<Longrightarrow> weights_fit au"
  shows "check_authority E left au st = Inr (ok, st') \<Longrightarrow> starts_with E K A st \<Longrightarrow> weights_fit au \<Longrightarrow>
    starts_with E K A st' \<and>
    (unat (weight_threshold au) \<le> granted_weight K (granted_within E K A left) au \<longrightarrow> ok)"
proof (induction left arbitrary: au st ok st')
  case 0
  show ?case
    by (rule check_complete_step [OF _ _ 0]) simp_all
next
  case (Suc left)
  show ?case
  proof (rule check_complete_step [OF _ _ Suc.prems])
    fix a st ok st2
    assume a: "try_account E (Suc left - 1) a st = Inr (ok, st2)" "a \<notin> set (approved_by st)"
      "starts_with E K A st"
    then have t: "try_account E left a st = Inr (ok, st2)"
      by simp
    show "starts_with E K A st2 \<and> (a \<in> granted_within E K A (Suc left) \<longrightarrow> ok)"
      by (rule try_account_complete [OF Suc.IH fit t a(3,2)])
  qed simp
qed

lemma check_authority_of_try:
  "check_authority_of E a st =
     (if a \<in> set (approved_by st) then Inr (True, st) else try_account E DEIP_MAX_SIG_CHECK_DEPTH a st)"
  by (simp add: check_authority_of_def try_account_def)



text \<open>Alice needs Bob and Carol; Bob signs with key 7, Carol follows Bob.\<close>

definition demo_auth :: "string \<Rightarrow> authority result" where
  "demo_auth a =
     (if a = ''alice'' then Inr \<lparr>weight_threshold = 3, account_auths = [(''bob'', 1), (''carol'', 2)], key_auths = []\<rparr>
      else if a = ''bob'' then Inr \<lparr>weight_threshold = 1, account_auths = [], key_auths = [(7, 1)]\<rparr>
      else if a = ''carol'' then Inr \<lparr>weight_threshold = 2, account_auths = [(''bob'', 2)], key_auths = [(9, 1)]\<rparr>
      else Inl Out_of_range)"

definition demo_env :: sign_env where
  "demo_env = \<lparr>get_active = demo_auth, get_owner = demo_auth, available_keys = []\<rparr>"

lemma demo_check:
  "check_authority_of demo_env ''alice'' (mk_sign_state [7]) =
     Inr (True, \<lparr>provided_signatures = [(7, True)], approved_by = [''carol'', ''bob'']\<rparr>)"
  by (simp add: check_authority_of_def demo_env_def demo_auth_def mk_sign_state_def signed_by_def
      check_authority.simps check_accounts.simps(2) DEIP_MAX_SIG_CHECK_DEPTH_def Let_def
      word_le_nat_alt)


lemma demo_fit:
  "get_active demo_env x = Inr au \<or> get_owner demo_env x = Inr au \<Longrightarrow> weights_fit au"
  by (auto simp: demo_env_def demo_auth_def weights_fit_def granted_weight_def split: if_splits)


end
