(* ===== verification/Schema.thy ===== *)
theory Schema
  imports Chainbase Rewards Authority
begin

text \<open>
  The objects of \<open>libraries/chain/include/deip/chain/schema/\<close> the modelled operations
  touch, with the unique secondary indexes of each (a relation that says when two objects
  agree on one of them), and the state \<open>chain\<close> the services work on: the head block time,
  the reference block of the current transaction, and one chainbase index per object type.
  Times are seconds; a research, group or account is named by its string; every external id
  is a string. Fields no modelled operation reads are left out.
\<close>

section \<open>Accounts, assets and balances\<close>

record account_object =
  acc_name :: string

definition account_key :: "account_object \<Rightarrow> account_object \<Rightarrow> bool" where
  "account_key v w = (acc_name v = acc_name w)"

datatype asset_type = basic | research_security_token

record asset_object =
  as_symbol :: "64 word"
  as_string_symbol :: string
  as_precision :: nat
  as_issuer :: string
  as_description :: string
  as_type :: asset_type
  as_tokenized_research :: "string option"
  as_license_revenue_holders_share :: "percent option"
  as_max_supply :: int
  as_current_supply :: int
  as_is_default :: bool

definition asset_key :: "asset_object \<Rightarrow> asset_object \<Rightarrow> bool" where
  "asset_key v w = (as_symbol v = as_symbol w \<or> as_string_symbol v = as_string_symbol w)"

record account_balance_object =
  ab_asset_id :: nat
  ab_symbol :: "64 word"
  ab_string_symbol :: string
  ab_owner :: string
  ab_amount :: int
  ab_frozen_amount :: int
  ab_tokenized_research :: "string option"

definition balance_key :: "account_balance_object \<Rightarrow> account_balance_object \<Rightarrow> bool" where
  "balance_key v w =
     (ab_owner v = ab_owner w \<and>
      (ab_symbol v = ab_symbol w \<or> ab_string_symbol v = ab_string_symbol w))"

section \<open>Research\<close>

record research_object =
  rs_external_id :: string
  rs_research_group_id :: nat
  rs_research_group :: string
  rs_security_tokens :: "asset list"

definition research_key :: "research_object \<Rightarrow> research_object \<Rightarrow> bool" where
  "research_key v w = (rs_external_id v = rs_external_id w)"

record research_group_object =
  rg_account :: string
  rg_creator :: string
  rg_description :: string
  rg_is_personal :: bool
  rg_is_dao :: bool
  rg_is_centralized :: bool

definition research_group_key :: "research_group_object \<Rightarrow> research_group_object \<Rightarrow> bool" where
  "research_group_key v w = (rg_account v = rg_account w)"

record research_group_token_object =
  rgt_research_group_id :: nat
  rgt_amount :: int
  rgt_owner :: string

definition group_token_key :: "research_group_token_object \<Rightarrow> research_group_token_object \<Rightarrow> bool" where
  "group_token_key v w =
     (rgt_owner v = rgt_owner w \<and> rgt_research_group_id v = rgt_research_group_id w)"

record discipline_object =
  di_parent_id :: nat
  di_external_id :: string
  di_parent_external_id :: string
  di_name :: string

definition discipline_key :: "discipline_object \<Rightarrow> discipline_object \<Rightarrow> bool" where
  "discipline_key v w = (di_name v = di_name w \<or> di_external_id v = di_external_id w)"

record recent_entity_object =
  re_external_id :: string
  re_ref_block_num :: nat
  re_ref_block_prefix :: nat
  re_created_at :: int

definition recent_entity_key :: "recent_entity_object \<Rightarrow> recent_entity_object \<Rightarrow> bool" where
  "recent_entity_key v w = (re_external_id v = re_external_id w)"

section \<open>Token sales\<close>

datatype token_sale_status = sale_active | sale_finished | sale_expired | sale_inactive

record research_token_sale_object =
  ts_external_id :: string
  ts_research_id :: nat
  ts_research_external_id :: string
  ts_security_tokens_on_sale :: "asset list"
  ts_start_time :: int
  ts_end_time :: int
  ts_total_amount :: asset
  ts_soft_cap :: asset
  ts_hard_cap :: asset
  ts_status :: token_sale_status

definition token_sale_key :: "research_token_sale_object \<Rightarrow> research_token_sale_object \<Rightarrow> bool" where
  "token_sale_key v w = (ts_external_id v = ts_external_id w)"

record contribution_object =
  tc_research_token_sale :: string
  tc_research_token_sale_id :: nat
  tc_owner :: string
  tc_amount :: asset
  tc_contribution_time :: int

definition contribution_key :: "contribution_object \<Rightarrow> contribution_object \<Rightarrow> bool" where
  "contribution_key v w =
     (tc_owner v = tc_owner w \<and> tc_research_token_sale_id v = tc_research_token_sale_id w)"

section \<open>Vesting contracts\<close>

record vesting_balance_object =
  vb_owner :: string
  vb_balance :: asset
  vb_withdrawn :: asset
  vb_vesting_duration_seconds :: int
  vb_period_duration_seconds :: int
  vb_vesting_cliff_seconds :: int
  vb_start_timestamp :: int

definition no_key :: "'v \<Rightarrow> 'v \<Rightarrow> bool" where
  "no_key v w = False"

section \<open>Grants and awards\<close>

text \<open>
  A field the constructor of an object leaves without a value is \<open>None\<close>.
\<close>

datatype distribution_type = unknown_distribution | eci_evaluation | officer_evaluation | discipline_supply

record funding_opportunity_object =
  fo_organization_id :: nat
  fo_organization_external_id :: string
  fo_review_committee_id :: nat
  fo_review_committee_external_id :: string
  fo_treasury_id :: nat
  fo_treasury_external_id :: string
  fo_grantor :: string
  fo_number :: string
  fo_additional_info :: "(string \<times> string) list"
  fo_target_disciplines :: "nat set"
  fo_amount :: asset
  fo_award_ceiling :: asset
  fo_award_floor :: asset
  fo_current_supply :: asset
  fo_min_number_of_positive_reviews :: "nat option"
  fo_min_number_of_applications :: "nat option"
  fo_max_number_of_research_to_grant :: "nat option"
  fo_expected_number_of_awards :: "nat option"
  fo_officers :: "string list"
  fo_open_date :: int
  fo_close_date :: int
  fo_posted_date :: int
  fo_distribution_type :: distribution_type

definition grant_key :: "funding_opportunity_object \<Rightarrow> funding_opportunity_object \<Rightarrow> bool" where
  "grant_key v w = (fo_number v = fo_number w)"

record discipline_supply_object =
  ds_grantor :: string
  ds_target_discipline :: nat
  ds_created :: int
  ds_balance :: asset
  ds_per_block :: int
  ds_start_time :: int
  ds_end_time :: int
  ds_is_extendable :: bool
  ds_content_hash :: string
  ds_additional_info :: "(string \<times> string) list"

datatype award_status = award_pending | award_approved | award_rejected

record award_object =
  aw_funding_opportunity_number :: string
  aw_award_number :: string
  aw_awardee :: string
  aw_university_id :: nat
  aw_university_external_id :: string
  aw_university_overhead :: percent
  aw_creator :: string
  aw_status :: award_status
  aw_amount :: asset

definition award_key :: "award_object \<Rightarrow> award_object \<Rightarrow> bool" where
  "award_key v w = (aw_award_number v = aw_award_number w)"

datatype award_recipient_status = recipient_unknown | recipient_unconfirmed | recipient_confirmed | recipient_canceled

record award_recipient_object =
  ar_funding_opportunity_number :: string
  ar_award_number :: string
  ar_subaward_number :: string
  ar_research_id :: nat
  ar_research_external_id :: string
  ar_awardee :: string
  ar_source :: string
  ar_total_amount :: asset
  ar_total_expenses :: asset
  ar_status :: award_recipient_status

definition award_recipient_key :: "award_recipient_object \<Rightarrow> award_recipient_object \<Rightarrow> bool" where
  "award_recipient_key v w =
     (ar_award_number v = ar_award_number w \<and> ar_subaward_number v = ar_subaward_number w)"

datatype withdrawal_status =
  withdrawal_pending | withdrawal_certified | withdrawal_approved | withdrawal_paid | withdrawal_rejected

record award_withdrawal_request_object =
  wr_payment_number :: string
  wr_award_number :: string
  wr_subaward_number :: string
  wr_requester :: string
  wr_amount :: asset
  wr_status :: withdrawal_status
  wr_time :: int
  wr_description :: string
  wr_attachment :: string

definition withdrawal_key ::
  "award_withdrawal_request_object \<Rightarrow> award_withdrawal_request_object \<Rightarrow> bool" where
  "withdrawal_key v w =
     (wr_award_number v = wr_award_number w \<and> wr_payment_number v = wr_payment_number w)"

section \<open>The chain state\<close>

record chain =
  head_block_time :: int
  trx_ref_block_num :: nat
  trx_ref_block_prefix :: nat
  accounts :: "account_object generic_index"
  assets :: "asset_object generic_index"
  balances :: "account_balance_object generic_index"
  researches :: "research_object generic_index"
  research_groups :: "research_group_object generic_index"
  recent_entities :: "recent_entity_object generic_index"
  token_sales :: "research_token_sale_object generic_index"
  contributions :: "contribution_object generic_index"
  vestings :: "vesting_balance_object generic_index"
  group_tokens :: "research_group_token_object generic_index"
  disciplines :: "discipline_object generic_index"
  grants :: "funding_opportunity_object generic_index"
  discipline_supplies :: "discipline_supply_object generic_index"
  awards :: "award_object generic_index"
  award_recipients :: "award_recipient_object generic_index"
  award_withdrawals :: "award_withdrawal_request_object generic_index"

definition empty_chain :: chain where
  "empty_chain = \<lparr>head_block_time = 0, trx_ref_block_num = 0, trx_ref_block_prefix = 0,
     accounts = empty_index, assets = empty_index, balances = empty_index, researches = empty_index,
     research_groups = empty_index, recent_entities = empty_index, token_sales = empty_index,
     contributions = empty_index, vestings = empty_index, group_tokens = empty_index,
     disciplines = empty_index, grants = empty_index, discipline_supplies = empty_index,
     awards = empty_index, award_recipients = empty_index, award_withdrawals = empty_index\<rparr>"

end
