(* ===== verification/Ledger.thy ===== *)
theory Ledger
  imports Assets
begin

text \<open>
  The interface the token operations use of the balance service: an account's balance is
  adjusted by an amount, part of it is frozen and unfrozen. What the service promises is
  how the total held of each symbol moves, that it never leaves a bad balance behind, and
  that it touches nothing else. The consequences the operations share are proved here once.
\<close>

locale token_ledger =
  fixes ok :: "'c \<Rightarrow> bool"
    and held :: "'c \<Rightarrow> 64 word \<Rightarrow> int"
    and spendable :: "'c \<Rightarrow> string \<Rightarrow> 64 word \<Rightarrow> int"
    and rest :: "'c \<Rightarrow> 'r"
    and adjust :: "string \<Rightarrow> asset \<Rightarrow> 'c \<Rightarrow> 'c result"
    and freeze :: "string \<Rightarrow> asset \<Rightarrow> 'c \<Rightarrow> 'c result"
    and unfreeze :: "string \<Rightarrow> asset \<Rightarrow> 'c \<Rightarrow> 'c result"
  assumes adjust_law: "ok c \<Longrightarrow> int64 (amount d) \<Longrightarrow> adjust w d c = Inr c' \<Longrightarrow>
        ok c' \<and> rest c' = rest c \<and> held c' s = held c s + (if symbol d = s then amount d else 0)"
    and adjust_spendable: "ok c \<Longrightarrow> int64 (amount d) \<Longrightarrow> adjust w d c = Inr c' \<Longrightarrow>
        spendable c' v s = spendable c v s + (if v = w \<and> s = symbol d then amount d else 0)"
    and freeze_law: "ok c \<Longrightarrow> int64 (amount d) \<Longrightarrow> 0 \<le> amount d \<Longrightarrow> freeze w d c = Inr c' \<Longrightarrow>
        ok c' \<and> rest c' = rest c \<and> held c' s = held c s"
    and unfreeze_law: "ok c \<Longrightarrow> int64 (amount d) \<Longrightarrow> 0 \<le> amount d \<Longrightarrow> unfreeze w d c = Inr c' \<Longrightarrow>
        ok c' \<and> rest c' = rest c \<and> held c' s = held c s"
begin

text \<open>Taking an amount from one account and giving it to another keeps every total.\<close>

lemma move:
  assumes "ok c" "int64 (amount d)" "int64 (amount e)" "symbol e = symbol d" "amount e = - amount d"
    and "adjust v e c = Inr c1" "adjust w d c1 = Inr c2"
  shows "ok c2 \<and> rest c2 = rest c \<and> held c2 s = held c s"
  using adjust_law [OF assms(1,3,6)] adjust_law [OF _ assms(2,7)] assms(4,5) by (auto split: if_splits)

lemma move_spendable:
  assumes "ok c" "int64 (amount d)" "int64 (amount e)" "symbol e = symbol d" "amount e = - amount d"
    and "adjust v e c = Inr c1" "adjust w d c1 = Inr c2"
  shows "spendable c2 u s = spendable c u s +
    (if s \<noteq> symbol d then 0
     else (if u = w then amount d else 0) - (if u = v then amount d else 0))"
  using adjust_law [OF assms(1,3,6)] adjust_spendable [OF assms(1,3,6), of u s]
    adjust_spendable [OF _ assms(2,7), of u s] assms(4,5) by auto

text \<open>A list of payments.\<close>

lemma pay_all:
  assumes "\<forall>p\<in>set ps. int64 (amount (snd p))"
  shows "foldE (\<lambda>p. adjust (fst p) (snd p)) ps c = Inr c' \<Longrightarrow> ok c \<Longrightarrow>
    ok c' \<and> rest c' = rest c \<and>
    held c' s = held c s + sum_list (map (\<lambda>p. if symbol (snd p) = s then amount (snd p) else 0) ps)"
  using assms
proof (induction ps arbitrary: c)
  case (Cons p ps)
  then obtain c1 where c1: "adjust (fst p) (snd p) c = Inr c1"
      "foldE (\<lambda>p. adjust (fst p) (snd p)) ps c1 = Inr c'"
    by (auto simp: ok_iff)
  note a = adjust_law [OF Cons.prems(2) _ c1(1), of s]
  show ?case
    using Cons.IH [OF c1(2)] a Cons.prems(3) by auto
qed simp

text \<open>Unfreezing or freezing a list of amounts of one account.\<close>

lemma unfreeze_all:
  assumes "\<forall>d\<in>set ds. int64 (amount d) \<and> 0 \<le> amount d"
  shows "foldE (unfreeze w) ds c = Inr c' \<Longrightarrow> ok c \<Longrightarrow> ok c' \<and> rest c' = rest c \<and> held c' s = held c s"
  using assms
proof (induction ds arbitrary: c)
  case (Cons d ds)
  then obtain c1 where c1: "unfreeze w d c = Inr c1" "foldE (unfreeze w) ds c1 = Inr c'"
    by (auto simp: ok_iff)
  show ?case
    using Cons.IH [OF c1(2)] unfreeze_law [OF Cons.prems(2) _ _ c1(1), of s] Cons.prems(3) by auto
qed simp

lemma freeze_all:
  assumes "\<forall>d\<in>set ds. int64 (amount d) \<and> 0 \<le> amount d"
  shows "foldE (freeze w) ds c = Inr c' \<Longrightarrow> ok c \<Longrightarrow> ok c' \<and> rest c' = rest c \<and> held c' s = held c s"
  using assms
proof (induction ds arbitrary: c)
  case (Cons d ds)
  then obtain c1 where c1: "freeze w d c = Inr c1" "foldE (freeze w) ds c1 = Inr c'"
    by (auto simp: ok_iff)
  show ?case
    using Cons.IH [OF c1(2)] freeze_law [OF Cons.prems(2) _ _ c1(1), of s] Cons.prems(3) by auto
qed simp

end

end
