(* ===== verification/Balances.thy ===== *)
theory Balances
  imports Schema Ledger
begin

text \<open>
  Account balances (\<open>libraries/chain/services/dbs_account_balance.cpp\<close>) and assets
  (\<open>libraries/chain/services/dbs_asset.cpp\<close>). A service method that changes an object it
  holds a reference to takes the object's id; the modifier of \<open>modify\<close> computes with checked
  amounts, which may throw, before the object is updated. The arithmetic is that of the
  \<open>fc\<close> parameter \<open>L\<close>.
\<close>

section \<open>Balances\<close>

definition is_balance_of :: "string \<Rightarrow> 64 word \<Rightarrow> account_balance_object \<Rightarrow> bool" where
  "is_balance_of owner sm b \<longleftrightarrow> ab_owner b = owner \<and> ab_symbol b = sm"

definition account_balance_exists :: "string \<Rightarrow> 64 word \<Rightarrow> chain \<Rightarrow> bool" where
  "account_balance_exists owner sm c = (find_row (is_balance_of owner sm) (balances c) \<noteq> None)"

definition get_account_balance ::
  "string \<Rightarrow> 64 word \<Rightarrow> chain \<Rightarrow> (nat \<times> account_balance_object) result" where
  "get_account_balance owner sm c = get_row (is_balance_of owner sm) (balances c)"

definition get_account_balances_by_owner :: "string \<Rightarrow> chain \<Rightarrow> (nat \<times> account_balance_object) list" where
  "get_account_balances_by_owner owner c = filter (\<lambda>(i, b). ab_owner b = owner) (rows (balances c))"

definition get_accounts_balances_by_symbol :: "64 word \<Rightarrow> chain \<Rightarrow> (nat \<times> account_balance_object) list" where
  "get_accounts_balances_by_symbol sm c = filter (\<lambda>(i, b). ab_symbol b = sm) (rows (balances c))"

definition set_balances ::
  "account_balance_object generic_index result \<Rightarrow> chain \<Rightarrow> chain result" where
  "set_balances r c = bindE r (\<lambda>t. Inr (c\<lparr>balances := t\<rparr>))"

definition create_account_balance :: "string \<Rightarrow> 64 word \<Rightarrow> int \<Rightarrow> chain \<Rightarrow> chain result" where
  "create_account_balance owner sm amt c =
     bindE (get_row (\<lambda>a. as_symbol a = sm) (assets c)) (\<lambda>(aid, a).
     bindE (if as_type a = research_security_token
            then bindE (the_or Undefined_behaviour (as_tokenized_research a)) (\<lambda>r. Inr (Some r))
            else Inr None) (\<lambda>research.
       set_balances
         (bindE (emplace balance_key
            \<lparr>ab_asset_id = aid, ab_symbol = sm, ab_string_symbol = as_string_symbol a,
             ab_owner = owner, ab_amount = amt, ab_frozen_amount = 0,
             ab_tokenized_research = research\<rparr> (balances c)) (\<lambda>(i, t). Inr t)) c))"

definition remove_account_balance :: "nat \<Rightarrow> chain \<Rightarrow> chain result" where
  "remove_account_balance i c = set_balances (remove i (balances c)) c"

definition adjust_account_balance :: "fc_lib \<Rightarrow> string \<Rightarrow> asset \<Rightarrow> chain \<Rightarrow> chain result" where
  "adjust_account_balance L owner delta c =
     bindE (if account_balance_exists owner (symbol delta) c then Inr c
            else create_account_balance owner (symbol delta) 0 c) (\<lambda>c1.
     bindE (get_account_balance owner (symbol delta) c1) (\<lambda>(i, b).
     bindE (if amount delta < 0
            then bindE (raw (- amount delta)) (\<lambda>a. require (ab_amount b \<ge> a) Insufficient_funds (Inr ()))
            else Inr ()) (\<lambda>_.
     bindE (add L (ab_amount b) (amount delta)) (\<lambda>v.
       set_balances (modify balance_key i (\<lambda>b. b\<lparr>ab_amount := v\<rparr>) (balances c1)) c1))))"

definition freeze_account_balance :: "fc_lib \<Rightarrow> string \<Rightarrow> asset \<Rightarrow> chain \<Rightarrow> chain result" where
  "freeze_account_balance L account a c =
     bindE (get_account_balance account (symbol a) c) (\<lambda>(i, b).
     require (ab_amount b \<ge> amount a) Insufficient_funds
      (bindE (sub L (ab_amount b) (amount a)) (\<lambda>v.
       bindE (add L (ab_frozen_amount b) (amount a)) (\<lambda>w.
         set_balances (modify balance_key i (\<lambda>b. b\<lparr>ab_amount := v, ab_frozen_amount := w\<rparr>) (balances c)) c))))"

definition unfreeze_account_balance :: "fc_lib \<Rightarrow> string \<Rightarrow> asset \<Rightarrow> chain \<Rightarrow> chain result" where
  "unfreeze_account_balance L account a c =
     bindE (get_account_balance account (symbol a) c) (\<lambda>(i, b).
     require (ab_frozen_amount b \<ge> amount a) Insufficient_funds
      (bindE (add L (ab_amount b) (amount a)) (\<lambda>v.
       bindE (sub L (ab_frozen_amount b) (amount a)) (\<lambda>w.
         set_balances (modify balance_key i (\<lambda>b. b\<lparr>ab_amount := v, ab_frozen_amount := w\<rparr>) (balances c)) c))))"

section \<open>Assets\<close>

definition set_assets :: "asset_object generic_index result \<Rightarrow> chain \<Rightarrow> chain result" where
  "set_assets r c = bindE r (\<lambda>t. Inr (c\<lparr>assets := t\<rparr>))"

definition set_researches :: "research_object generic_index result \<Rightarrow> chain \<Rightarrow> chain result" where
  "set_researches r c = bindE r (\<lambda>t. Inr (c\<lparr>researches := t\<rparr>))"

definition asset_exists_by_symbol :: "64 word \<Rightarrow> chain \<Rightarrow> bool" where
  "asset_exists_by_symbol sm c = (find_row (\<lambda>a. as_symbol a = sm) (assets c) \<noteq> None)"

definition get_asset_by_symbol :: "64 word \<Rightarrow> chain \<Rightarrow> (nat \<times> asset_object) result" where
  "get_asset_by_symbol sm c =
     the_or (Assert Not_found) (find_row (\<lambda>a. as_symbol a = sm) (assets c))"

definition get_asset_by_string_symbol :: "string \<Rightarrow> chain \<Rightarrow> (nat \<times> asset_object) result" where
  "get_asset_by_string_symbol s c =
     the_or (Assert Not_found) (find_row (\<lambda>a. as_string_symbol a = s) (assets c))"

definition get_assets_by_issuer :: "string \<Rightarrow> chain \<Rightarrow> (nat \<times> asset_object) list" where
  "get_assets_by_issuer issuer c = filter (\<lambda>(i, a). as_issuer a = issuer) (rows (assets c))"

definition get_assets_by_type :: "asset_type \<Rightarrow> chain \<Rightarrow> (nat \<times> asset_object) list" where
  "get_assets_by_type ty c = filter (\<lambda>(i, a). as_type a = ty) (rows (assets c))"

definition get_assets_by_tokenize_research :: "string option \<Rightarrow> chain \<Rightarrow> (nat \<times> asset_object) list" where
  "get_assets_by_tokenize_research r c =
     filter (\<lambda>(i, a). as_tokenized_research a = r) (rows (assets c))"

definition get_default_assets :: "chain \<Rightarrow> (nat \<times> asset_object) list" where
  "get_default_assets c = filter (\<lambda>(i, a). as_is_default a) (rows (assets c))"

definition create_asset ::
  "string \<Rightarrow> 64 word \<Rightarrow> string \<Rightarrow> nat \<Rightarrow> int \<Rightarrow> int \<Rightarrow> string \<Rightarrow> string option \<Rightarrow>
   percent option \<Rightarrow> bool \<Rightarrow> chain \<Rightarrow> chain result" where
  "create_asset issuer sm str prec cur mx descr tokenized share dflt c =
     require (cur \<le> mx) Limit_exceeded
       (set_assets
         (bindE (emplace asset_key
            \<lparr>as_symbol = sm, as_string_symbol = str, as_precision = prec, as_issuer = issuer,
             as_description = descr,
             as_type = (if tokenized = None then basic else research_security_token),
             as_tokenized_research = tokenized, as_license_revenue_holders_share = share,
             as_max_supply = mx, as_current_supply = cur, as_is_default = dflt\<rparr>
            (assets c)) (\<lambda>(i, t). Inr t)) c)"

definition adjust_asset_current_supply :: "fc_lib \<Rightarrow> nat \<Rightarrow> asset \<Rightarrow> chain \<Rightarrow> chain result" where
  "adjust_asset_current_supply L aid delta c =
     bindE (the_or Undefined_behaviour (lookup (assets c) aid)) (\<lambda>a.
     bindE (add L (as_current_supply a) (amount delta)) (\<lambda>v.
       require (v \<ge> 0) Limit_exceeded
      (require (v \<le> as_max_supply a) Limit_exceeded
        (set_assets (modify asset_key aid (\<lambda>a. a\<lparr>as_current_supply := v\<rparr>) (assets c)) c))))"

text \<open>
  A \<open>flat_set\<close> of assets is ordered by an \<open>operator<\<close> that throws on different symbols, so
  inserting next to an element with another symbol throws.
\<close>

fun find_token :: "64 word \<Rightarrow> asset list \<Rightarrow> asset option" where
  "find_token sm [] = None"
| "find_token sm (a # as) = (if symbol a = sm then Some a else find_token sm as)"

fun insert_token :: "asset \<Rightarrow> asset list \<Rightarrow> asset list result" where
  "insert_token a [] = Inr [a]"
| "insert_token a (b # bs) =
     (if symbol a \<noteq> symbol b then Inl (Assert Wrong_symbol)
      else if amount a < amount b then Inr (a # b # bs)
      else if amount a = amount b then Inr (b # bs)
      else bindE (insert_token a bs) (\<lambda>r. Inr (b # r)))"

fun set_token :: "64 word \<Rightarrow> int \<Rightarrow> asset list \<Rightarrow> asset list" where
  "set_token sm v [] = []"
| "set_token sm v (a # as) =
     (if symbol a = sm then a\<lparr>amount := v\<rparr> # as else a # set_token sm v as)"

definition get_research :: "string \<Rightarrow> chain \<Rightarrow> (nat \<times> research_object) result" where
  "get_research eid c = the_or (Assert Not_found) (find_row (\<lambda>r. rs_external_id r = eid) (researches c))"

definition get_research_by_id :: "nat \<Rightarrow> chain \<Rightarrow> research_object result" where
  "get_research_by_id rid c = the_or Out_of_range (lookup (researches c) rid)"

definition with_tokenized_research ::
  "nat \<Rightarrow> (asset_object \<Rightarrow> asset list \<Rightarrow> asset list result) \<Rightarrow> chain \<Rightarrow> chain result" where
  "with_tokenized_research aid f c =
     bindE (the_or Undefined_behaviour (lookup (assets c) aid)) (\<lambda>a.
       if as_type a = research_security_token
       then bindE (the_or Undefined_behaviour (as_tokenized_research a)) (\<lambda>eid.
            bindE (get_research eid c) (\<lambda>(rid, r).
            bindE (f a (rs_security_tokens r)) (\<lambda>tokens.
              set_researches
                (modify research_key rid (\<lambda>r. r\<lparr>rs_security_tokens := tokens\<rparr>) (researches c)) c)))
       else Inr c)"

definition issue_asset :: "fc_lib \<Rightarrow> nat \<Rightarrow> string \<Rightarrow> asset \<Rightarrow> chain \<Rightarrow> chain result" where
  "issue_asset L aid recipient a c =
     bindE (adjust_account_balance L recipient a c) (\<lambda>c1.
     bindE (adjust_asset_current_supply L aid a c1) (\<lambda>c2.
       with_tokenized_research aid
         (\<lambda>ao tokens. case find_token (as_symbol ao) tokens of
            Some t \<Rightarrow> bindE (add L (amount t) (amount a)) (\<lambda>v. Inr (set_token (as_symbol ao) v tokens))
          | None \<Rightarrow> insert_token a tokens) c2))"

definition reserve_asset :: "fc_lib \<Rightarrow> nat \<Rightarrow> string \<Rightarrow> asset \<Rightarrow> chain \<Rightarrow> chain result" where
  "reserve_asset L aid owner a c =
     bindE (asset_uminus L a) (\<lambda>na.
     bindE (adjust_account_balance L owner na c) (\<lambda>c1.
     bindE (adjust_asset_current_supply L aid na c1) (\<lambda>c2.
       with_tokenized_research aid
         (\<lambda>ao tokens. case find_token (as_symbol ao) tokens of
            Some t \<Rightarrow> bindE (sub L (amount t) (amount a)) (\<lambda>v. Inr (set_token (as_symbol ao) v tokens))
          | None \<Rightarrow> Inr tokens) c2)))"

section \<open>What the balance service keeps\<close>

definition balance_ok :: "account_balance_object \<Rightarrow> bool" where
  "balance_ok b \<longleftrightarrow> 0 \<le> ab_amount b \<and> int64 (ab_amount b) \<and>
     0 \<le> ab_frozen_amount b \<and> int64 (ab_frozen_amount b)"

definition balances_ok :: "fc_lib \<Rightarrow> chain \<Rightarrow> bool" where
  "balances_ok L c \<longleftrightarrow> safe_ok L \<and> wf_index balance_key (balances c) \<and>
     (\<forall>p\<in>set (rows (balances c)). balance_ok (snd p))"

definition holding :: "64 word \<Rightarrow> account_balance_object \<Rightarrow> int" where
  "holding s b = (if ab_symbol b = s then ab_amount b + ab_frozen_amount b else 0)"

definition held :: "chain \<Rightarrow> 64 word \<Rightarrow> int" where
  "held c s = sum_rows (holding s) (rows (balances c))"

definition spend :: "string \<Rightarrow> 64 word \<Rightarrow> account_balance_object \<Rightarrow> int" where
  "spend w s b = (if ab_owner b = w \<and> ab_symbol b = s then ab_amount b else 0)"

text \<open>What an account can spend of a symbol: zero when it has no balance object.\<close>

definition spendable :: "chain \<Rightarrow> string \<Rightarrow> 64 word \<Rightarrow> int" where
  "spendable c w s = sum_rows (spend w s) (rows (balances c))"

definition but_balances :: "chain \<Rightarrow> chain" where
  "but_balances c = c\<lparr>balances := empty_index\<rparr>"

lemma symp_balance_key [simp]: "symp balance_key"
  by (auto simp: symp_def balance_key_def)

lemma symp_keys [simp]:
  "symp asset_key" "symp research_key" "symp token_sale_key" "symp contribution_key" "symp no_key"
  "symp account_key" "symp research_group_key" "symp recent_entity_key"
  by (auto simp: symp_def asset_key_def research_key_def token_sale_key_def contribution_key_def
      no_key_def account_key_def research_group_key_def recent_entity_key_def)

lemma find_row_Some: "find_row P t = Some (i, v) \<Longrightarrow> (i, v) \<in> set (rows t) \<and> P v"
  by (auto simp: find_row_def find_Some_iff) (metis nth_mem)

lemma get_row_Inr: "get_row P t = Inr (i, v) \<Longrightarrow> (i, v) \<in> set (rows t) \<and> P v"
  by (simp add: get_row_def ok_iff find_row_Some)

lemma set_balances_Inr:
  "set_balances r c = Inr c' \<longleftrightarrow> (\<exists>t. r = Inr t \<and> c' = c\<lparr>balances := t\<rparr>)"
  by (auto simp: set_balances_def ok_iff)

lemma create_balance_law:
  assumes ok: "balances_ok L c" and cr: "create_account_balance w sm 0 c = Inr c'"
  shows "balances_ok L c' \<and> but_balances c' = but_balances c \<and> held c' s = held c s \<and>
    spendable c' v s = spendable c v s"
proof -
  obtain i t b where e: "emplace balance_key b (balances c) = Inr (i, t)" "c' = c\<lparr>balances := t\<rparr>"
    "ab_amount b = 0" "ab_frozen_amount b = 0"
    using cr by (auto simp: create_account_balance_def set_balances_Inr ok_iff split: prod.splits)
  have wf: "wf_index balance_key (balances c)" and all: "\<forall>p\<in>set (rows (balances c)). balance_ok (snd p)"
    using ok by (auto simp: balances_ok_def)
  have "balance_ok b"
    using e by (simp add: balance_ok_def int64_iff)
  then have "\<forall>p\<in>set (rows t). balance_ok (snd p)"
    using cb.all_emplace [OF wf e(1) all] by simp
  then show ?thesis
    using ok e cb.wf_emplace [OF symp_balance_key wf e(1)] cb.sum_emplace [OF wf e(1), of "holding s"]
      cb.sum_emplace [OF wf e(1), of "spend v s"]
    by (simp add: balances_ok_def but_balances_def held_def holding_def spendable_def spend_def)
qed

lemma modify_balance_law:
  assumes ok: "balances_ok L c" and m: "modify balance_key i f (balances c) = Inr t"
    and b: "(i, b) \<in> set (rows (balances c))" and f: "balance_ok (f b)" "ab_symbol (f b) = ab_symbol b"
  shows "balances_ok L (c\<lparr>balances := t\<rparr>) \<and> but_balances (c\<lparr>balances := t\<rparr>) = but_balances c \<and>
    held (c\<lparr>balances := t\<rparr>) s = held c s - holding s b + holding s (f b) \<and>
    spendable (c\<lparr>balances := t\<rparr>) v s = spendable c v s - spend v s b + spend v s (f b)"
proof -
  have wf: "wf_index balance_key (balances c)" and all: "\<forall>p\<in>set (rows (balances c)). balance_ok (snd p)"
    using ok by (auto simp: balances_ok_def)
  have "\<forall>p\<in>set (rows t). balance_ok (snd p)"
    by (rule cb.all_modify [OF m all]) (use f(1) b cb.mem_map_of [OF wf] in auto)
  then show ?thesis
    using ok cb.wf_modify [OF symp_balance_key wf m] cb.sum_modify [OF wf m b, of "holding s"]
      cb.sum_modify [OF wf m b, of "spend v s"]
    by (simp add: balances_ok_def but_balances_def held_def spendable_def)
qed

lemma adjust_balance_law:
  assumes ok: "balances_ok L c" and d: "int64 (amount d)"
    and adj: "adjust_account_balance L w d c = Inr c'"
  shows "balances_ok L c' \<and> but_balances c' = but_balances c \<and>
    held c' s = held c s + (if symbol d = s then amount d else 0) \<and>
    spendable c' v s = spendable c v s + (if v = w \<and> s = symbol d then amount d else 0)"
proof -
  obtain c1 i b u t where
    c1: "(if account_balance_exists w (symbol d) c then Inr c
          else create_account_balance w (symbol d) 0 c) = Inr c1"
    and b: "get_account_balance w (symbol d) c1 = Inr (i, b)"
    and neg: "amount d < 0 \<Longrightarrow> ab_amount b \<ge> - amount d"
    and u: "add L (ab_amount b) (amount d) = Inr u"
    and t: "modify balance_key i (\<lambda>b. b\<lparr>ab_amount := u\<rparr>) (balances c1) = Inr t" "c' = c1\<lparr>balances := t\<rparr>"
    using adj by (auto simp: adjust_account_balance_def set_balances_Inr ok_iff split: if_splits prod.splits)
  have ok1: "balances_ok L c1 \<and> but_balances c1 = but_balances c \<and> held c1 s = held c s \<and>
      spendable c1 v s = spendable c v s"
    using c1 ok create_balance_law by (auto split: if_splits)
  have mem: "(i, b) \<in> set (rows (balances c1))" "is_balance_of w (symbol d) b"
    using get_row_Inr [OF b [unfolded get_account_balance_def]] by simp_all
  then have bo: "balance_ok b"
    using ok1 by (auto simp: balances_ok_def)
  then have "u = ab_amount b + amount d" "int64 u"
    using u d add_ok [of L "ab_amount b" "amount d"] ok by (auto simp: balances_ok_def balance_ok_def)
  moreover from this have "balance_ok (b\<lparr>ab_amount := u\<rparr>)"
    using bo neg by (cases "amount d < 0") (auto simp: balance_ok_def)
  ultimately show ?thesis
    using modify_balance_law [OF _ t(1) mem(1), of L s v] ok1 t(2) mem(2)
    by (auto simp: holding_def spend_def is_balance_of_def)
qed

lemma freeze_balance_law:
  assumes ok: "balances_ok L c" and d: "int64 (amount d)" "0 \<le> amount d"
    and fr: "freeze_account_balance L w d c = Inr c'"
  shows "balances_ok L c' \<and> but_balances c' = but_balances c \<and> held c' s = held c s"
proof -
  obtain i b v u t where b: "get_account_balance w (symbol d) c = Inr (i, b)" "ab_amount b \<ge> amount d"
    and v: "sub L (ab_amount b) (amount d) = Inr v" "add L (ab_frozen_amount b) (amount d) = Inr u"
    and t: "modify balance_key i (\<lambda>b. b\<lparr>ab_amount := v, ab_frozen_amount := u\<rparr>) (balances c) = Inr t"
      "c' = c\<lparr>balances := t\<rparr>"
    using fr by (auto simp: freeze_account_balance_def set_balances_Inr ok_iff split: prod.splits)
  have mem: "(i, b) \<in> set (rows (balances c))"
    using get_row_Inr [OF b(1) [unfolded get_account_balance_def]] by simp
  then have bo: "balance_ok b"
    using ok by (auto simp: balances_ok_def)
  then have vu: "v = ab_amount b - amount d" "int64 v" "u = ab_frozen_amount b + amount d" "int64 u"
    using sub_D [OF v(1)] add_D [OF v(2)] d ok
    by (auto simp: balances_ok_def balance_ok_def)
  then have "balance_ok (b\<lparr>ab_amount := v, ab_frozen_amount := u\<rparr>)"
    using bo b(2) d by (auto simp: balance_ok_def)
  then show ?thesis
    using modify_balance_law [OF ok t(1) mem, of s] t(2) vu by (simp add: holding_def)
qed

lemma unfreeze_balance_law:
  assumes ok: "balances_ok L c" and d: "int64 (amount d)" "0 \<le> amount d"
    and fr: "unfreeze_account_balance L w d c = Inr c'"
  shows "balances_ok L c' \<and> but_balances c' = but_balances c \<and> held c' s = held c s"
proof -
  obtain i b v u t where b: "get_account_balance w (symbol d) c = Inr (i, b)" "ab_frozen_amount b \<ge> amount d"
    and v: "add L (ab_amount b) (amount d) = Inr v" "sub L (ab_frozen_amount b) (amount d) = Inr u"
    and t: "modify balance_key i (\<lambda>b. b\<lparr>ab_amount := v, ab_frozen_amount := u\<rparr>) (balances c) = Inr t"
      "c' = c\<lparr>balances := t\<rparr>"
    using fr by (auto simp: unfreeze_account_balance_def set_balances_Inr ok_iff split: prod.splits)
  have mem: "(i, b) \<in> set (rows (balances c))"
    using get_row_Inr [OF b(1) [unfolded get_account_balance_def]] by simp
  then have bo: "balance_ok b"
    using ok by (auto simp: balances_ok_def)
  then have vu: "v = ab_amount b + amount d" "int64 v" "u = ab_frozen_amount b - amount d" "int64 u"
    using add_D [OF v(1)] sub_D [OF v(2)] d ok
    by (auto simp: balances_ok_def balance_ok_def)
  then have "balance_ok (b\<lparr>ab_amount := v, ab_frozen_amount := u\<rparr>)"
    using bo b(2) d by (auto simp: balance_ok_def)
  then show ?thesis
    using modify_balance_law [OF ok t(1) mem, of s] t(2) vu by (simp add: holding_def)
qed

interpretation lg: token_ledger "balances_ok L" held spendable but_balances
    "adjust_account_balance L" "freeze_account_balance L" "unfreeze_account_balance L" for L
proof unfold_locales
  fix c c' d w v s
  show "balances_ok L c' \<and> but_balances c' = but_balances c \<and>
      held c' s = held c s + (if symbol d = s then amount d else 0)"
    if "balances_ok L c" "int64 (amount d)" "adjust_account_balance L w d c = Inr c'"
    using adjust_balance_law [OF that] by blast
  show "spendable c' v s = spendable c v s + (if v = w \<and> s = symbol d then amount d else 0)"
    if "balances_ok L c" "int64 (amount d)" "adjust_account_balance L w d c = Inr c'"
    using adjust_balance_law [OF that] by blast
qed (fact freeze_balance_law unfreeze_balance_law)+

end
