(* ===== verification/Validators.thy ===== *)
theory Validators
  imports Schema
begin

text \<open>
  The validators the operations share: names, hexadecimal identifiers and memos of
  \<open>libraries/protocol/include/deip/protocol/deip_operations.hpp\<close>, and the existence checks of
  \<open>libraries/chain/services/dbs_account.cpp\<close>.
\<close>

section \<open>Validators shared by the operations\<close>

definition DEIP_MAX_MEMO_SIZE :: nat where "DEIP_MAX_MEMO_SIZE = 2048"

definition validate_account_name :: "string \<Rightarrow> unit result" where
  "validate_account_name name = require (is_valid_account_name name) Bad_name (Inr ())"

definition isxdigit :: "char \<Rightarrow> bool" where
  "isxdigit c \<longleftrightarrow> isdigit c \<or> (97 \<le> (of_char c :: nat) \<and> (of_char c :: nat) \<le> 102) \<or>
     (65 \<le> (of_char c :: nat) \<and> (of_char c :: nat) \<le> 70)"

definition validate_hex :: "nat \<Rightarrow> string \<Rightarrow> unit result" where
  "validate_hex bytes str =
     require (length str div 2 = bytes) Bad_hex
    (require (list_all isxdigit str) Bad_hex
    (require (list_all (\<lambda>ch. if isdigit ch then True else islower ch) str) Bad_hex (Inr ())))"

definition validate_160_bits_hexadecimal_string :: "string \<Rightarrow> unit result" where
  "validate_160_bits_hexadecimal_string str = validate_hex 20 str"

definition validate_memo :: "fc_lib \<Rightarrow> string \<Rightarrow> unit result" where
  "validate_memo L memo =
     require (length memo < DEIP_MAX_MEMO_SIZE) Bad_size
    (require (is_utf8 L memo) Bad_text (Inr ()))"

definition account_exists :: "string \<Rightarrow> chain \<Rightarrow> bool" where
  "account_exists name c = (find_row (\<lambda>a. acc_name a = name) (accounts c) \<noteq> None)"

definition check_account_existence :: "string \<Rightarrow> chain \<Rightarrow> unit result" where
  "check_account_existence name c =
     require (find_row (\<lambda>a. acc_name a = name) (accounts c) \<noteq> None) Not_found (Inr ())"

end
