(* ===== verification/Supply.thy ===== *)
theory Supply
  imports Balances Validators
begin

text \<open>
  The supply invariant: the supply recorded in an asset object is the sum of what the
  accounts hold and of what contracts hold in escrow. The laws of the operations that
  change balances and supplies are proved here, once for every component that uses them,
  with the small chain the witnesses run on.
\<close>

section \<open>The supply invariant\<close>

text \<open>
  What contracts hold for the accounts: contributions to token sales that are not yet
  settled, the balances of vesting contracts, what funding opportunities can still award,
  and the balances of discipline supplies.
\<close>

definition locked :: "chain \<Rightarrow> 64 word \<Rightarrow> int" where
  "locked c s =
     sum_rows (\<lambda>v. if symbol (vb_balance v) = s then amount (vb_balance v) else 0) (rows (vestings c)) +
     sum_rows (\<lambda>g. if symbol (fo_current_supply g) = s then amount (fo_current_supply g) else 0) (rows (grants c)) +
     sum_rows (\<lambda>d. if symbol (ds_balance d) = s then amount (ds_balance d) else 0) (rows (discipline_supplies c))"

definition escrowed :: "chain \<Rightarrow> 64 word \<Rightarrow> int" where
  "escrowed c s =
     sum_rows (\<lambda>k. if symbol (tc_amount k) = s then amount (tc_amount k) else 0) (rows (contributions c)) +
     locked c s"

lemma locked_frame [simp]:
  "locked (c\<lparr>contributions := t1\<rparr>) s = locked c s" "locked (c\<lparr>token_sales := t2\<rparr>) s = locked c s"
  "locked (c\<lparr>balances := t3\<rparr>) s = locked c s" "locked (c\<lparr>assets := t4\<rparr>) s = locked c s"
  "locked (c\<lparr>researches := t5\<rparr>) s = locked c s" "locked (c\<lparr>recent_entities := t6\<rparr>) s = locked c s"
  "locked (c\<lparr>head_block_time := t7\<rparr>) s = locked c s" "locked (c\<lparr>awards := t8\<rparr>) s = locked c s"
  "locked (c\<lparr>award_recipients := t9\<rparr>) s = locked c s" "locked (c\<lparr>award_withdrawals := t10\<rparr>) s = locked c s"
  by (simp_all add: locked_def)

definition circulating :: "chain \<Rightarrow> 64 word \<Rightarrow> int" where
  "circulating c s = held c s + escrowed c s"

definition asset_ok :: "asset_object \<Rightarrow> bool" where
  "asset_ok a \<longleftrightarrow> 0 \<le> as_current_supply a \<and> as_current_supply a \<le> as_max_supply a \<and> int64 (as_max_supply a)"

definition supply_ok :: "fc_lib \<Rightarrow> chain \<Rightarrow> bool" where
  "supply_ok L c \<longleftrightarrow> balances_ok L c \<and> wf_index asset_key (assets c) \<and>
     (\<forall>p\<in>set (rows (assets c)). asset_ok (snd p) \<and>
        circulating c (as_symbol (snd p)) = as_current_supply (snd p))"

lemma but_balances_fields:
  assumes "but_balances c' = but_balances c"
  shows "assets c' = assets c" "contributions c' = contributions c" "vestings c' = vestings c"
    "escrowed c' s = escrowed c s" "head_block_time c' = head_block_time c"
    "token_sales c' = token_sales c" "researches c' = researches c"
    "research_groups c' = research_groups c" "accounts c' = accounts c" "group_tokens c' = group_tokens c"
    "grants c' = grants c" "discipline_supplies c' = discipline_supplies c" "disciplines c' = disciplines c"
    "awards c' = awards c" "award_recipients c' = award_recipients c" "award_withdrawals c' = award_withdrawals c"
    "locked c' s = locked c s"
  using assms by (cases c; cases c'; simp add: but_balances_def escrowed_def locked_def)+

lemma supply_ok_keep:
  assumes "supply_ok L c" "balances_ok L c'" "assets c' = assets c" "\<And>s. circulating c' s = circulating c s"
  shows "supply_ok L c'"
  using assms by (simp add: supply_ok_def)

lemma get_asset_D:
  "get_asset_by_symbol s c = Inr (aid, a) \<Longrightarrow> (aid, a) \<in> set (rows (assets c)) \<and> as_symbol a = s"
  unfolding get_asset_by_symbol_def the_or_ok by (drule find_row_Some) simp

lemma uminus_D:
  "asset_uminus L a = Inr b \<Longrightarrow> safe_ok L \<Longrightarrow> int64 (amount a) \<Longrightarrow>
   amount b = - amount a \<and> symbol b = symbol a \<and> int64 (amount b)"
  by (auto simp: asset_uminus_def ok_iff safe_ok_def)

lemma plus_D:
  "asset_plus L a b = Inr v \<Longrightarrow> safe_ok L \<Longrightarrow> int64 (amount a) \<Longrightarrow> int64 (amount b) \<Longrightarrow>
   symbol a = symbol b \<and> v = \<lparr>amount = amount a + amount b, symbol = symbol a\<rparr> \<and> int64 (amount a + amount b)"
  by (auto simp: asset_plus_def ok_iff dest: add_D)

lemma minus_D:
  "asset_minus L a b = Inr v \<Longrightarrow> safe_ok L \<Longrightarrow> int64 (amount a) \<Longrightarrow> int64 (amount b) \<Longrightarrow>
   symbol a = symbol b \<and> v = \<lparr>amount = amount a - amount b, symbol = symbol a\<rparr> \<and> int64 (amount a - amount b)"
  by (auto simp: asset_minus_def ok_iff dest: sub_D)

lemma ge_D: "asset_ge a b = Inr r \<Longrightarrow> symbol a = symbol b \<and> (r \<longleftrightarrow> amount b \<le> amount a)"
  by (auto simp: asset_ge_def asset_less_def ok_iff)

lemma asset_less_D: "asset_less a b = Inr r \<Longrightarrow> symbol a = symbol b \<and> (r \<longleftrightarrow> amount a < amount b)"
  by (auto simp: asset_less_def ok_iff)

lemma asset_gt_zero_D:
  "asset_gt a \<lparr>amount = 0, symbol = s\<rparr> = Inr r \<Longrightarrow> r \<Longrightarrow> 0 < amount a \<and> symbol a = s"
  by (cases a) (auto simp: asset_gt_def asset_le_def asset_less_def ok_iff split: if_splits)

lemma supply_law:
  assumes a: "adjust_asset_current_supply L aid d c = Inr c'" and L: "safe_ok L" "int64 (amount d)"
    and ok: "\<forall>p\<in>set (rows (assets c)). asset_ok (snd p)" and wf: "wf_index asset_key (assets c)"
  obtains a t where "(aid, a) \<in> set (rows (assets c))" "c' = c\<lparr>assets := t\<rparr>"
    "rows t = upd aid (a\<lparr>as_current_supply := as_current_supply a + amount d\<rparr>) (rows (assets c))"
    "wf_index asset_key t" "asset_ok (a\<lparr>as_current_supply := as_current_supply a + amount d\<rparr>)"
proof -
  obtain a v t where a: "map_of (rows (assets c)) aid = Some a" "add L (as_current_supply a) (amount d) = Inr v"
    "0 \<le> v" "v \<le> as_max_supply a" "c' = c\<lparr>assets := t\<rparr>"
    "modify asset_key aid (\<lambda>a. a\<lparr>as_current_supply := v\<rparr>) (assets c) = Inr t"
    using a by (auto simp: adjust_asset_current_supply_def set_assets_def ok_iff lookup_def)
  have mem: "(aid, a) \<in> set (rows (assets c))"
    using a(1) cb.mem_map_of [OF wf] by simp
  then have ao: "asset_ok a"
    using ok by auto
  then have "v = as_current_supply a + amount d"
    using add_D [OF a(2) L(1) _ L(2)] by (auto simp: asset_ok_def int64_iff)
  then show ?thesis
    using that [OF mem a(5)] cb.rows_modify_mem [OF wf a(6) mem] cb.wf_modify [OF symp_keys(1) wf a(6)]
      a(3,4) ao by (simp add: asset_ok_def)
qed

lemma with_tokenized_frame:
  assumes "with_tokenized_research aid f c = Inr c'"
  shows "\<exists>t. c' = c\<lparr>researches := t\<rparr>"
proof -
  have same: "c = c\<lparr>researches := researches c\<rparr>"
    by simp
  have "c' = c \<or> (\<exists>t. c' = c\<lparr>researches := t\<rparr>)"
    using assms
    by (simp add: with_tokenized_research_def set_researches_def ok_iff split: if_splits prod.splits) blast
  then show ?thesis
    using same by metis
qed

text \<open>Adjusting a balance and the supply by the same amount keeps the invariant.\<close>

lemma adjust_both:
  assumes ok: "supply_ok L c" and d: "int64 (amount d)" and a: "(aid, a) \<in> set (rows (assets c))"
    and sm: "as_symbol a = symbol d"
    and c1: "adjust_account_balance L w d c = Inr c1"
    and c2: "adjust_asset_current_supply L aid d c1 = Inr c2"
    and c3: "with_tokenized_research aid f c2 = Inr c3"
  shows "supply_ok L c3 \<and>
    spendable c3 v s = spendable c v s + (if v = w \<and> s = symbol d then amount d else 0) \<and>
    rows (assets c3) = upd aid (a\<lparr>as_current_supply := as_current_supply a + amount d\<rparr>) (rows (assets c))"
proof -
  have ok0: "balances_ok L c" "safe_ok L" "wf_index asset_key (assets c)"
    "\<forall>p\<in>set (rows (assets c)). asset_ok (snd p)"
    using ok by (auto simp: supply_ok_def balances_ok_def)
  note adj = lg.adjust_law [OF ok0(1) d c1] lg.adjust_spendable [OF ok0(1) d c1]
  have fr: "assets c1 = assets c" "escrowed c1 s' = escrowed c s'" for s'
    using adj(1) but_balances_fields by blast+
  obtain a' t where t: "(aid, a') \<in> set (rows (assets c1))" "c2 = c1\<lparr>assets := t\<rparr>"
    "rows t = upd aid (a'\<lparr>as_current_supply := as_current_supply a' + amount d\<rparr>) (rows (assets c1))"
    "wf_index asset_key t" "asset_ok (a'\<lparr>as_current_supply := as_current_supply a' + amount d\<rparr>)"
    by (rule supply_law [OF c2 ok0(2) d]) (use ok0(3,4) fr(1) in auto)
  have "a' = a"
    using t(1) a fr(1) cb.mem_map_of [OF ok0(3)] by simp
  note t = t [unfolded this fr(1)]
  obtain u where u: "c3 = c2\<lparr>researches := u\<rparr>"
    using with_tokenized_frame [OF c3] by blast
  have c: "balances c3 = balances c1" "assets c3 = t" "contributions c3 = contributions c1" "locked c3 s' = locked c1 s'" for s'
    by (simp_all add: u t(2))
  have circ: "circulating c3 s' = circulating c s' + (if symbol d = s' then amount d else 0)" for s'
    using adj(1) [of s'] fr(2) [of s'] by (simp add: circulating_def held_def escrowed_def c)
  have "asset_ok (snd p) \<and> circulating c3 (as_symbol (snd p)) = as_current_supply (snd p)"
    if "p \<in> set (rows t)" for p
  proof (cases "fst p = aid")
    case True
    then have "snd p = a\<lparr>as_current_supply := as_current_supply a + amount d\<rparr>"
      using that t(3) cb.mem_map_of [OF ok0(3)] a cb.rows_sorted [OF t(4)]
      by (cases p) (auto simp: in_set_map_of map_of_upd)
    moreover have "circulating c (as_symbol a) = as_current_supply a"
      using ok a by (auto simp: supply_ok_def)
    ultimately show ?thesis
      using t(5) circ [of "as_symbol a"] sm by simp
  next
    case False
    then have mem: "p \<in> set (rows (assets c))"
      using that t(3) set_upd [of "fst p" "snd p"] by (metis prod.collapse)
    then have "as_symbol (snd p) \<noteq> as_symbol a"
      using cb.rows_unique [OF ok0(3) _ a, of "fst p" "snd p"] False by (auto simp: asset_key_def)
    then show ?thesis
      using ok mem circ [of "as_symbol (snd p)"] sm by (auto simp: supply_ok_def)
  qed
  moreover have "balances_ok L c3"
    using adj(1) c(1) by (simp add: balances_ok_def)
  ultimately have "supply_ok L c3"
    using t(4) by (simp add: supply_ok_def c)
  then show ?thesis
    using adj(2) [of v s] by (simp add: c t(3) spendable_def)
qed

section \<open>A small chain\<close>

text \<open>A chain with two accounts, the core asset and a token that Alice issues.\<close>

definition TOK :: "64 word" where
  "TOK = 2 + 0x54 * 2 ^ 8 + 0x4F * 2 ^ 16 + 0x4B * 2 ^ 24"

definition demo_asset :: "64 word \<Rightarrow> string \<Rightarrow> int \<Rightarrow> asset_object" where
  "demo_asset s n supply = \<lparr>as_symbol = s, as_string_symbol = n, as_precision = 2, as_issuer = ''alice'',
     as_description = [], as_type = basic, as_tokenized_research = None,
     as_license_revenue_holders_share = None, as_max_supply = 1000, as_current_supply = supply,
     as_is_default = False\<rparr>"

definition demo_balance :: "string \<Rightarrow> int \<Rightarrow> int \<Rightarrow> account_balance_object" where
  "demo_balance w a f = \<lparr>ab_asset_id = 1, ab_symbol = TOK, ab_string_symbol = ''TOK'', ab_owner = w,
     ab_amount = a, ab_frozen_amount = f, ab_tokenized_research = None\<rparr>"

definition table :: "'v list \<Rightarrow> 'v generic_index" where
  "table vs = \<lparr>stack = [], revision = 0, next_id = length vs, rows = zip [0..<length vs] vs\<rparr>"

definition demo_chain :: chain where
  "demo_chain = empty_chain\<lparr>head_block_time := 100, trx_ref_block_num := 1, trx_ref_block_prefix := 2,
     accounts := table [\<lparr>acc_name = ''alice''\<rparr>, \<lparr>acc_name = ''bob''\<rparr>],
     assets := table [demo_asset DEIP_SYMBOL ''DEIP'' 0, demo_asset TOK ''TOK'' 60],
     balances := table [demo_balance ''alice'' 40 20]\<rparr>"

definition demo_group :: "string \<Rightarrow> string \<Rightarrow> research_group_object" where
  "demo_group name creator = \<lparr>rg_account = name, rg_creator = creator, rg_description = [], rg_is_personal = False,
     rg_is_dao = True, rg_is_centralized = False\<rparr>"

lemma DEIP_TOK [simp]: "DEIP_SYMBOL \<noteq> TOK" "TOK \<noteq> DEIP_SYMBOL"
  by (simp_all add: DEIP_SYMBOL_def TOK_def)

lemmas demo_defs = demo_chain_def empty_chain_def demo_group_def demo_asset_def demo_balance_def table_def empty_index_def

lemmas eval_store = account_exists_def
  account_balance_exists_def get_account_balance_def is_balance_of_def find_row_def get_row_def asset_ge_def
  asset_less_def asset_uminus_def adjust_account_balance_def create_account_balance_def set_balances_def
  asset_exists_by_symbol_def get_asset_by_symbol_def issue_asset_def reserve_asset_def
  adjust_asset_current_supply_def set_assets_def with_tokenized_research_def
  modify_def emplace_def lookup_def on_modify_def on_create_def balance_key_def asset_key_def
  raw_def add_def sub_def fc_ref_def checked_def int64_iff Let_def

lemma demo_supply_ok: "supply_ok fc_ref demo_chain"
  by (simp add: supply_ok_def balances_ok_def balance_ok_def wf_index_def wf_rows_def asset_ok_def
      circulating_def held_def holding_def escrowed_def locked_def demo_defs int64_iff balance_key_def asset_key_def)

end
