(* ===== verification/Token_Operations.thy ===== *)
theory Token_Operations
  imports Supply
begin

text \<open>
  The operations on tokens: \<open>transfer\<close>, \<open>create_asset\<close>, \<open>issue_asset\<close> and \<open>reserve_asset\<close>,
  each with its \<open>validate\<close> (\<open>libraries/protocol/deip_operations.cpp\<close>,
  \<open>libraries/protocol/operations/\<close>) and its evaluator
  (\<open>libraries/chain/deip_evaluator.cpp\<close>). The properties are about money: what the
  operations do to the spendable amounts, and that the supply recorded in an asset object
  is the sum of what the accounts hold and of what contracts hold in escrow.
\<close>

section \<open>Transfers\<close>

record transfer_operation =
  tr_from :: string
  tr_to :: string
  tr_amount :: asset
  tr_memo :: string

definition transfer_validate :: "fc_lib \<Rightarrow> transfer_operation \<Rightarrow> unit result" where
  "transfer_validate L op =
     bindE (validate_account_name (tr_from op)) (\<lambda>_.
     bindE (validate_account_name (tr_to op)) (\<lambda>_.
     require (amount (tr_amount op) > 0) Bad_amount (validate_memo L (tr_memo op))))"

definition transfer_apply :: "fc_lib \<Rightarrow> transfer_operation \<Rightarrow> chain \<Rightarrow> chain result" where
  "transfer_apply L op c =
     require (account_exists (tr_from op) c) Not_found
    (require (account_exists (tr_to op) c) Not_found
    (require (account_balance_exists (tr_from op) (symbol (tr_amount op)) c) Not_found
      (bindE (get_account_balance (tr_from op) (symbol (tr_amount op)) c) (\<lambda>(i, from_balance).
       bindE (asset_ge \<lparr>amount = ab_amount from_balance, symbol = ab_symbol from_balance\<rparr> (tr_amount op)) (\<lambda>ge.
       require ge Insufficient_funds
         (bindE (asset_uminus L (tr_amount op)) (\<lambda>na.
          bindE (adjust_account_balance L (tr_from op) na c) (\<lambda>c1.
            adjust_account_balance L (tr_to op) (tr_amount op) c1))))))))"

section \<open>Creating an asset\<close>

datatype asset_trait =
    research_security_token_trait string string
  | research_license_revenue_trait percent

record create_asset_operation =
  ca_issuer :: string
  ca_symbol :: string
  ca_precision :: nat
  ca_description :: string
  ca_max_supply :: int
  ca_traits :: "asset_trait list"

text \<open>
  The overloads of \<open>asset_trait_validator\<close> for the two kinds of traits. The loop of
  \<open>validate\<close> calls the validator on the \<open>static_variant\<close> itself and not through
  \<open>visit\<close>, so overload resolution takes the template, whose body is empty
  (\<open>asset_trait_validator_any\<close>); the same holds of the authority extractor.
\<close>

fun asset_trait_validate :: "asset_trait \<Rightarrow> unit result" where
  "asset_trait_validate (research_security_token_trait research grp) =
     bindE (validate_account_name grp) (\<lambda>_. validate_160_bits_hexadecimal_string research)"
| "asset_trait_validate (research_license_revenue_trait holders_share) =
     bindE (percent_precision (pc_decimals holders_share)) (\<lambda>prec.
     bindE (raw (100 * prec)) (\<lambda>v.
     bindE (mk_percent v (pc_decimals holders_share)) (\<lambda>full_share.
     bindE (percent_eq holders_share full_share) (\<lambda>eq.
       require eq Bad_share (Inr ())))))"

definition asset_trait_validator_any :: "asset_trait \<Rightarrow> unit result" where
  "asset_trait_validator_any t = Inr ()"

definition asset_trait_auth_extractor_any :: "asset_trait \<Rightarrow> string set \<Rightarrow> string set" where
  "asset_trait_auth_extractor_any t a = a"

definition create_asset_active_authorities :: "create_asset_operation \<Rightarrow> string set" where
  "create_asset_active_authorities op = fold asset_trait_auth_extractor_any (ca_traits op) {ca_issuer op}"

definition create_asset_validate :: "fc_lib \<Rightarrow> create_asset_operation \<Rightarrow> unit result" where
  "create_asset_validate L op =
     bindE (validate_account_name (ca_issuer op)) (\<lambda>_.
     require (length (ca_symbol op) > 0 \<and> length (ca_symbol op) < 7) Bad_size
    (require (is_utf8 L (ca_symbol op)) Bad_text
    (require (ca_precision op < 15) Bad_precision
    (require (ca_max_supply op \<le> DEIP_MAX_SHARE_SUPPLY) Limit_exceeded
    (require (length (ca_description op) > 0 \<longrightarrow> is_utf8 L (ca_description op)) Bad_text
      (foldE (\<lambda>t _. asset_trait_validator_any t) (ca_traits op) ()))))))"

definition get_research_group_by_account :: "string \<Rightarrow> chain \<Rightarrow> (nat \<times> research_group_object) result" where
  "get_research_group_by_account account c =
     the_or (Assert Not_found) (find_row (\<lambda>g. rg_account g = account) (research_groups c))"

fun apply_trait ::
  "chain \<Rightarrow> asset_trait \<Rightarrow> string option \<times> percent option \<Rightarrow> (string option \<times> percent option) result" where
  "apply_trait c (research_security_token_trait eid grp) (tokenized, share) =
     bindE (get_research eid c) (\<lambda>(rid, research).
     bindE (get_research_group_by_account grp c) (\<lambda>(gid, research_group).
       require (rg_account research_group = rs_research_group research) Not_authorized
         (Inr (Some (rs_external_id research), share))))"
| "apply_trait c (research_license_revenue_trait holders_share) (tokenized, share) =
     Inr (tokenized, Some holders_share)"

definition create_asset_apply :: "fc_lib \<Rightarrow> create_asset_operation \<Rightarrow> chain \<Rightarrow> chain result" where
  "create_asset_apply L op c =
     bindE (if (10::int) ^ ca_precision op < 2 ^ 31 then Inr (10 ^ ca_precision op) else Inl Undefined_behaviour) (\<lambda>p.
     bindE (asset_from_string L (''0.'' @ tl (to_string L p) @ '' '' @ ca_symbol op)) (\<lambda>new_asset.
     require (account_exists (ca_issuer op) c) Not_found
    (require (\<not> asset_exists_by_symbol (symbol new_asset) c) Already_exists
      (bindE (foldE (apply_trait c) (ca_traits op) (None, None)) (\<lambda>(tokenized_research, holders_share).
         create_asset (ca_issuer op) (symbol new_asset) (ca_symbol op) (ca_precision op) 0
           (ca_max_supply op) (ca_description op) tokenized_research holders_share False c)))))"

section \<open>Issuing and reserving\<close>

record issue_asset_operation =
  is_issuer :: string
  is_recipient :: string
  is_amount :: asset
  is_memo :: "string option"

definition issue_asset_validate :: "fc_lib \<Rightarrow> issue_asset_operation \<Rightarrow> unit result" where
  "issue_asset_validate L op =
     bindE (validate_account_name (is_issuer op)) (\<lambda>_.
     bindE (validate_account_name (is_recipient op)) (\<lambda>_.
     require (symbol (is_amount op) \<noteq> DEIP_SYMBOL) Wrong_symbol
    (require (amount (is_amount op) > 0) Bad_amount
      (case is_memo op of None \<Rightarrow> Inr () | Some memo \<Rightarrow> validate_memo L memo))))"

definition issue_asset_apply :: "fc_lib \<Rightarrow> issue_asset_operation \<Rightarrow> chain \<Rightarrow> chain result" where
  "issue_asset_apply L op c =
     require (account_exists (is_issuer op) c) Not_found
    (require (account_exists (is_recipient op) c) Not_found
    (require (asset_exists_by_symbol (symbol (is_amount op)) c) Not_found
      (bindE (get_asset_by_symbol (symbol (is_amount op)) c) (\<lambda>(aid, a).
         require (is_issuer op = as_issuer a) Not_authorized
           (issue_asset L aid (is_recipient op) (is_amount op) c)))))"

record reserve_asset_operation =
  ra_owner :: string
  ra_amount :: asset

definition reserve_asset_validate :: "reserve_asset_operation \<Rightarrow> unit result" where
  "reserve_asset_validate op =
     bindE (validate_account_name (ra_owner op)) (\<lambda>_.
     require (symbol (ra_amount op) \<noteq> DEIP_SYMBOL) Wrong_symbol
    (require (amount (ra_amount op) > 0) Bad_amount (Inr ())))"

definition reserve_asset_apply :: "fc_lib \<Rightarrow> reserve_asset_operation \<Rightarrow> chain \<Rightarrow> chain result" where
  "reserve_asset_apply L op c =
     require (account_exists (ra_owner op) c) Not_found
    (require (asset_exists_by_symbol (symbol (ra_amount op)) c) Not_found
    (require (account_balance_exists (ra_owner op) (symbol (ra_amount op)) c) Not_found
      (bindE (get_asset_by_symbol (symbol (ra_amount op)) c) (\<lambda>(aid, a).
         reserve_asset L aid (ra_owner op) (ra_amount op) c))))"

section \<open>Properties\<close>

lemmas eval_balance = transfer_apply_def issue_asset_apply_def reserve_asset_apply_def eval_store

text \<open>
  C13. A transfer moves exactly its amount: the sender could spend it, the receiver gains
  it, every other account and every other symbol keeps what it had, nothing but balances
  changes, and supplies still account for every token.
\<close>

theorem transfer_exact:
  assumes "supply_ok L c" "transfer_validate L op = Inr ()" "int64 (amount (tr_amount op))"
    and ap: "transfer_apply L op c = Inr c'"
  shows "supply_ok L c' \<and> but_balances c' = but_balances c \<and> 0 < amount (tr_amount op) \<and>
    spendable c' v s = spendable c v s +
      (if s \<noteq> symbol (tr_amount op) then 0
       else (if v = tr_to op then amount (tr_amount op) else 0) -
            (if v = tr_from op then amount (tr_amount op) else 0))"
proof -
  have ok: "balances_ok L c" "safe_ok L"
    using assms(1) by (auto simp: supply_ok_def balances_ok_def)
  obtain na c1 where na: "asset_uminus L (tr_amount op) = Inr na"
    and c1: "adjust_account_balance L (tr_from op) na c = Inr c1"
    and c2: "adjust_account_balance L (tr_to op) (tr_amount op) c1 = Inr c'"
    using ap by (auto simp: transfer_apply_def ok_iff split: prod.splits)
  note neg = uminus_D [OF na ok(2) assms(3)]
  have pos: "0 < amount (tr_amount op)"
    using assms(2) by (auto simp: transfer_validate_def ok_iff)
  have kept: "balances_ok L c' \<and> but_balances c' = but_balances c \<and> held c' s = held c s" for s
    using neg by (intro lg.move [OF ok(1) assms(3) _ _ _ c1 c2]) auto
  then have "supply_ok L c'"
    using but_balances_fields [of c' c] by (intro supply_ok_keep [OF assms(1)]) (auto simp: circulating_def)
  then show ?thesis
    using kept pos neg lg.move_spendable [OF ok(1) assms(3) _ _ _ c1 c2, of v s] by auto
qed

definition demo_transfer :: transfer_operation where
  "demo_transfer = \<lparr>tr_from = ''alice'', tr_to = ''bob'', tr_amount = \<lparr>amount = 15, symbol = TOK\<rparr>, tr_memo = []\<rparr>"

lemma valid_demo_names [simp]: "is_valid_account_name ''alice''" "is_valid_account_name ''bob''"
proof -
  have "islower CHR ''a''" "islower CHR ''l''" "islower CHR ''i''" "islower CHR ''c''" "islower CHR ''e''"
    "islower CHR ''b''" "islower CHR ''o''"
    by (simp_all add: islower_def)
  then show "is_valid_account_name ''alice''" "is_valid_account_name ''bob''"
    unfolding is_valid_account_name_def
    using valid_labels_iff [of 0 "''alice''"] valid_labels_iff [of 0 "''bob''"]
    by (simp_all add: DEIP_MIN_ACCOUNT_NAME_LENGTH_def DEIP_MAX_ACCOUNT_NAME_LENGTH_def label_ok_def)
qed

lemma transfer_exact_witness:
  "\<exists>c'. transfer_apply fc_ref demo_transfer demo_chain = Inr c' \<and>
     spendable c' ''bob'' TOK = spendable demo_chain ''bob'' TOK + 15"
proof -
  have "\<exists>c'. transfer_apply fc_ref demo_transfer demo_chain = Inr c'"
    by (simp add: demo_transfer_def demo_defs eval_balance)
  then obtain c' where c': "transfer_apply fc_ref demo_transfer demo_chain = Inr c'" ..
  have "transfer_validate fc_ref demo_transfer = Inr ()" "int64 (amount (tr_amount demo_transfer))"
    by (simp_all add: transfer_validate_def validate_account_name_def validate_memo_def demo_transfer_def
        DEIP_MAX_MEMO_SIZE_def fc_ref_def int64_iff)
  from transfer_exact [OF demo_supply_ok this c', of "''bob''" TOK] c' show ?thesis
    by (auto simp: demo_transfer_def)
qed

text \<open>
  Issuing an asset gives the recipient exactly the amount, only the issuer can do it,
  the supply grows by the same amount and stays within the maximum, and supplies still
  account for every token.
\<close>

theorem issue_asset_exact:
  assumes "supply_ok L c" "issue_asset_validate L op = Inr ()" "int64 (amount (is_amount op))"
    and ap: "issue_asset_apply L op c = Inr c'"
  shows "supply_ok L c' \<and>
    spendable c' v s = spendable c v s +
      (if v = is_recipient op \<and> s = symbol (is_amount op) then amount (is_amount op) else 0) \<and>
    (\<exists>aid a. (aid, a) \<in> set (rows (assets c)) \<and> as_symbol a = symbol (is_amount op) \<and>
       as_issuer a = is_issuer op \<and> 0 < amount (is_amount op) \<and>
       as_current_supply a + amount (is_amount op) \<le> as_max_supply a \<and>
       rows (assets c') = upd aid (a\<lparr>as_current_supply := as_current_supply a + amount (is_amount op)\<rparr>)
         (rows (assets c)))"
proof -
  obtain aid a c1 c2 f where a: "get_asset_by_symbol (symbol (is_amount op)) c = Inr (aid, a)" "is_issuer op = as_issuer a"
    and c1: "adjust_account_balance L (is_recipient op) (is_amount op) c = Inr c1"
    and c2: "adjust_asset_current_supply L aid (is_amount op) c1 = Inr c2"
    and c3: "with_tokenized_research aid f c2 = Inr c'"
    using ap by (auto simp: issue_asset_apply_def issue_asset_def ok_iff split: prod.splits)
  have mem: "(aid, a) \<in> set (rows (assets c))" "as_symbol a = symbol (is_amount op)"
    using get_asset_D [OF a(1)] by simp_all
  have pos: "0 < amount (is_amount op)"
    using assms(2) by (auto simp: issue_asset_validate_def ok_iff)
  note both = adjust_both [OF assms(1,3) mem c1 c2 c3, of v s]
  then have "(aid, a\<lparr>as_current_supply := as_current_supply a + amount (is_amount op)\<rparr>) \<in> set (rows (assets c'))"
    using mem(1) by (force simp: upd_def)
  then have "as_current_supply a + amount (is_amount op) \<le> as_max_supply a"
    using both by (force simp: supply_ok_def asset_ok_def)
  then show ?thesis
    using both mem a(2) pos by auto
qed

definition demo_issue :: issue_asset_operation where
  "demo_issue = \<lparr>is_issuer = ''alice'', is_recipient = ''bob'', is_amount = \<lparr>amount = 7, symbol = TOK\<rparr>, is_memo = None\<rparr>"

lemma issue_asset_exact_witness:
  "\<exists>c'. issue_asset_apply fc_ref demo_issue demo_chain = Inr c' \<and> supply_ok fc_ref c' \<and>
     spendable c' ''bob'' TOK = spendable demo_chain ''bob'' TOK + 7"
proof -
  have "\<exists>c'. issue_asset_apply fc_ref demo_issue demo_chain = Inr c'"
    by (simp add: demo_issue_def demo_defs eval_balance)
  then obtain c' where c': "issue_asset_apply fc_ref demo_issue demo_chain = Inr c'" ..
  have "issue_asset_validate fc_ref demo_issue = Inr ()" "int64 (amount (is_amount demo_issue))"
    by (simp_all add: issue_asset_validate_def validate_account_name_def demo_issue_def int64_iff)
  from issue_asset_exact [OF demo_supply_ok this c', of "''bob''" TOK] c' show ?thesis
    by (auto simp: demo_issue_def)
qed

text \<open>
  Reserving (burning) takes exactly the amount from what the owner can spend and from
  the supply, and supplies still account for every token.
\<close>

theorem reserve_asset_exact:
  assumes "supply_ok L c" "reserve_asset_validate op = Inr ()" "int64 (amount (ra_amount op))"
    and ap: "reserve_asset_apply L op c = Inr c'"
  shows "supply_ok L c' \<and>
    spendable c' v s = spendable c v s -
      (if v = ra_owner op \<and> s = symbol (ra_amount op) then amount (ra_amount op) else 0) \<and>
    (\<exists>aid a. (aid, a) \<in> set (rows (assets c)) \<and> as_symbol a = symbol (ra_amount op) \<and>
       rows (assets c') = upd aid (a\<lparr>as_current_supply := as_current_supply a - amount (ra_amount op)\<rparr>)
         (rows (assets c)))"
proof -
  obtain aid a na c1 c2 f where a: "get_asset_by_symbol (symbol (ra_amount op)) c = Inr (aid, a)"
    and na: "asset_uminus L (ra_amount op) = Inr na"
    and c1: "adjust_account_balance L (ra_owner op) na c = Inr c1"
    and c2: "adjust_asset_current_supply L aid na c1 = Inr c2"
    and c3: "with_tokenized_research aid f c2 = Inr c'"
    using ap by (auto simp: reserve_asset_apply_def reserve_asset_def ok_iff split: prod.splits)
  have "safe_ok L"
    using assms(1) by (simp add: supply_ok_def balances_ok_def)
  note neg = uminus_D [OF na this assms(3)]
  have mem: "(aid, a) \<in> set (rows (assets c))" "as_symbol a = symbol na"
    using get_asset_D [OF a(1)] neg by simp_all
  from adjust_both [OF assms(1) _ mem c1 c2 c3, of v s] neg mem show ?thesis
    by (intro conjI exI [of _ aid] exI [of _ a]) auto
qed

definition demo_reserve :: reserve_asset_operation where
  "demo_reserve = \<lparr>ra_owner = ''alice'', ra_amount = \<lparr>amount = 40, symbol = TOK\<rparr>\<rparr>"

lemma reserve_asset_exact_witness:
  "\<exists>c'. reserve_asset_apply fc_ref demo_reserve demo_chain = Inr c' \<and> supply_ok fc_ref c' \<and>
     spendable c' ''alice'' TOK = spendable demo_chain ''alice'' TOK - 40"
proof -
  have "\<exists>c'. reserve_asset_apply fc_ref demo_reserve demo_chain = Inr c'"
    by (simp add: demo_reserve_def demo_defs eval_balance)
  then obtain c' where c': "reserve_asset_apply fc_ref demo_reserve demo_chain = Inr c'" ..
  have "reserve_asset_validate demo_reserve = Inr ()" "int64 (amount (ra_amount demo_reserve))"
    by (simp_all add: reserve_asset_validate_def validate_account_name_def demo_reserve_def int64_iff)
  from reserve_asset_exact [OF demo_supply_ok this c', of "''alice''" TOK] c' show ?thesis
    by (auto simp: demo_reserve_def)
qed

section \<open>Who can tokenize a research\<close>

lemma foldE_trivial: "(\<And>x. x \<in> set xs \<Longrightarrow> f x () = Inr ()) \<Longrightarrow> foldE f xs () = Inr ()"
  by (induction xs) auto

text \<open>
  C22. The traits of a new asset are neither validated nor do they demand anybody's
  authority: the operation validates exactly when it does without its traits, only the
  issuer has to sign, and any issuer that is an account can so create the security token
  of a research of somebody else's group by naming that group in the trait.
\<close>

theorem traits_need_no_authority:
  assumes "get_research eid c = Inr (rid, research)" "get_research_group_by_account grp c = Inr (gid, rg)"
    and "ca_traits op = [research_security_token_trait eid grp]" "wf_index asset_key (assets c)"
    and ap: "create_asset_apply L op c = Inr c'"
  shows "create_asset_active_authorities op = {ca_issuer op} \<and>
    create_asset_validate L op = create_asset_validate L (op\<lparr>ca_traits := []\<rparr>) \<and>
    (\<exists>aid a. rows (assets c') = rows (assets c) @ [(aid, a)] \<and> as_issuer a = ca_issuer op \<and>
       as_type a = research_security_token \<and> as_tokenized_research a = Some (rs_external_id research))"
proof -
  have "create_asset_active_authorities op = {ca_issuer op}"
    by (simp add: create_asset_active_authorities_def assms(3) asset_trait_auth_extractor_any_def)
  moreover have "create_asset_validate L op = create_asset_validate L (op\<lparr>ca_traits := []\<rparr>)"
    by (simp add: create_asset_validate_def foldE_trivial asset_trait_validator_any_def)
  moreover obtain aid a t where "emplace asset_key a (assets c) = Inr (aid, t)" "c' = c\<lparr>assets := t\<rparr>"
    "as_issuer a = ca_issuer op" "as_type a = research_security_token"
    "as_tokenized_research a = Some (rs_external_id research)"
    using ap by (auto simp: create_asset_apply_def create_asset_def set_assets_def ok_iff assms(1-3)
        split: prod.splits)
  ultimately show ?thesis
    using cb.emplace_law [OF assms(4)] by auto
qed

definition demo_security_operation :: create_asset_operation where
  "demo_security_operation = \<lparr>ca_issuer = ''bob'', ca_symbol = ''SEC'', ca_precision = 0, ca_description = [],
     ca_max_supply = 1000, ca_traits = [research_security_token_trait ''research'' ''group'']\<rparr>"

definition demo_research_chain :: chain where
  "demo_research_chain = demo_chain\<lparr>
     researches := table [\<lparr>rs_external_id = ''research'', rs_research_group_id = 0,
                           rs_research_group = ''group'', rs_security_tokens = []\<rparr>],
     research_groups := table [demo_group ''group'' ''alice'']\<rparr>"

lemma demo_symbol: "asset_from_string fc_ref ''0. SEC'' = Inr \<lparr>amount = 0, symbol = of_bytes [0, 83, 69, 67, 0, 0, 0, 0]\<rparr>"
proof -
  have "trim fc_ref ''0. SEC'' = ''0. SEC''" "to_int64 fc_ref ''0'' = Some 0" "to_int64 fc_ref ''1'' = Some 1"
    by (simp_all add: fc_ref_def blank_def parse_int_def is_digit_def int64_iff)
  moreover have "of_bytes [0, 0, 0, 0, 0, 0, 0, 0] = 0"
    by (simp add: of_bytes_def)
  moreover have "map of_char ''SEC'' = [83, 69, 67 :: nat]"
    by code_simp
  moreover have "replicate 7 (0 :: nat) = [0, 0, 0, 0, 0, 0, 0]" "replicate 8 (0 :: nat) = [0, 0, 0, 0, 0, 0, 0, 0]"
    by (simp_all add: numeral_eq_Suc)
  ultimately show ?thesis
    by (simp add: asset_from_string_def find_char_def set_decimals_0 precision_def decimals_def sym_bytes_0
        precision_table_def raw_def int64_iff memcpy_name_def)
qed

lemma traits_need_no_authority_witness:
  "\<exists>c' aid a. create_asset_apply fc_ref demo_security_operation demo_research_chain = Inr c' \<and>
     (aid, a) \<in> set (rows (assets c')) \<and> as_issuer a = ''bob'' \<and> as_tokenized_research a = Some ''research''"
proof -
  have neq: "of_bytes [0, 83, 69, 67, 0, 0, 0, 0] \<noteq> TOK" "of_bytes [0, 83, 69, 67, 0, 0, 0, 0] \<noteq> DEIP_SYMBOL"
    by (simp_all add: of_bytes_def TOK_def DEIP_SYMBOL_def)
  have dec: "to_string fc_ref 1 = ''1''"
    by (simp add: fc_ref_def decimal_def digits.simps)
  have g: "get_research ''research'' demo_research_chain = Inr (0, \<lparr>rs_external_id = ''research'', rs_research_group_id = 0,
      rs_research_group = ''group'', rs_security_tokens = []\<rparr>)"
    "get_research_group_by_account ''group'' demo_research_chain = Inr (0, demo_group ''group'' ''alice'')"
    by (simp_all add: get_research_def get_research_group_by_account_def find_row_def demo_research_chain_def table_def demo_group_def)
  have traits: "foldE (apply_trait demo_research_chain) (ca_traits demo_security_operation) (None, None) =
      Inr (Some ''research'', None)"
    by (simp add: demo_security_operation_def g demo_group_def)
  have pre: "account_exists ''bob'' demo_research_chain"
    "\<not> asset_exists_by_symbol (of_bytes [0, 83, 69, 67, 0, 0, 0, 0]) demo_research_chain"
    using neq by (simp_all add: account_exists_def asset_exists_by_symbol_def find_row_def demo_research_chain_def
        demo_chain_def table_def demo_asset_def)
  have create: "\<exists>c'. create_asset ''bob'' (of_bytes [0, 83, 69, 67, 0, 0, 0, 0]) ''SEC'' 0 0 1000 [] (Some ''research'') None False
      demo_research_chain = Inr c'"
    using neq by (simp add: create_asset_def set_assets_def emplace_def asset_key_def demo_research_chain_def
        demo_chain_def table_def demo_asset_def)
  have parsed: "asset_from_string fc_ref (''0.'' @ tl (to_string fc_ref 1) @ '' '' @ ''SEC'') =
      Inr \<lparr>amount = 0, symbol = of_bytes [0, 83, 69, 67, 0, 0, 0, 0]\<rparr>"
    unfolding dec using demo_symbol by simp
  have "create_asset_apply fc_ref demo_security_operation demo_research_chain =
      create_asset ''bob'' (of_bytes [0, 83, 69, 67, 0, 0, 0, 0]) ''SEC'' 0 0 1000 [] (Some ''research'') None False
        demo_research_chain"
    unfolding create_asset_apply_def traits using pre parsed by (simp add: demo_security_operation_def)
  then have "\<exists>c'. create_asset_apply fc_ref demo_security_operation demo_research_chain = Inr c'"
    using create by simp
  then obtain c' where c': "create_asset_apply fc_ref demo_security_operation demo_research_chain = Inr c'" ..
  have "wf_index asset_key (assets demo_research_chain)"
    using demo_supply_ok by (simp add: supply_ok_def demo_research_chain_def)
  note w = this
  have "ca_traits demo_security_operation = [research_security_token_trait ''research'' ''group'']"
    by (simp add: demo_security_operation_def)
  from traits_need_no_authority [OF g this w c'] obtain aid a where
    "rows (assets c') = rows (assets demo_research_chain) @ [(aid, a)]"
    "as_issuer a = ''bob''" "as_tokenized_research a = Some ''research''"
    by (elim conjE exE) (simp add: demo_security_operation_def)
  then show ?thesis
    using c' by (metis in_set_conv_decomp)
qed

end
