(* ===== verification/Floats.thy ===== *)
theory Floats
  imports Prelude
begin

text \<open>
  The \<open>double\<close> arithmetic the chain uses to turn a contribution into a percentage: IEEE
  binary64 with rounding to nearest, ties to even, on nonnegative rationals (the code
  divides two nonnegative 64-bit amounts, so nothing overflows or becomes subnormal), and
  \<open>std::round\<close>, which rounds halves away from zero.
\<close>

function bits :: "int \<Rightarrow> nat" where
  "bits n = (if n \<le> 0 then 0 else Suc (bits (n div 2)))"
  by auto
termination
  by (relation "measure nat") auto

declare bits.simps [simp del]

definition round_even :: "rat \<Rightarrow> int" where
  "round_even y =
     (let f = floor y; d = y - of_int f
      in if d < 1 / 2 then f
         else if d > 1 / 2 then f + 1
         else if even f then f else f + 1)"

definition pow2 :: "int \<Rightarrow> rat" where
  "pow2 e = (if e \<ge> 0 then 2 ^ nat e else 1 / 2 ^ nat (- e))"

text \<open>The binary64 number nearest to a nonnegative rational: 53 significant bits.\<close>

definition double :: "rat \<Rightarrow> rat" where
  "double x =
     (if x = 0 then 0
      else
        let (p, q) = quotient_of x;
            k = int (bits p) - int (bits q);
            e = (if x \<ge> pow2 k then k - 52 else k - 53)
        in of_int (round_even (x / pow2 e)) * pow2 e)"

definition std_round :: "rat \<Rightarrow> int" where
  "std_round x = (if x \<ge> 0 then floor (x + 1 / 2) else - floor (- x + 1 / 2))"

end
