(* ===== verification/Token_Sale.thy ===== *)
theory Token_Sale
  imports Token_Operations Floats
begin

text \<open>
  Sales of research security tokens:
  \<open>libraries/chain/services/dbs_research_token_sale.cpp\<close> and the evaluators
  \<open>create_research_token_sale\<close> and \<open>contribute_to_token_sale\<close> of
  \<open>libraries/chain/deip_evaluator.cpp\<close>. The rows of a sale's contributions are read in the
  order of their ids, which is the order of the \<open>by_research_token_sale_id\<close> index.
\<close>

section \<open>The service\<close>

definition set_token_sales ::
  "research_token_sale_object generic_index result \<Rightarrow> chain \<Rightarrow> chain result" where
  "set_token_sales r c = bindE r (\<lambda>t. Inr (c\<lparr>token_sales := t\<rparr>))"

definition set_contributions :: "contribution_object generic_index result \<Rightarrow> chain \<Rightarrow> chain result" where
  "set_contributions r c = bindE r (\<lambda>t. Inr (c\<lparr>contributions := t\<rparr>))"

definition get_token_sale :: "nat \<Rightarrow> chain \<Rightarrow> research_token_sale_object result" where
  "get_token_sale i c = the_or Out_of_range (lookup (token_sales c) i)"

definition get_token_sales_by_status ::
  "nat \<Rightarrow> token_sale_status \<Rightarrow> chain \<Rightarrow> (nat \<times> research_token_sale_object) list" where
  "get_token_sales_by_status rid st c =
     filter (\<lambda>(i, s). ts_research_id s = rid \<and> ts_status s = st) (rows (token_sales c))"

definition sale_contributions :: "nat \<Rightarrow> chain \<Rightarrow> (nat \<times> contribution_object) list" where
  "sale_contributions i c =
     filter (\<lambda>p. tc_research_token_sale_id (snd p) = i) (rows (contributions c))"

definition create_recent_entity :: "string \<Rightarrow> chain \<Rightarrow> chain result" where
  "create_recent_entity eid c =
     bindE (emplace recent_entity_key
       \<lparr>re_external_id = eid, re_ref_block_num = trx_ref_block_num c,
        re_ref_block_prefix = trx_ref_block_prefix c, re_created_at = head_block_time c\<rparr>
       (recent_entities c)) (\<lambda>(i, t). Inr (c\<lparr>recent_entities := t\<rparr>))"

definition entity_exists :: "string \<Rightarrow> chain \<Rightarrow> bool" where
  "entity_exists eid c = (find_row (\<lambda>e. re_external_id e = eid) (recent_entities c) \<noteq> None)"

definition create_research_token_sale ::
  "string \<Rightarrow> nat \<Rightarrow> research_object \<Rightarrow> asset list \<Rightarrow> int \<Rightarrow> int \<Rightarrow> asset \<Rightarrow> asset \<Rightarrow> chain \<Rightarrow> chain result" where
  "create_research_token_sale eid rid research tokens start_time end_time soft_cap hard_cap c =
     require (start_time \<ge> head_block_time c) Bad_time
    (require (end_time > start_time) Bad_time
      (bindE (set_token_sales
         (bindE (emplace token_sale_key
            \<lparr>ts_external_id = eid, ts_research_id = rid, ts_research_external_id = rs_external_id research,
             ts_security_tokens_on_sale = tokens, ts_start_time = start_time, ts_end_time = end_time,
             ts_total_amount = \<lparr>amount = 0, symbol = symbol soft_cap\<rparr>, ts_soft_cap = soft_cap,
             ts_hard_cap = hard_cap, ts_status = sale_inactive\<rparr>
            (token_sales c)) (\<lambda>(i, t). Inr t)) c)
        (create_recent_entity eid)))"

definition collect_funds :: "fc_lib \<Rightarrow> nat \<Rightarrow> asset \<Rightarrow> chain \<Rightarrow> chain result" where
  "collect_funds L i a c =
     bindE (get_token_sale i c) (\<lambda>s.
     bindE (asset_plus L (ts_total_amount s) a) (\<lambda>v.
       set_token_sales (modify token_sale_key i (\<lambda>s. s\<lparr>ts_total_amount := v\<rparr>) (token_sales c)) c))"

definition update_status :: "nat \<Rightarrow> token_sale_status \<Rightarrow> chain \<Rightarrow> chain result" where
  "update_status i st c =
     bindE (get_token_sale i c) (\<lambda>s.
       set_token_sales (modify token_sale_key i (\<lambda>s. s\<lparr>ts_status := st\<rparr>) (token_sales c)) c)"

definition contribute :: "fc_lib \<Rightarrow> nat \<Rightarrow> string \<Rightarrow> int \<Rightarrow> asset \<Rightarrow> chain \<Rightarrow> chain result" where
  "contribute L i w time a c =
     (case find_row (\<lambda>k. tc_owner k = w \<and> tc_research_token_sale_id k = i) (contributions c) of
        Some (kid, k) \<Rightarrow>
          bindE (asset_plus L (tc_amount k) a) (\<lambda>v.
            set_contributions (modify contribution_key kid (\<lambda>k. k\<lparr>tc_amount := v\<rparr>) (contributions c)) c)
      | None \<Rightarrow>
          bindE (get_token_sale i c) (\<lambda>s.
            set_contributions
              (bindE (emplace contribution_key
                 \<lparr>tc_research_token_sale = ts_external_id s, tc_research_token_sale_id = i,
                  tc_owner = w, tc_amount = a, tc_contribution_time = time\<rparr>
                 (contributions c)) (\<lambda>(j, t). Inr t)) c))"

section \<open>Settling a sale\<close>

text \<open>
  The share of a contribution in percent with two decimals, computed in \<open>double\<close>. A zero
  total would be a division by zero whose result cannot be converted to an integer.
\<close>

definition percent_share :: "int \<Rightarrow> int \<Rightarrow> percent result" where
  "percent_share contributed tot =
     (if tot = 0 then Inl Undefined_behaviour
      else
        let r = double (double (of_int contributed) / double (of_int tot));
            r = double (r * 100);
            r = double (r * of_int DEIP_1_PERCENT)
        in bindE (raw (std_round r)) (\<lambda>v. mk_percent v 2))"

text \<open>What rounding left over goes to, or is taken from, the last contributor.\<close>

definition give_rest :: "fc_lib \<Rightarrow> asset \<Rightarrow> string \<Rightarrow> string \<Rightarrow> int \<Rightarrow> chain \<Rightarrow> chain result" where
  "give_rest L token rg contributor given c =
     bindE (sub L (amount token) given) (\<lambda>v.
       let rest = \<lparr>amount = v, symbol = symbol token\<rparr>
       in if v \<noteq> 0 then
            bindE (adjust_account_balance L contributor rest c) (\<lambda>c1.
            bindE (asset_uminus L rest) (\<lambda>nrest. adjust_account_balance L rg nrest c1))
          else Inr c)"

fun distribute ::
  "fc_lib \<Rightarrow> asset \<Rightarrow> string \<Rightarrow> int \<Rightarrow> (nat \<times> contribution_object) list \<Rightarrow> int \<Rightarrow> chain \<Rightarrow> chain result" where
  "distribute L token rg tot [] given c = Inr c"
| "distribute L token rg tot ((kid, k) # ks) given c =
     bindE (get_asset_by_symbol (symbol token) c) (\<lambda>_.
     bindE (percent_share (amount (tc_amount k)) tot) (\<lambda>pct.
     bindE (asset_share_of L token pct) (\<lambda>a.
     bindE (asset_uminus L a) (\<lambda>na.
     bindE (adjust_account_balance L rg na c) (\<lambda>c1.
     bindE (adjust_account_balance L (tc_owner k) a c1) (\<lambda>c2.
     bindE (add L given (amount a)) (\<lambda>given'.
       if ks = [] then give_rest L token rg (tc_owner k) given' c2
       else distribute L token rg tot ks given' c2)))))))"

definition remove_contributions :: "(nat \<times> contribution_object) list \<Rightarrow> chain \<Rightarrow> chain result" where
  "remove_contributions ks c =
     foldE (\<lambda>p c. set_contributions (remove (fst p) (contributions c)) c) ks c"

definition finish_research_token_sale :: "fc_lib \<Rightarrow> nat \<Rightarrow> chain \<Rightarrow> chain result" where
  "finish_research_token_sale L i c =
     bindE (get_token_sale i c) (\<lambda>s.
     bindE (get_research_by_id (ts_research_id s) c) (\<lambda>research.
     bindE (the_or Out_of_range (lookup (research_groups c) (rs_research_group_id research))) (\<lambda>rg.
     bindE (foldE (unfreeze_account_balance L (rs_research_group research)) (ts_security_tokens_on_sale s) c) (\<lambda>c1.
     bindE (foldE (\<lambda>token c2. distribute L token (rs_research_group research) (amount (ts_total_amount s))
                     (sale_contributions i c) 0 c2)
              (ts_security_tokens_on_sale s) c1) (\<lambda>c2.
     bindE (remove_contributions (sale_contributions i c) c2) (\<lambda>c3.
       adjust_account_balance L (rg_account rg) (ts_total_amount s) c3))))))"

definition refund_research_token_sale :: "fc_lib \<Rightarrow> nat \<Rightarrow> chain \<Rightarrow> chain result" where
  "refund_research_token_sale L i c =
     bindE (get_token_sale i c) (\<lambda>s.
     bindE (get_research_by_id (ts_research_id s) c) (\<lambda>research.
     bindE (foldE (unfreeze_account_balance L (rs_research_group research)) (ts_security_tokens_on_sale s) c) (\<lambda>c1.
       foldE (\<lambda>p c. bindE (adjust_account_balance L (tc_owner (snd p)) (tc_amount (snd p)) c) (\<lambda>c2.
                       set_contributions (remove (fst p) (contributions c2)) c2))
         (sale_contributions i c) c1)))"

definition process_sale :: "fc_lib \<Rightarrow> nat \<Rightarrow> chain \<Rightarrow> chain result" where
  "process_sale L i c =
     bindE (get_token_sale i c) (\<lambda>s.
       if ts_end_time s \<le> head_block_time c \<and> ts_status s = sale_active then
         bindE (asset_less (ts_total_amount s) (ts_soft_cap s)) (\<lambda>below.
           if below then
             bindE (update_status i sale_expired c) (refund_research_token_sale L i)
           else
             bindE (asset_ge (ts_total_amount s) (ts_soft_cap s)) (\<lambda>reached.
               if reached then
                 bindE (update_status i sale_finished c) (finish_research_token_sale L i)
               else Inr c))
       else if ts_end_time s > head_block_time c then
         if head_block_time c \<ge> ts_start_time s \<and> ts_status s = sale_inactive
         then update_status i sale_active c
         else Inr c
       else Inr c)"

text \<open>The sales in the order of the \<open>by_end_time\<close> index.\<close>

definition process_research_token_sales :: "fc_lib \<Rightarrow> chain \<Rightarrow> chain result" where
  "process_research_token_sales L c =
     foldE (process_sale L) (map fst (sort_key (\<lambda>p. ts_end_time (snd p)) (rows (token_sales c)))) c"

section \<open>The operations\<close>

record create_research_token_sale_operation =
  cs_external_id :: string
  cs_research_group :: string
  cs_research_external_id :: string
  cs_start_time :: int
  cs_end_time :: int
  cs_security_tokens_on_sale :: "asset list"
  cs_soft_cap :: asset
  cs_hard_cap :: asset

definition create_research_token_sale_validate :: "create_research_token_sale_operation \<Rightarrow> unit result" where
  "create_research_token_sale_validate op =
     bindE (validate_account_name (cs_research_group op)) (\<lambda>_.
     bindE (validate_160_bits_hexadecimal_string (cs_external_id op)) (\<lambda>_.
     bindE (validate_160_bits_hexadecimal_string (cs_research_external_id op)) (\<lambda>_.
     require (length (cs_security_tokens_on_sale op) > 0) Bad_size
    (require (list_all (\<lambda>t. amount t > 0) (cs_security_tokens_on_sale op)) Bad_amount
    (require (amount (cs_soft_cap op) > 0) Bad_amount
    (require (amount (cs_hard_cap op) > 0) Bad_amount
    (require (symbol (cs_soft_cap op) = symbol (cs_hard_cap op)) Wrong_symbol
      (bindE (asset_gt (cs_hard_cap op) (cs_soft_cap op)) (\<lambda>gt.
       require gt Limit_exceeded
      (require (cs_end_time op > cs_start_time op) Bad_time (Inr ())))))))))))"

definition check_token_on_sale :: "research_object \<Rightarrow> chain \<Rightarrow> asset \<Rightarrow> unit \<Rightarrow> unit result" where
  "check_token_on_sale research c token u =
     bindE (get_asset_by_symbol (symbol token) c) (\<lambda>(aid, a).
     require (as_type a = research_security_token) Wrong_symbol
    (require (find_token (symbol token) (rs_security_tokens research) \<noteq> None) Wrong_symbol
      (bindE (the_or (Assert Not_found)
               (find_row (is_balance_of (rs_research_group research) (symbol token)) (balances c))) (\<lambda>(i, b).
       bindE (asset_ge \<lparr>amount = ab_amount b, symbol = ab_symbol b\<rparr> token) (\<lambda>ge.
         require ge Insufficient_funds (Inr ()))))))"

definition create_research_token_sale_apply ::
  "fc_lib \<Rightarrow> create_research_token_sale_operation \<Rightarrow> chain \<Rightarrow> chain result" where
  "create_research_token_sale_apply L op c =
     require (\<not> entity_exists (cs_external_id op) c) Already_exists
    (require (cs_start_time op \<ge> head_block_time c) Bad_time
    (require (account_exists (cs_research_group op) c) Not_found
      (bindE (get_research_group_by_account (cs_research_group op) c) (\<lambda>(gid, rg).
       bindE (get_research (cs_research_external_id op) c) (\<lambda>(rid, research).
       bindE (foldE (check_token_on_sale research c) (cs_security_tokens_on_sale op) ()) (\<lambda>_.
       require (rs_research_group_id research = gid) Not_authorized
      (require (get_token_sales_by_status rid sale_inactive c = [] \<and>
                get_token_sales_by_status rid sale_active c = []) Already_exists
        (bindE (foldE (freeze_account_balance L (rs_research_group research)) (cs_security_tokens_on_sale op) c)
          (create_research_token_sale (cs_external_id op) rid research (cs_security_tokens_on_sale op)
             (cs_start_time op) (cs_end_time op) (cs_soft_cap op) (cs_hard_cap op))))))))))"

record contribute_operation =
  co_token_sale_external_id :: string
  co_contributor :: string
  co_amount :: asset

definition contribute_validate :: "contribute_operation \<Rightarrow> unit result" where
  "contribute_validate op =
     bindE (validate_account_name (co_contributor op)) (\<lambda>_.
     bindE (validate_160_bits_hexadecimal_string (co_token_sale_external_id op)) (\<lambda>_.
     require (amount (co_amount op) > 0) Bad_amount (Inr ())))"

definition contribute_apply :: "fc_lib \<Rightarrow> contribute_operation \<Rightarrow> chain \<Rightarrow> chain result" where
  "contribute_apply L op c =
     require (account_exists (co_contributor op) c) Not_found
      (bindE (the_or (Assert Not_found)
               (find_row (\<lambda>s. ts_external_id s = co_token_sale_external_id op) (token_sales c))) (\<lambda>(i, s).
       bindE (get_research (ts_research_external_id s) c) (\<lambda>_.
       require (ts_status s = sale_active) Bad_status
      (require (account_balance_exists (co_contributor op) (symbol (co_amount op)) c) Not_found
        (bindE (get_account_balance (co_contributor op) (symbol (co_amount op)) c) (\<lambda>(bid, b).
         require (ab_amount b \<ge> amount (co_amount op)) Insufficient_funds
          (bindE (asset_plus L (ts_total_amount s) (co_amount op)) (\<lambda>after.
           bindE (asset_ge after (ts_hard_cap s)) (\<lambda>reached.
           bindE (if reached then asset_minus L (ts_hard_cap s) (ts_total_amount s)
                  else Inr (co_amount op)) (\<lambda>a.
           bindE (contribute L i (co_contributor op) (head_block_time c) a c) (\<lambda>c1.
           bindE (asset_uminus L a) (\<lambda>na.
           bindE (adjust_account_balance L (co_contributor op) na c1) (\<lambda>c2.
           bindE (collect_funds L i a c2) (\<lambda>c3.
             if reached
             then bindE (update_status i sale_finished c3) (finish_research_token_sale L i)
             else Inr c3))))))))))))))"

section \<open>What settling keeps\<close>

lemma share_D:
  assumes "asset_share_of L t p = Inr a" "safe_ok L" "int64 (amount t)" "int64 (pc_amount p)"
  shows "int64 (amount a) \<and> symbol a = symbol t"
proof -
  obtain full m where f: "int64 full" "full \<noteq> 0" "mul L (amount t) (pc_amount p) = Inr m" "sdivide L m full = Inr (amount a)"
    and sm: "symbol a = symbol t"
    using assms(1) by (auto simp: asset_share_of_def share_of_def mk_percent_def ok_iff)
  have "int64 m"
    using mul_D [OF f(3) assms(2-4)] by simp
  then show ?thesis
    using f(4) sdivide_ok [OF assms(2) _ f(1,2)] sm by blast
qed

lemma percent_share_D: "percent_share k tot = Inr p \<Longrightarrow> int64 (pc_amount p)"
  by (auto simp: percent_share_def mk_percent_def ok_iff Let_def split: if_splits)

lemma distribute_law:
  assumes "int64 (amount token)"
  shows "distribute L token rg tot ks given c = Inr c' \<Longrightarrow> balances_ok L c \<Longrightarrow> int64 given \<Longrightarrow>
    balances_ok L c' \<and> but_balances c' = but_balances c \<and> held c' s = held c s"
proof (induction ks arbitrary: given c)
  case (Cons p ks)
  have L: "safe_ok L"
    using Cons.prems(2) by (simp add: balances_ok_def)
  obtain kid k where p: "p = (kid, k)"
    by fastforce
  obtain pct a na c1 c2 g where pct: "percent_share (amount (tc_amount k)) tot = Inr pct"
    and a: "asset_share_of L token pct = Inr a" and na: "asset_uminus L a = Inr na"
    and c1: "adjust_account_balance L rg na c = Inr c1"
    and c2: "adjust_account_balance L (tc_owner k) a c1 = Inr c2"
    and g: "add L given (amount a) = Inr g"
    and step: "(if ks = [] then give_rest L token rg (tc_owner k) g c2 else distribute L token rg tot ks g c2) = Inr c'"
    using Cons.prems(1) by (auto simp: p ok_iff)
  have ia: "int64 (amount a)"
    using share_D [OF a L assms percent_share_D [OF pct]] by simp
  note neg = uminus_D [OF na L ia]
  have m: "balances_ok L c2 \<and> but_balances c2 = but_balances c \<and> held c2 s = held c s"
    using neg by (intro lg.move [OF Cons.prems(2) ia _ _ _ c1 c2]) auto
  have ig: "int64 g"
    using add_D [OF g L Cons.prems(3) ia] by simp
  show ?case
  proof (cases "ks = []")
    case False
    then show ?thesis
      using Cons.IH [OF _ _ ig, of c2] m step by simp
  next
    case True
    then obtain v where v: "sub L (amount token) g = Inr v"
      and rest: "v = 0 \<and> c' = c2 \<or> (\<exists>c3 nr. adjust_account_balance L (tc_owner k) \<lparr>amount = v, symbol = symbol token\<rparr> c2 = Inr c3 \<and>
        asset_uminus L \<lparr>amount = v, symbol = symbol token\<rparr> = Inr nr \<and> adjust_account_balance L rg nr c3 = Inr c')"
      using step by (auto simp: give_rest_def ok_iff Let_def split: if_splits)
    have iv: "int64 v"
      using sub_D [OF v L assms ig] by simp
    from rest show ?thesis
    proof (elim disjE conjE exE)
      fix c3 nr
      assume c3: "adjust_account_balance L (tc_owner k) \<lparr>amount = v, symbol = symbol token\<rparr> c2 = Inr c3"
        "asset_uminus L \<lparr>amount = v, symbol = symbol token\<rparr> = Inr nr" "adjust_account_balance L rg nr c3 = Inr c'"
      note n = uminus_D [OF c3(2) L]
      then have "balances_ok L c' \<and> but_balances c' = but_balances c2 \<and> held c' s = held c2 s"
        using m iv by (intro lg.move [OF _ _ _ _ _ c3(1,3)]) auto
      then show ?thesis
        using m by simp
    qed (use m in simp)
  qed
qed simp

lemma distribute_all:
  assumes "\<forall>t\<in>set ts. int64 (amount t)"
  shows "foldE (\<lambda>token. distribute L token rg tot ks 0) ts c = Inr c' \<Longrightarrow> balances_ok L c \<Longrightarrow>
    balances_ok L c' \<and> but_balances c' = but_balances c \<and> held c' s = held c s"
  using assms
proof (induction ts arbitrary: c)
  case (Cons t ts)
  then obtain c1 where c1: "distribute L t rg tot ks 0 c = Inr c1"
      "foldE (\<lambda>token. distribute L token rg tot ks 0) ts c1 = Inr c'"
    by (auto simp: ok_iff)
  show ?case
    using Cons.IH [OF c1(2)] distribute_law [OF _ c1(1) Cons.prems(2), of s] Cons.prems(3)
    by (simp add: int64_iff)
qed simp

lemma remove_contributions_law:
  "remove_contributions ks c = Inr c' \<Longrightarrow> wf_index contribution_key (contributions c) \<Longrightarrow>
   \<exists>t. c' = c\<lparr>contributions := t\<rparr> \<and> wf_index contribution_key t \<and>
     rows t = filter (\<lambda>p. fst p \<notin> fst ` set ks) (rows (contributions c))"
proof (induction ks arbitrary: c)
  case Nil
  then show ?case
    by (intro exI [of _ "contributions c"]) (simp add: remove_contributions_def)
next
  case (Cons k ks)
  then obtain t where t: "remove (fst k) (contributions c) = Inr t"
      "remove_contributions ks (c\<lparr>contributions := t\<rparr>) = Inr c'"
    by (auto simp: remove_contributions_def set_contributions_def ok_iff)
  have wf: "wf_index contribution_key t"
    by (rule cb.wf_remove [OF Cons.prems(2) t(1)])
  have r: "rows t = del (fst k) (rows (contributions c))"
    using cb.remove_law [OF t(1)] by blast
  from Cons.IH [OF t(2)] wf show ?case
    by (force simp: r del_def intro: filter_cong)
qed

text \<open>What has been contributed to a sale.\<close>

definition collected :: "chain \<Rightarrow> nat \<Rightarrow> int" where
  "collected c i = sum_rows (\<lambda>k. if tc_research_token_sale_id k = i then amount (tc_amount k) else 0)
     (rows (contributions c))"

lemma sale_contributions_escrow:
  assumes "\<forall>p\<in>set (sale_contributions i c). symbol (tc_amount (snd p)) = sm"
  shows "sum_rows (\<lambda>k. if symbol (tc_amount k) = s then amount (tc_amount k) else 0) (sale_contributions i c) =
    (if s = sm then collected c i else 0)"
proof -
  have "sum_rows (\<lambda>k. if symbol (tc_amount k) = s then amount (tc_amount k) else 0) (sale_contributions i c) =
      sum_rows (\<lambda>k. if s = sm then amount (tc_amount k) else 0) (sale_contributions i c)"
    using assms by (intro sum_rows_cong) auto
  also have "\<dots> = (if s = sm then collected c i else 0)"
    by (simp add: collected_def sum_rows_if sale_contributions_def)
  finally show ?thesis .
qed

lemma sale_ids:
  assumes wf: "wf_index contribution_key (contributions c)" and p: "p \<in> set (rows (contributions c))"
  shows "fst p \<in> fst ` set (sale_contributions i c) \<longleftrightarrow> tc_research_token_sale_id (snd p) = i"
proof
  assume "fst p \<in> fst ` set (sale_contributions i c)"
  then obtain q where q: "q \<in> set (rows (contributions c))" "fst q = fst p"
      "tc_research_token_sale_id (snd q) = i"
    by (auto simp: sale_contributions_def)
  then have "q = p"
    using p cb.mem_map_of [OF wf] by (metis option.inject prod.collapse)
  then show "tc_research_token_sale_id (snd p) = i"
    using q(3) by simp
next
  assume "tc_research_token_sale_id (snd p) = i"
  then show "fst p \<in> fst ` set (sale_contributions i c)"
    using p by (auto simp: sale_contributions_def)
qed

lemma filter_sale_ids:
  "wf_index contribution_key (contributions c) \<Longrightarrow>
   filter (\<lambda>p. fst p \<notin> fst ` set (sale_contributions i c)) (rows (contributions c)) =
   filter (\<lambda>p. tc_research_token_sale_id (snd p) \<noteq> i) (rows (contributions c))"
  by (rule filter_cong) (use sale_ids in auto)

lemma remove_sale_contributions:
  assumes "remove_contributions (sale_contributions i c0) c = Inr c'" "contributions c0 = contributions c"
    and wf: "wf_index contribution_key (contributions c)"
  shows "\<exists>t. c' = c\<lparr>contributions := t\<rparr> \<and> wf_index contribution_key t \<and>
    rows t = filter (\<lambda>p. tc_research_token_sale_id (snd p) \<noteq> i) (rows (contributions c))"
proof -
  have "sale_contributions i c0 = sale_contributions i c"
    by (simp add: sale_contributions_def assms(2))
  with remove_contributions_law [OF assms(1) wf] filter_sale_ids [OF wf] show ?thesis
    by simp
qed

text \<open>
  A sale whose books are in order: the total is what its contributors gave, in one symbol.
\<close>

definition books_ok :: "chain \<Rightarrow> nat \<Rightarrow> research_token_sale_object \<Rightarrow> bool" where
  "books_ok c i s \<longleftrightarrow> int64 (amount (ts_total_amount s)) \<and> collected c i = amount (ts_total_amount s) \<and>
     (\<forall>t\<in>set (ts_security_tokens_on_sale s). int64 (amount t) \<and> 0 \<le> amount t) \<and>
     (\<forall>p\<in>set (sale_contributions i c). int64 (amount (tc_amount (snd p))) \<and>
        symbol (tc_amount (snd p)) = symbol (ts_total_amount s))"

lemma escrow_without_sale:
  assumes "\<forall>p\<in>set (sale_contributions i c). symbol (tc_amount (snd p)) = sm"
    and "rows t = filter (\<lambda>p. tc_research_token_sale_id (snd p) \<noteq> i) (rows (contributions c))"
  shows "escrowed (c\<lparr>contributions := t\<rparr>) s = escrowed c s - (if s = sm then collected c i else 0)"
  using sale_contributions_escrow [OF assms(1), of s]
    sum_rows_filter [of "\<lambda>k. if symbol (tc_amount k) = s then amount (tc_amount k) else 0"
      "rows (contributions c)" "\<lambda>p. tc_research_token_sale_id (snd p) = i"]
  by (simp add: escrowed_def assms(2) sale_contributions_def)

text \<open>What changes when a sale is settled.\<close>

definition settled :: "nat \<Rightarrow> chain \<Rightarrow> chain \<Rightarrow> bool" where
  "settled i c c' \<longleftrightarrow> wf_index contribution_key (contributions c') \<and>
     rows (contributions c') = filter (\<lambda>p. tc_research_token_sale_id (snd p) \<noteq> i) (rows (contributions c)) \<and>
     token_sales c' = token_sales c \<and> assets c' = assets c \<and> head_block_time c' = head_block_time c \<and>
     (\<forall>s. locked c' s = locked c s)"

lemma finish_law:
  assumes fin: "finish_research_token_sale L i c = Inr c'" and ok: "balances_ok L c"
    and wf: "wf_index contribution_key (contributions c)"
    and s: "lookup (token_sales c) i = Some s" "books_ok c i s"
  shows "balances_ok L c' \<and> circulating c' s' = circulating c s' \<and> settled i c c'"
proof -
  obtain research :: research_object and rg :: research_group_object and c1 c2 c3 where
    c1: "foldE (unfreeze_account_balance L (rs_research_group research)) (ts_security_tokens_on_sale s) c = Inr c1"
    and c2: "foldE (\<lambda>token. distribute L token (rs_research_group research) (amount (ts_total_amount s))
                     (sale_contributions i c) 0) (ts_security_tokens_on_sale s) c1 = Inr c2"
    and c3: "remove_contributions (sale_contributions i c) c2 = Inr c3"
    and c4: "adjust_account_balance L (rg_account rg) (ts_total_amount s) c3 = Inr c'"
    using fin s(1) by (simp add: finish_research_token_sale_def get_token_sale_def ok_iff) blast
  have b: "int64 (amount (ts_total_amount s))" "collected c i = amount (ts_total_amount s)"
    "\<forall>t\<in>set (ts_security_tokens_on_sale s). int64 (amount t) \<and> 0 \<le> amount t"
    "\<forall>p\<in>set (sale_contributions i c). symbol (tc_amount (snd p)) = symbol (ts_total_amount s)"
    using s(2) by (auto simp: books_ok_def)
  note u = lg.unfreeze_all [OF b(3) c1 ok, of s']
  have d: "balances_ok L c2 \<and> but_balances c2 = but_balances c1 \<and> held c2 s' = held c1 s'"
    by (rule distribute_all [OF _ c2]) (use b(3) u in auto)
  have fr: "contributions c2 = contributions c" "locked c2 x = locked c x" "token_sales c2 = token_sales c"
    "assets c2 = assets c" "head_block_time c2 = head_block_time c" for x
    using u d but_balances_fields [of c2 c] by auto
  obtain t where t: "c3 = c2\<lparr>contributions := t\<rparr>" "wf_index contribution_key t"
    "rows t = filter (\<lambda>p. tc_research_token_sale_id (snd p) \<noteq> i) (rows (contributions c))"
    using remove_sale_contributions [OF c3] fr(1) wf by auto
  have e: "escrowed c3 s' = escrowed c s' - (if s' = symbol (ts_total_amount s) then amount (ts_total_amount s) else 0)"
    using escrow_without_sale [OF b(4) t(3), of s'] b(2) fr by (simp add: escrowed_def t(1))
  have ok3: "balances_ok L c3" "held c3 s' = held c2 s'"
    using d by (simp_all add: t(1) balances_ok_def held_def)
  note a = lg.adjust_law [OF ok3(1) b(1) c4, of s']
  then have af: "escrowed c' s' = escrowed c3 s'" "contributions c' = t" "token_sales c' = token_sales c"
    "assets c' = assets c" "head_block_time c' = head_block_time c" "locked c' x = locked c x" for x
    using but_balances_fields [of c' c3] fr by (auto simp: t(1))
  then show ?thesis
    using a af e u d ok3(2) t(2,3) by (auto simp: circulating_def settled_def)
qed

lemma pay_and_remove:
  assumes "foldE (\<lambda>p c. bindE (adjust_account_balance L (tc_owner (snd p)) (tc_amount (snd p)) c) (\<lambda>c2.
             set_contributions (remove (fst p) (contributions c2)) c2)) ks c = Inr c'"
    and "balances_ok L c" "wf_index contribution_key (contributions c)"
    and "\<forall>p\<in>set ks. int64 (amount (tc_amount (snd p)))"
  shows "balances_ok L c' \<and> (\<exists>b t. c' = c\<lparr>balances := b, contributions := t\<rparr> \<and> wf_index contribution_key t \<and>
      rows t = filter (\<lambda>p. fst p \<notin> fst ` set ks) (rows (contributions c))) \<and>
    held c' s' = held c s' + sum_rows (\<lambda>k. if symbol (tc_amount k) = s' then amount (tc_amount k) else 0) ks"
  using assms
proof (induction ks arbitrary: c)
  case Nil
  then show ?case
    by (intro conjI exI [of _ "balances c"] exI [of _ "contributions c"]) auto
next
  case (Cons p ks)
  then obtain c1 t where c1: "adjust_account_balance L (tc_owner (snd p)) (tc_amount (snd p)) c = Inr c1"
    and t: "remove (fst p) (contributions c1) = Inr t"
    and rest: "foldE (\<lambda>p c. bindE (adjust_account_balance L (tc_owner (snd p)) (tc_amount (snd p)) c) (\<lambda>c2.
             set_contributions (remove (fst p) (contributions c2)) c2)) ks (c1\<lparr>contributions := t\<rparr>) = Inr c'"
    by (auto simp: ok_iff set_contributions_def)
  note a = lg.adjust_law [OF Cons.prems(2) _ c1, of s']
  have "c1 = c\<lparr>balances := balances c1\<rparr>"
    using a Cons.prems(4) by (cases c; cases c1) (simp add: but_balances_def)
  then obtain b where b: "c1 = c\<lparr>balances := b\<rparr>"
    by blast
  have wf: "wf_index contribution_key t"
    using cb.wf_remove [OF Cons.prems(3)] t by (simp add: b)
  have r: "rows t = del (fst p) (rows (contributions c))"
    using cb.remove_law [OF t] by (auto simp: b)
  have ok1: "balances_ok L (c1\<lparr>contributions := t\<rparr>)" "held (c1\<lparr>contributions := t\<rparr>) s' = held c1 s'"
    using a Cons.prems(4) by (simp_all add: balances_ok_def held_def)
  have IH: "balances_ok L c' \<and> (\<exists>b u. c' = c1\<lparr>contributions := t\<rparr>\<lparr>balances := b, contributions := u\<rparr> \<and>
      wf_index contribution_key u \<and> rows u = filter (\<lambda>p. fst p \<notin> fst ` set ks) (rows t)) \<and>
    held c' s' = held (c1\<lparr>contributions := t\<rparr>) s' +
      sum_rows (\<lambda>k. if symbol (tc_amount k) = s' then amount (tc_amount k) else 0) ks"
    using Cons.IH [OF rest ok1(1)] wf Cons.prems(4) by simp
  then obtain b' u where u: "c' = c\<lparr>balances := b', contributions := u\<rparr>" "wf_index contribution_key u"
      "rows u = filter (\<lambda>p. fst p \<notin> fst ` set ks) (rows t)"
    by (auto simp: b)
  have "rows u = filter (\<lambda>q. fst q \<notin> fst ` set (p # ks)) (rows (contributions c))"
    unfolding u(3) r del_def by (auto intro: filter_cong)
  then show ?case
    using IH u(1,2) a ok1(2) Cons.prems(4) by (auto split: if_splits)
qed

lemma refund_law:
  assumes fin: "refund_research_token_sale L i c = Inr c'" and ok: "balances_ok L c"
    and wf: "wf_index contribution_key (contributions c)"
    and s: "lookup (token_sales c) i = Some s" "books_ok c i s"
  shows "balances_ok L c' \<and> circulating c' s' = circulating c s' \<and> settled i c c'"
proof -
  obtain research :: research_object and c1 where
    c1: "foldE (unfreeze_account_balance L (rs_research_group research)) (ts_security_tokens_on_sale s) c = Inr c1"
    and c2: "foldE (\<lambda>p c. bindE (adjust_account_balance L (tc_owner (snd p)) (tc_amount (snd p)) c) (\<lambda>c2.
                set_contributions (remove (fst p) (contributions c2)) c2)) (sale_contributions i c) c1 = Inr c'"
    using fin s(1) by (simp add: refund_research_token_sale_def get_token_sale_def ok_iff) blast
  have b: "\<forall>t\<in>set (ts_security_tokens_on_sale s). int64 (amount t) \<and> 0 \<le> amount t"
    "\<forall>p\<in>set (sale_contributions i c). symbol (tc_amount (snd p)) = symbol (ts_total_amount s)"
    "\<forall>p\<in>set (sale_contributions i c). int64 (amount (tc_amount (snd p)))"
    using s(2) by (auto simp: books_ok_def)
  note u = lg.unfreeze_all [OF b(1) c1 ok, of s']
  have fr: "contributions c1 = contributions c" "locked c1 x = locked c x" "token_sales c1 = token_sales c"
    "assets c1 = assets c" "head_block_time c1 = head_block_time c" for x
    using u but_balances_fields [of c1 c] by auto
  note p = pay_and_remove [OF c2 _ _ b(3), of s']
  obtain bb t where t: "c' = c1\<lparr>balances := bb, contributions := t\<rparr>" "wf_index contribution_key t"
      "rows t = filter (\<lambda>p. fst p \<notin> fst ` set (sale_contributions i c)) (rows (contributions c))"
    using p u wf fr(1) by auto
  have "rows t = filter (\<lambda>p. tc_research_token_sale_id (snd p) \<noteq> i) (rows (contributions c))"
    unfolding t(3) by (rule filter_sale_ids [OF wf])
  then show ?thesis
    using escrow_without_sale [OF b(2), of t s'] p u wf fr t(1,2) sale_contributions_escrow [OF b(2), of s']
    by (auto simp: circulating_def settled_def escrowed_def)
qed

end
