(* ===== verification/Sale_Invariant.thy ===== *)
theory Sale_Invariant
  imports Token_Sale
begin

text \<open>
  What the token sales keep, whatever happens to them: the total of a running sale is what
  its contributors gave and never exceeds the hard cap, a settled sale holds nothing, and
  the supply invariant. The operations are steps of one relation, \<open>sale_step\<close>.
\<close>

definition token_sale_ok :: "chain \<Rightarrow> nat \<Rightarrow> research_token_sale_object \<Rightarrow> bool" where
  "token_sale_ok c i s \<longleftrightarrow>
     symbol (ts_soft_cap s) = symbol (ts_total_amount s) \<and> symbol (ts_hard_cap s) = symbol (ts_total_amount s) \<and>
     int64 (amount (ts_hard_cap s)) \<and>
     0 \<le> amount (ts_total_amount s) \<and> amount (ts_total_amount s) \<le> amount (ts_hard_cap s) \<and>
     (\<forall>t\<in>set (ts_security_tokens_on_sale s). int64 (amount t) \<and> 0 \<le> amount t) \<and>
     (ts_status s \<in> {sale_inactive, sale_active} \<longrightarrow> collected c i = amount (ts_total_amount s)) \<and>
     (ts_status s \<in> {sale_finished, sale_expired} \<longrightarrow> sale_contributions i c = [])"

definition contribution_ok :: "chain \<Rightarrow> contribution_object \<Rightarrow> bool" where
  "contribution_ok c k \<longleftrightarrow> int64 (amount (tc_amount k)) \<and>
     (\<exists>s. lookup (token_sales c) (tc_research_token_sale_id k) = Some s \<and>
          symbol (tc_amount k) = symbol (ts_total_amount s))"

definition sales_ok :: "fc_lib \<Rightarrow> chain \<Rightarrow> bool" where
  "sales_ok L c \<longleftrightarrow> supply_ok L c \<and> wf_index token_sale_key (token_sales c) \<and>
     wf_index contribution_key (contributions c) \<and>
     (\<forall>i s. lookup (token_sales c) i = Some s \<longrightarrow> token_sale_ok c i s) \<and>
     (\<forall>p\<in>set (rows (contributions c)). contribution_ok c (snd p))"

lemma sales_books:
  assumes "sales_ok L c" "lookup (token_sales c) i = Some s" "collected c i = amount (ts_total_amount s)"
  shows "books_ok c i s"
proof -
  have "token_sale_ok c i s"
    using assms(1,2) by (simp add: sales_ok_def)
  then have "int64 (amount (ts_total_amount s))"
    by (auto simp: token_sale_ok_def int64_iff)
  moreover have "int64 (amount (tc_amount (snd p))) \<and> symbol (tc_amount (snd p)) = symbol (ts_total_amount s)"
    if "p \<in> set (sale_contributions i c)" for p
    using that assms(1,2) by (auto simp: sale_contributions_def sales_ok_def contribution_ok_def)
  ultimately show ?thesis
    using assms(3) \<open>token_sale_ok c i s\<close> by (auto simp: books_ok_def token_sale_ok_def)
qed

text \<open>Replacing the object of one sale.\<close>

lemma modify_sale_lookup:
  assumes "modify token_sale_key i f (token_sales c) = Inr t" "lookup (token_sales c) i = Some s"
  shows "lookup t j = (if j = i then Some (f s) else lookup (token_sales c) j)"
  using cb.modify_law [OF assms(1)] assms(2) by (auto simp: lookup_def map_of_upd)

lemma status_D:
  assumes "update_status i st c = Inr c'" "lookup (token_sales c) i = Some s"
  obtains t where "modify token_sale_key i (\<lambda>s. s\<lparr>ts_status := st\<rparr>) (token_sales c) = Inr t"
    "c' = c\<lparr>token_sales := t\<rparr>"
  using assms by (auto simp: update_status_def get_token_sale_def set_token_sales_def ok_iff)

lemma with_token_sales [simp]:
  "balances_ok L (c\<lparr>token_sales := t\<rparr>) = balances_ok L c"
  "circulating (c\<lparr>token_sales := t\<rparr>) s = circulating c s"
  "supply_ok L (c\<lparr>token_sales := t\<rparr>) = supply_ok L c"
  "collected (c\<lparr>token_sales := t\<rparr>) i = collected c i"
  "sale_contributions i (c\<lparr>token_sales := t\<rparr>) = sale_contributions i c"
  by (simp_all add: balances_ok_def circulating_def held_def escrowed_def supply_ok_def collected_def
      sale_contributions_def)

lemma sale_replaced:
  assumes ok: "sales_ok L c" and m: "modify token_sale_key i f (token_sales c) = Inr t"
    and s: "lookup (token_sales c) i = Some s" and f: "symbol (ts_total_amount (f s)) = symbol (ts_total_amount s)"
    and new: "token_sale_ok c i (f s)"
  shows "sales_ok L (c\<lparr>token_sales := t\<rparr>)"
proof -
  have lk: "lookup t j = (if j = i then Some (f s) else lookup (token_sales c) j)" for j
    by (rule modify_sale_lookup [OF m s])
  have "contribution_ok (c\<lparr>token_sales := t\<rparr>) k" if "contribution_ok c k" for k
    using that s f by (auto simp: contribution_ok_def lk)
  moreover have "token_sale_ok (c\<lparr>token_sales := t\<rparr>) j u"
    if "lookup t j = Some u" for j u
    using that new ok by (auto simp: lk sales_ok_def token_sale_ok_def split: if_splits)
  moreover have "wf_index token_sale_key t"
    using cb.wf_modify [OF symp_keys(3) _ m] ok by (simp add: sales_ok_def)
  ultimately show ?thesis
    using ok by (auto simp: sales_ok_def)
qed

text \<open>A sale is closed and settled.\<close>

lemma sale_settled:
  assumes ok: "sales_ok L c" and m: "modify token_sale_key i (\<lambda>s. s\<lparr>ts_status := st\<rparr>) (token_sales c) = Inr t"
    and s: "lookup (token_sales c) i = Some s" and st: "st \<in> {sale_finished, sale_expired}"
    and c': "balances_ok L c'" "\<And>s. circulating c' s = circulating c s" "settled i (c\<lparr>token_sales := t\<rparr>) c'"
  shows "sales_ok L c'"
proof -
  have lk: "lookup t j = (if j = i then Some (s\<lparr>ts_status := st\<rparr>) else lookup (token_sales c) j)" for j
    using modify_sale_lookup [OF m s] by simp
  have r: "rows (contributions c') = filter (\<lambda>p. tc_research_token_sale_id (snd p) \<noteq> i) (rows (contributions c))"
    "token_sales c' = t" "assets c' = assets c" "wf_index contribution_key (contributions c')"
    using c'(3) by (auto simp: settled_def)
  have other: "sale_contributions j c' = sale_contributions j c \<and> collected c' j = collected c j" if "j \<noteq> i" for j
  proof -
    have "filter (\<lambda>p. tc_research_token_sale_id (snd p) = j) (rows (contributions c')) =
        filter (\<lambda>p. tc_research_token_sale_id (snd p) = j) (rows (contributions c))"
      unfolding r(1) filter_filter by (rule filter_cong) (use that in auto)
    then show ?thesis
      by (simp add: sale_contributions_def collected_def sum_rows_if)
  qed
  have gone: "sale_contributions i c' = []"
    by (simp add: sale_contributions_def r(1) filter_empty_conv)
  have "token_sale_ok c' j u" if "lookup t j = Some u" for j u
  proof (cases "j = i")
    case True
    then have u: "u = s\<lparr>ts_status := st\<rparr>"
      using that lk by simp
    have "token_sale_ok c i s"
      using ok s by (simp add: sales_ok_def)
    then show ?thesis
      using True gone st unfolding u by (auto simp: token_sale_ok_def)
  next
    case False
    then show ?thesis
      using that ok other [OF False] by (auto simp: lk sales_ok_def token_sale_ok_def)
  qed
  moreover have "\<forall>p\<in>set (rows (contributions c')). contribution_ok c' (snd p)"
  proof
    fix p
    assume "p \<in> set (rows (contributions c'))"
    then have "contribution_ok c (snd p)"
      using ok r(1) by (simp add: sales_ok_def)
    then show "contribution_ok c' (snd p)"
      using s by (auto simp: contribution_ok_def r(2) lk)
  qed
  moreover have "wf_index token_sale_key t"
    using cb.wf_modify [OF symp_keys(3) _ m] ok by (simp add: sales_ok_def)
  moreover have "supply_ok L c'"
    by (rule supply_ok_keep [of L c]) (use ok c'(1,2) r(3) in \<open>simp_all add: sales_ok_def\<close>)
  ultimately show ?thesis
    unfolding sales_ok_def r(2) using r(4) by blast
qed

lemma close_sale:
  assumes ok: "sales_ok L c" and s: "lookup (token_sales c) i = Some s" "ts_status s = sale_active"
    and u: "update_status i st c = Inr c1"
    and f: "st = sale_finished \<and> finish_research_token_sale L i c1 = Inr c' \<or>
            st = sale_expired \<and> refund_research_token_sale L i c1 = Inr c'"
  shows "sales_ok L c' \<and> circulating c' x = circulating c x \<and>
    lookup (token_sales c') j = (if j = i then Some (s\<lparr>ts_status := st\<rparr>) else lookup (token_sales c) j)"
proof -
  obtain t where t: "modify token_sale_key i (\<lambda>s. s\<lparr>ts_status := st\<rparr>) (token_sales c) = Inr t"
    "c1 = c\<lparr>token_sales := t\<rparr>"
    by (rule status_D [OF u s(1)])
  let ?s = "s\<lparr>ts_status := st\<rparr>"
  have lk: "lookup (token_sales c1) j = (if j = i then Some ?s else lookup (token_sales c) j)" for j
    using modify_sale_lookup [OF t(1) s(1)] by (simp add: t(2))
  have "token_sale_ok c i s"
    using ok s(1) by (simp add: sales_ok_def)
  then have "books_ok c i s"
    using s(2) by (intro sales_books [OF ok s(1)]) (simp add: token_sale_ok_def)
  then have books: "books_ok c1 i ?s"
    by (simp add: books_ok_def t(2))
  have c1: "balances_ok L c1" "wf_index contribution_key (contributions c1)" "lookup (token_sales c1) i = Some ?s"
    using ok lk [of i] by (simp_all add: sales_ok_def supply_ok_def t(2))
  have res: "balances_ok L c' \<and> circulating c' x = circulating c1 x \<and> settled i c1 c'" for x
    using f finish_law [OF _ c1 books] refund_law [OF _ c1 books] by blast
  then have "sales_ok L c'"
    using f by (intro sale_settled [OF ok t(1) s(1)]) (auto simp: t(2))
  then show ?thesis
    using res lk [of j] by (simp add: settled_def t(2))
qed

section \<open>Contributing\<close>

text \<open>How the contribution table moves; \<open>P\<close> is any property of what is written.\<close>

definition contributed :: "nat \<Rightarrow> asset \<Rightarrow> chain \<Rightarrow> contribution_object generic_index \<Rightarrow> bool" where
  "contributed i a c t \<longleftrightarrow> wf_index contribution_key t \<and>
     (\<forall>p\<in>set (rows t). contribution_ok c (snd p) \<and>
        (tc_research_token_sale_id (snd p) = i \<or> p \<in> set (rows (contributions c)))) \<and>
     (\<forall>j. collected (c\<lparr>contributions := t\<rparr>) j = collected c j + (if j = i then amount a else 0)) \<and>
     (\<forall>x. escrowed (c\<lparr>contributions := t\<rparr>) x = escrowed c x + (if x = symbol a then amount a else 0))"

lemma contribute_law:
  assumes ok: "sales_ok L c" and s: "lookup (token_sales c) i = Some s"
    and a: "int64 (amount a)" "symbol a = symbol (ts_total_amount s)"
    and con: "contribute L i w time a c = Inr c'"
  shows "\<exists>t. c' = c\<lparr>contributions := t\<rparr> \<and> contributed i a c t"
proof (cases "find_row (\<lambda>k. tc_owner k = w \<and> tc_research_token_sale_id k = i) (contributions c)")
  case None
  have wf: "wf_index contribution_key (contributions c)"
    using ok by (simp add: sales_ok_def)
  obtain j t k where t: "emplace contribution_key k (contributions c) = Inr (j, t)" "c' = c\<lparr>contributions := t\<rparr>"
    and k: "tc_research_token_sale_id k = i" "tc_amount k = a"
    using con s by (auto simp: contribute_def None get_token_sale_def set_contributions_def ok_iff split: prod.splits)
  have r: "rows t = rows (contributions c) @ [(j, k)]"
    using cb.emplace_law [OF wf t(1)] by simp
  have "contribution_ok c k"
    using a s k by (simp add: contribution_ok_def)
  then have "contributed i a c t"
    unfolding contributed_def
    using ok cb.wf_emplace [OF symp_keys(4) wf t(1)] k
    by (auto simp: r sales_ok_def collected_def escrowed_def)
  then show ?thesis
    using t(2) by blast
next
  case (Some q)
  obtain kid k where q: "q = (kid, k)"
    by fastforce
  have wf: "wf_index contribution_key (contributions c)"
    using ok by (simp add: sales_ok_def)
  have mem: "(kid, k) \<in> set (rows (contributions c))" "tc_research_token_sale_id k = i"
    using find_row_Some Some q by fastforce+
  then have "contribution_ok c k"
    using ok by (auto simp: sales_ok_def)
  then have k: "int64 (amount (tc_amount k))" "symbol (tc_amount k) = symbol (ts_total_amount s)"
    using s mem(2) by (auto simp: contribution_ok_def)
  obtain v t where v: "asset_plus L (tc_amount k) a = Inr v"
    and t: "modify contribution_key kid (\<lambda>k. k\<lparr>tc_amount := v\<rparr>) (contributions c) = Inr t" "c' = c\<lparr>contributions := t\<rparr>"
    using con by (auto simp: contribute_def Some q set_contributions_def ok_iff)
  have "safe_ok L"
    using ok by (simp add: sales_ok_def supply_ok_def balances_ok_def)
  note v' = plus_D [OF v this k(1) a(1)]
  let ?k = "k\<lparr>tc_amount := v\<rparr>"
  have new: "contribution_ok c ?k"
    using v' k(2) s mem(2) by (simp add: contribution_ok_def)
  have "p \<in> set (rows (contributions c)) \<or> p = (kid, ?k)" if "p \<in> set (rows t)" for p
    using cb.modified_mem [OF wf t(1) mem(1), of "fst p" "snd p"] that by (cases p) (auto split: if_splits)
  then have "\<forall>p\<in>set (rows t). contribution_ok c (snd p) \<and>
        (tc_research_token_sale_id (snd p) = i \<or> p \<in> set (rows (contributions c)))"
    using new ok mem(2) by (fastforce simp: sales_ok_def)
  moreover have "collected (c\<lparr>contributions := t\<rparr>) j = collected c j + (if j = i then amount a else 0)" for j
    using cb.sum_modify [OF wf t(1) mem(1), of "\<lambda>k. if tc_research_token_sale_id k = j then amount (tc_amount k) else 0"]
      v' mem(2) by (simp add: collected_def)
  moreover have "escrowed (c\<lparr>contributions := t\<rparr>) x = escrowed c x + (if x = symbol a then amount a else 0)" for x
    using cb.sum_modify [OF wf t(1) mem(1), of "\<lambda>k. if symbol (tc_amount k) = x then amount (tc_amount k) else 0"]
      v' by (auto simp: escrowed_def)
  ultimately show ?thesis
    using cb.wf_modify [OF symp_keys(4) wf t(1)] t(2) by (auto simp: contributed_def)
qed

text \<open>Contributing, paying and counting, before the sale is closed if it is full.\<close>

lemma contribution_booked:
  assumes ok: "sales_ok L c" and s: "lookup (token_sales c) i = Some s" "ts_status s = sale_active"
    and a: "int64 (amount a)" "symbol a = symbol (ts_total_amount s)" "0 \<le> amount a"
      "amount (ts_total_amount s) + amount a \<le> amount (ts_hard_cap s)"
    and c1: "contribute L i w time a c = Inr c1" and na: "asset_uminus L a = Inr na"
    and c2: "adjust_account_balance L w na c1 = Inr c2" and c3: "collect_funds L i a c2 = Inr c3"
  shows "sales_ok L c3 \<and> (\<forall>x. circulating c3 x = circulating c x) \<and>
    (\<forall>v x. spendable c3 v x = spendable c v x - (if v = w \<and> x = symbol a then amount a else 0)) \<and>
    (\<forall>j. lookup (token_sales c3) j =
      (if j = i then Some (s\<lparr>ts_total_amount := \<lparr>amount = amount (ts_total_amount s) + amount a,
                                          symbol = symbol (ts_total_amount s)\<rparr>\<rparr>)
       else lookup (token_sales c) j))"
proof -
  have L: "safe_ok L" "balances_ok L c"
    using ok by (auto simp: sales_ok_def supply_ok_def balances_ok_def)
  have so: "token_sale_ok c i s"
    using ok s(1) by (simp add: sales_ok_def)
  obtain t where t: "c1 = c\<lparr>contributions := t\<rparr>" "contributed i a c t"
    using contribute_law [OF ok s(1) a(1,2) c1] by blast
  note neg = uminus_D [OF na L(1) a(1)]
  have ok1: "balances_ok L c1"
    using L(2) by (simp add: t(1) balances_ok_def)
  have same1: "held c1 x = held c x" "spendable c1 v x = spendable c v x" for v x
    by (simp_all add: t(1) held_def spendable_def)
  note adj = lg.adjust_law [OF ok1 _ c2] and adjs = lg.adjust_spendable [OF ok1 _ c2]
  have bb: "but_balances c2 = but_balances c1" "balances_ok L c2"
    using adj neg by auto
  have fr: "token_sales c2 = token_sales c" "contributions c2 = t" "assets c2 = assets c"
    "escrowed c2 x = escrowed c1 x" for x
    using but_balances_fields [OF bb(1)] by (auto simp: t(1))
  let ?v = "\<lparr>amount = amount (ts_total_amount s) + amount a, symbol = symbol (ts_total_amount s)\<rparr>"
  have it: "int64 (amount (ts_total_amount s))"
    using so by (auto simp: token_sale_ok_def int64_iff)
  obtain u where u: "modify token_sale_key i (\<lambda>s. s\<lparr>ts_total_amount := ?v\<rparr>) (token_sales c) = Inr u"
    "c3 = c2\<lparr>token_sales := u\<rparr>"
    using c3 plus_D [OF _ L(1) it a(1)] fr(1) s(1)
    by (auto simp: collect_funds_def get_token_sale_def set_token_sales_def ok_iff)
  have lk: "lookup u j = (if j = i then Some (s\<lparr>ts_total_amount := ?v\<rparr>) else lookup (token_sales c) j)" for j
    using modify_sale_lookup [OF u(1) s(1)] by simp
  have circ: "circulating c3 x = circulating c x" for x
  proof -
    have "escrowed c1 x = escrowed c x + (if x = symbol a then amount a else 0)"
      using t(2) by (simp add: contributed_def t(1))
    moreover have "held c2 x = held c x - (if symbol a = x then amount a else 0)"
      using adj [of x] neg same1(1) [of x] by auto
    ultimately have "circulating c2 x = circulating c x"
      using fr(4) [of x] by (auto simp: circulating_def)
    then show ?thesis
      by (simp add: u(2))
  qed
  have coll: "collected c3 j = collected c j + (if j = i then amount a else 0)" for j
    using t(2) fr(2) by (simp add: u(2) collected_def contributed_def)
  have sc: "sale_contributions j c3 = []" if "sale_contributions j c = []" "j \<noteq> i" for j
    using t(2) that by (fastforce simp: sale_contributions_def u(2) fr(2) filter_empty_conv contributed_def)
  have "token_sale_ok c3 j x" if "lookup u j = Some x" for j x
  proof (cases "j = i")
    case True
    then show ?thesis
      using that so s(2) a coll [of i] by (auto simp: lk token_sale_ok_def)
  next
    case False
    then have "token_sale_ok c j x"
      using that ok by (simp add: lk sales_ok_def)
    then show ?thesis
      using coll [of j] sc [of j] False by (auto simp: token_sale_ok_def)
  qed
  moreover have "\<forall>p\<in>set (rows t). contribution_ok c3 (snd p)"
    using t(2) s(1) by (fastforce simp: contributed_def contribution_ok_def u(2) lk)
  moreover have "wf_index token_sale_key u"
    using cb.wf_modify [OF symp_keys(3) _ u(1)] ok by (simp add: sales_ok_def)
  moreover have "supply_ok L c3"
    by (rule supply_ok_keep [of L c]) (use ok circ bb fr in \<open>simp_all add: sales_ok_def u(2)\<close>)
  ultimately have "sales_ok L c3"
    using t(2) fr(2) by (simp add: sales_ok_def u(2) contributed_def)
  then show ?thesis
    using circ lk adjs neg same1(2) by (auto simp: u(2) spendable_def)
qed

end
