(* ===== verification/Sale_Steps.thy ===== *)
theory Sale_Steps
  imports Sale_Invariant
begin

text \<open>
  The life of the token sales: the maintenance pass of every block, the two operations, and
  the passing of time, as one step relation with its invariant.
\<close>

section \<open>The maintenance pass\<close>

text \<open>What one pass at time \<open>now\<close> makes of the status of a sale.\<close>

definition due_status :: "int \<Rightarrow> research_token_sale_object \<Rightarrow> token_sale_status" where
  "due_status now s =
     (if ts_end_time s \<le> now \<and> ts_status s = sale_active then
        (if amount (ts_total_amount s) < amount (ts_soft_cap s) then sale_expired else sale_finished)
      else if now < ts_end_time s \<and> ts_start_time s \<le> now \<and> ts_status s = sale_inactive then sale_active
      else ts_status s)"

definition due :: "int \<Rightarrow> research_token_sale_object \<Rightarrow> research_token_sale_object" where
  "due now s = s\<lparr>ts_status := due_status now s\<rparr>"

lemma settled_time:
  assumes "sales_ok L c" "lookup (token_sales c) i = Some s" "ts_status s = sale_active"
    and u: "update_status i st c = Inr c1"
    and f: "st = sale_finished \<and> finish_research_token_sale L i c1 = Inr c' \<or>
            st = sale_expired \<and> refund_research_token_sale L i c1 = Inr c'"
  shows "head_block_time c' = head_block_time c"
proof -
  obtain t where t: "modify token_sale_key i (\<lambda>s. s\<lparr>ts_status := st\<rparr>) (token_sales c) = Inr t"
    "c1 = c\<lparr>token_sales := t\<rparr>"
    by (rule status_D [OF u assms(2)])
  let ?s = "s\<lparr>ts_status := st\<rparr>"
  have "lookup (token_sales c1) i = Some ?s"
    using modify_sale_lookup [OF t(1) assms(2)] by (simp add: t(2))
  moreover have "books_ok c i s"
    using assms by (intro sales_books) (auto simp: sales_ok_def token_sale_ok_def)
  then have "books_ok c1 i ?s"
    by (simp add: books_ok_def t(2))
  moreover have "balances_ok L c1" "wf_index contribution_key (contributions c1)"
    using assms(1) by (simp_all add: sales_ok_def supply_ok_def t(2))
  ultimately have "settled i c1 c'"
    using f finish_law [of L i c1 c' ?s] refund_law [of L i c1 c' ?s] by blast
  then show ?thesis
    by (simp add: settled_def t(2))
qed

lemma open_sale:
  assumes ok: "sales_ok L c" and s: "lookup (token_sales c) i = Some s" "ts_status s = sale_inactive"
    and u: "update_status i sale_active c = Inr c'"
  shows "sales_ok L c' \<and> circulating c' x = circulating c x \<and> head_block_time c' = head_block_time c \<and>
    lookup (token_sales c') j = (if j = i then Some (s\<lparr>ts_status := sale_active\<rparr>) else lookup (token_sales c) j)"
proof -
  obtain t where t: "modify token_sale_key i (\<lambda>s. s\<lparr>ts_status := sale_active\<rparr>) (token_sales c) = Inr t"
    "c' = c\<lparr>token_sales := t\<rparr>"
    by (rule status_D [OF u s(1)])
  have "token_sale_ok c i s"
    using ok s(1) by (simp add: sales_ok_def)
  then have "sales_ok L c'"
    unfolding t(2) by (intro sale_replaced [OF ok t(1) s(1)]) (use s(2) in \<open>auto simp: token_sale_ok_def\<close>)
  then show ?thesis
    using modify_sale_lookup [OF t(1) s(1), of j] by (simp add: t(2))
qed

lemma process_sale_law:
  assumes ok: "sales_ok L c" and s: "lookup (token_sales c) i = Some s" and p: "process_sale L i c = Inr c'"
  shows "sales_ok L c' \<and> circulating c' x = circulating c x \<and> head_block_time c' = head_block_time c \<and>
    lookup (token_sales c') j = (if j = i then Some (due (head_block_time c) s) else lookup (token_sales c) j)"
proof (cases "ts_end_time s \<le> head_block_time c \<and> ts_status s = sale_active")
  case True
  have g: "get_token_sale i c = Inr s"
    using s by (simp add: get_token_sale_def)
  from True p obtain c1 st where c1: "update_status i st c = Inr c1"
    "st = sale_finished \<and> finish_research_token_sale L i c1 = Inr c' \<or>
     st = sale_expired \<and> refund_research_token_sale L i c1 = Inr c'"
    and st: "due_status (head_block_time c) s = st"
    by (auto simp: process_sale_def g ok_iff due_status_def split: if_splits dest!: asset_less_D ge_D)
  show ?thesis
    using close_sale [OF ok s _ c1, of x j] settled_time [OF ok s _ c1] True by (simp add: due_def st)
next
  case False
  then consider
      "ts_start_time s \<le> head_block_time c" "head_block_time c < ts_end_time s"
      "ts_status s = sale_inactive" "update_status i sale_active c = Inr c'"
    | "c' = c" "due_status (head_block_time c) s = ts_status s"
    using p s by (fastforce simp: process_sale_def get_token_sale_def due_status_def split: if_splits)
  then show ?thesis
  proof cases
    case 1
    then show ?thesis
      using open_sale [OF ok s _ 1(4), of x j] by (simp add: due_def due_status_def)
  next
    case 2
    then show ?thesis
      using ok s by (simp add: due_def)
  qed
qed

lemma process_sales_law:
  "foldE (process_sale L) ns c = Inr c' \<Longrightarrow> sales_ok L c \<Longrightarrow> distinct ns \<Longrightarrow>
   (\<forall>i\<in>set ns. lookup (token_sales c) i \<noteq> None) \<Longrightarrow>
   sales_ok L c' \<and> circulating c' x = circulating c x \<and> head_block_time c' = head_block_time c \<and>
   lookup (token_sales c') j =
     (if j \<in> set ns then map_option (due (head_block_time c)) (lookup (token_sales c) j)
      else lookup (token_sales c) j)"
proof (induction ns arbitrary: c)
  case (Cons i ns)
  obtain c1 where c1: "process_sale L i c = Inr c1" "foldE (process_sale L) ns c1 = Inr c'"
    using Cons.prems(1) by (auto simp: ok_iff)
  obtain s where s: "lookup (token_sales c) i = Some s"
    using Cons.prems(4) by auto
  note one = process_sale_law [OF Cons.prems(2) s c1(1)]
  have "\<forall>k\<in>set ns. lookup (token_sales c1) k \<noteq> None"
    using Cons.prems(4) one by auto
  with Cons.IH [OF c1(2)] one [of x j] Cons.prems(3) s show ?case
    by auto
qed simp

lemma process_pass_law:
  assumes "process_research_token_sales L c = Inr c'" "sales_ok L c"
  shows "sales_ok L c' \<and> circulating c' x = circulating c x \<and> head_block_time c' = head_block_time c \<and>
    lookup (token_sales c') j = map_option (due (head_block_time c)) (lookup (token_sales c) j)"
proof -
  let ?is = "map fst (sort_key (\<lambda>p. ts_end_time (snd p)) (rows (token_sales c)))"
  have wf: "wf_index token_sale_key (token_sales c)"
    using assms(2) by (simp add: sales_ok_def)
  have "distinct (map fst (rows (token_sales c)))"
    using cb.rows_sorted [OF wf] by (simp add: sorted1_def strict_sorted_iff)
  then have "distinct ?is"
    by (simp add: distinct_map)
  moreover have "\<forall>i\<in>set ?is. lookup (token_sales c) i \<noteq> None"
    using cb.mem_map_of [OF wf] by (auto simp: lookup_def)
  moreover have "j \<in> set ?is \<or> lookup (token_sales c) j = None"
    by (auto simp: lookup_def map_of_eq_None_iff)
  ultimately show ?thesis
    using process_sales_law [of L ?is c c' x j] assms by (auto simp: process_research_token_sales_def)
qed

section \<open>Creating a sale\<close>

lemma new_sale_law:
  assumes ok: "sales_ok L c" and cap: "symbol soft = symbol hard" "0 \<le> amount hard" "int64 (amount hard)"
    and toks: "\<forall>t\<in>set tokens. int64 (amount t) \<and> 0 \<le> amount t"
    and cr: "create_research_token_sale eid rid research tokens t0 t1 soft hard c = Inr c'"
  shows "sales_ok L c' \<and> circulating c' x = circulating c x \<and> head_block_time c' = head_block_time c \<and>
    head_block_time c \<le> t0 \<and> t0 < t1 \<and>
    (\<exists>i s. lookup (token_sales c) i = None \<and> ts_status s = sale_inactive \<and> amount (ts_total_amount s) = 0 \<and>
      ts_external_id s = eid \<and> ts_research_id s = rid \<and>
      (\<forall>j. lookup (token_sales c') j = (if j = i then Some s else lookup (token_sales c) j)))"
proof -
  have wf: "wf_index token_sale_key (token_sales c)"
    using ok by (simp add: sales_ok_def)
  obtain i t s r where t: "emplace token_sale_key s (token_sales c) = Inr (i, t)"
    and c': "c' = c\<lparr>token_sales := t, recent_entities := r\<rparr>" and tm: "head_block_time c \<le> t0" "t0 < t1"
    and s: "s = \<lparr>ts_external_id = eid, ts_research_id = rid, ts_research_external_id = rs_external_id research,
             ts_security_tokens_on_sale = tokens, ts_start_time = t0, ts_end_time = t1,
             ts_total_amount = \<lparr>amount = 0, symbol = symbol soft\<rparr>, ts_soft_cap = soft,
             ts_hard_cap = hard, ts_status = sale_inactive\<rparr>"
    using cr by (auto simp: create_research_token_sale_def set_token_sales_def create_recent_entity_def ok_iff
        split: prod.splits)
  note e = cb.emplace_law [OF wf t]
  have new: "lookup (token_sales c) i = None"
    using e by (simp add: lookup_def map_of_eq_None_iff)
  have lk: "lookup t j = (if j = i then Some s else lookup (token_sales c) j)" for j
    using e new by (auto simp: lookup_def map_add_def split: option.splits)
  have c'f: "contributions c' = contributions c" "balances c' = balances c" "token_sales c' = t"
    "locked c' x = locked c x" "assets c' = assets c" for x
    by (simp_all add: c')
  have same: "sale_contributions j c' = sale_contributions j c" "collected c' j = collected c j"
    "circulating c' y = circulating c y" "balances_ok L c' = balances_ok L c" for j y
    by (simp_all add: sale_contributions_def collected_def circulating_def held_def escrowed_def balances_ok_def c'f)
  have con: "contribution_ok c' (snd p)" "tc_research_token_sale_id (snd p) \<noteq> i"
    if "p \<in> set (rows (contributions c))" for p
    using that ok new by (fastforce simp: sales_ok_def contribution_ok_def c'f lk)+
  have "collected c i = 0"
    using con(2) sum_rows_cong [of "rows (contributions c)"
        "\<lambda>k. if tc_research_token_sale_id k = i then amount (tc_amount k) else 0" "\<lambda>k. 0"]
    by (force simp: collected_def sum_rows_def)
  then have "token_sale_ok c' i s"
    using cap toks by (simp add: token_sale_ok_def same s)
  then have "token_sale_ok c' j u" if "lookup t j = Some u" for j u
    using that ok by (auto simp: lk sales_ok_def token_sale_ok_def same split: if_splits)
  moreover have "supply_ok L c'"
    by (rule supply_ok_keep [of L c]) (use ok in \<open>simp_all add: same c'f sales_ok_def supply_ok_def\<close>)
  moreover have "wf_index token_sale_key t"
    by (rule cb.wf_emplace [OF symp_keys(3) wf t])
  ultimately have "sales_ok L c'"
    using con(1) ok by (simp add: sales_ok_def c'f)
  then show ?thesis
    using new lk tm by (auto simp: same c'f s intro!: exI [of _ i]) (simp add: c')
qed

lemma create_sale_law:
  assumes ok: "sales_ok L c" and v: "create_research_token_sale_validate op = Inr ()"
    and i64: "int64 (amount (cs_hard_cap op))" "\<forall>t\<in>set (cs_security_tokens_on_sale op). int64 (amount t)"
    and ap: "create_research_token_sale_apply L op c = Inr c'"
  shows "sales_ok L c' \<and> circulating c' x = circulating c x \<and> head_block_time c' = head_block_time c \<and>
    head_block_time c \<le> cs_start_time op \<and> cs_start_time op < cs_end_time op \<and>
    (\<exists>i s. lookup (token_sales c) i = None \<and> ts_status s = sale_inactive \<and> amount (ts_total_amount s) = 0 \<and>
      ts_external_id s = cs_external_id op \<and>
      get_token_sales_by_status (ts_research_id s) sale_inactive c = [] \<and>
      get_token_sales_by_status (ts_research_id s) sale_active c = [] \<and>
      (\<forall>j. lookup (token_sales c') j = (if j = i then Some s else lookup (token_sales c) j)))"
proof -
  obtain rid :: nat and research :: research_object and c1 where
    none: "get_token_sales_by_status rid sale_inactive c = []" "get_token_sales_by_status rid sale_active c = []"
    and c1: "foldE (freeze_account_balance L (rs_research_group research)) (cs_security_tokens_on_sale op) c = Inr c1"
    and c2: "create_research_token_sale (cs_external_id op) rid research (cs_security_tokens_on_sale op)
             (cs_start_time op) (cs_end_time op) (cs_soft_cap op) (cs_hard_cap op) c1 = Inr c'"
    using ap by (auto simp: create_research_token_sale_apply_def ok_iff)
  have toks: "\<forall>t\<in>set (cs_security_tokens_on_sale op). int64 (amount t) \<and> 0 \<le> amount t"
    and cap: "symbol (cs_soft_cap op) = symbol (cs_hard_cap op)" "0 \<le> amount (cs_hard_cap op)"
    using v i64(2) by (auto simp: create_research_token_sale_validate_def ok_iff list_all_iff)
  have bo: "balances_ok L c"
    using ok by (simp add: sales_ok_def supply_ok_def)
  note fz = lg.freeze_all [OF toks c1 bo]
  have bb: "but_balances c1 = but_balances c" "balances_ok L c1"
    using fz by simp_all
  have circ: "circulating c1 y = circulating c y" for y
    using fz [of y] but_balances_fields(4) [OF bb(1)] by (simp add: circulating_def)
  note fr = but_balances_fields [OF bb(1)]
  have "supply_ok L c1"
    by (rule supply_ok_keep [of L c]) (use ok circ bb(2) fr(1) in \<open>simp_all add: sales_ok_def\<close>)
  moreover have "token_sale_ok c1 j s = token_sale_ok c j s" "contribution_ok c1 k = contribution_ok c k" for j s k
    by (simp_all add: token_sale_ok_def collected_def sale_contributions_def contribution_ok_def fr)
  ultimately have "sales_ok L c1"
    using ok by (simp add: sales_ok_def fr)
  from new_sale_law [OF this cap i64(1) toks c2, of x] none show ?thesis
    by (auto simp: circ fr)
qed

section \<open>Contributing\<close>

text \<open>The part of a contribution the sale takes: what is left to the hard cap.\<close>

definition taken :: "research_token_sale_object \<Rightarrow> int \<Rightarrow> int" where
  "taken s amt = min amt (amount (ts_hard_cap s) - amount (ts_total_amount s))"

definition with_contribution :: "int \<Rightarrow> research_token_sale_object \<Rightarrow> research_token_sale_object" where
  "with_contribution amt s =
     s\<lparr>ts_total_amount := \<lparr>amount = amount (ts_total_amount s) + taken s amt, symbol = symbol (ts_total_amount s)\<rparr>,
       ts_status := (if amount (ts_total_amount s) + amt \<ge> amount (ts_hard_cap s)
                     then sale_finished else ts_status s)\<rparr>"

lemma get_token_sale_update:
  "lookup (token_sales c) i = Some s \<Longrightarrow> update_status i st c = Inr c' \<Longrightarrow>
   head_block_time c' = head_block_time c"
  by (auto simp: update_status_def get_token_sale_def set_token_sales_def ok_iff)

lemma booked_time:
  assumes "contribute L i w time a c = Inr c1" "adjust_account_balance L w na c1 = Inr c2"
    "collect_funds L i a c2 = Inr c3" "balances_ok L c" "int64 (amount na)"
  shows "head_block_time c3 = head_block_time c"
proof -
  obtain t where t: "c1 = c\<lparr>contributions := t\<rparr>"
    using assms(1) by (auto simp: contribute_def set_contributions_def ok_iff split: option.splits)
  then have "balances_ok L c1"
    using assms(4) by (simp add: balances_ok_def)
  then have "but_balances c2 = but_balances c1"
    using lg.adjust_law [OF _ assms(5,2)] by blast
  then have "head_block_time c2 = head_block_time c"
    using but_balances_fields(5) [of c2 c1] t by simp
  then show ?thesis
    using assms(3) by (auto simp: collect_funds_def set_token_sales_def ok_iff)
qed

lemma contribute_apply_law:
  assumes ok: "sales_ok L c" and v: "contribute_validate op = Inr ()" and i64: "int64 (amount (co_amount op))"
    and ap: "contribute_apply L op c = Inr c'"
  shows "\<exists>i s. lookup (token_sales c) i = Some s \<and> ts_external_id s = co_token_sale_external_id op \<and>
    ts_status s = sale_active \<and> symbol (co_amount op) = symbol (ts_total_amount s) \<and>
    sales_ok L c' \<and> head_block_time c' = head_block_time c \<and> (\<forall>x. circulating c' x = circulating c x) \<and>
    (\<forall>j. lookup (token_sales c') j =
      (if j = i then Some (with_contribution (amount (co_amount op)) s) else lookup (token_sales c) j)) \<and>
    (amount (ts_total_amount s) + amount (co_amount op) < amount (ts_hard_cap s) \<longrightarrow>
      (\<forall>v x. spendable c' v x = spendable c v x -
        (if v = co_contributor op \<and> x = symbol (co_amount op) then amount (co_amount op) else 0)))"
proof -
  have pos: "0 < amount (co_amount op)"
    using v by (auto simp: contribute_validate_def ok_iff)
  obtain i s reached after a na c1 c2 c3 where
    f: "find_row (\<lambda>s. ts_external_id s = co_token_sale_external_id op) (token_sales c) = Some (i, s)"
    and st: "ts_status s = sale_active"
    and after: "asset_plus L (ts_total_amount s) (co_amount op) = Inr after"
    and reached: "asset_ge after (ts_hard_cap s) = Inr reached"
    and a: "(if reached then asset_minus L (ts_hard_cap s) (ts_total_amount s) else Inr (co_amount op)) = Inr a"
    and c1: "contribute L i (co_contributor op) (head_block_time c) a c = Inr c1"
    and na: "asset_uminus L a = Inr na"
    and c2: "adjust_account_balance L (co_contributor op) na c1 = Inr c2"
    and c3: "collect_funds L i a c2 = Inr c3"
    and c': "(if reached then bindE (update_status i sale_finished c3) (finish_research_token_sale L i)
              else Inr c3) = Inr c'"
    using ap by (auto simp: contribute_apply_def ok_iff simp del: bex_simps)
  have wf: "wf_index token_sale_key (token_sales c)" and L: "safe_ok L" "balances_ok L c"
    using ok by (auto simp: sales_ok_def supply_ok_def balances_ok_def)
  have s: "lookup (token_sales c) i = Some s" "ts_external_id s = co_token_sale_external_id op"
    using find_row_Some [OF f] cb.mem_map_of [OF wf] by (auto simp: lookup_def)
  have so: "token_sale_ok c i s"
    using ok s(1) by (simp add: sales_ok_def)
  then have it: "int64 (amount (ts_total_amount s))" "int64 (amount (ts_hard_cap s))"
    by (auto simp: token_sale_ok_def int64_iff)
  note pl = plus_D [OF after L(1) it(1) i64]
  have r: "reached \<longleftrightarrow> amount (ts_hard_cap s) \<le> amount (ts_total_amount s) + amount (co_amount op)"
    using ge_D [OF reached] pl by simp
  have a': "amount a = taken s (amount (co_amount op))" "symbol a = symbol (ts_total_amount s)" "int64 (amount a)"
    using a r pl i64 so minus_D [OF _ L(1) it(2,1)]
    by (auto simp: taken_def token_sale_ok_def split: if_splits)
  then have bounds: "0 \<le> amount a" "amount (ts_total_amount s) + amount a \<le> amount (ts_hard_cap s)"
    using pos so by (auto simp: taken_def token_sale_ok_def)
  note booked = contribution_booked [OF ok s(1) st a'(3,2) bounds c1 na c2 c3]
  note neg = uminus_D [OF na L(1) a'(3)]
  have tm: "head_block_time c3 = head_block_time c"
    using booked_time [OF c1 c2 c3 L(2)] neg by blast
  let ?s = "s\<lparr>ts_total_amount := \<lparr>amount = amount (ts_total_amount s) + amount a, symbol = symbol (ts_total_amount s)\<rparr>\<rparr>"
  have rest: "sales_ok L c' \<and> head_block_time c' = head_block_time c \<and> circulating c' x = circulating c x \<and>
    lookup (token_sales c') j =
      (if j = i then Some (with_contribution (amount (co_amount op)) s) else lookup (token_sales c) j)" for x j
  proof (cases reached)
    case False
    then show ?thesis
      using c' booked r tm st by (auto simp: with_contribution_def a'(1))
  next
    case True
    then obtain c4 where c4: "update_status i sale_finished c3 = Inr c4" "finish_research_token_sale L i c4 = Inr c'"
      using c' by (auto simp: ok_iff)
    have s3: "lookup (token_sales c3) i = Some ?s" "ts_status ?s = sale_active"
      using booked st by simp_all
    show ?thesis
      using close_sale [OF _ s3 c4(1), of L c' x j] settled_time [OF _ s3 c4(1), of L c'] c4(2) booked tm True r
      by (auto simp: with_contribution_def a'(1))
  qed
  have "spendable c' v x = spendable c v x -
        (if v = co_contributor op \<and> x = symbol (co_amount op) then amount (co_amount op) else 0)"
    if "amount (ts_total_amount s) + amount (co_amount op) < amount (ts_hard_cap s)" for v x
    using that r c' a booked by (auto split: if_splits)
  with rest s st pl show ?thesis
    by (intro exI [of _ i] exI [of _ s]) auto
qed

section \<open>Steps\<close>

definition amounts_fit :: "create_research_token_sale_operation \<Rightarrow> bool" where
  "amounts_fit op \<longleftrightarrow> int64 (amount (cs_hard_cap op)) \<and>
     (\<forall>t\<in>set (cs_security_tokens_on_sale op). int64 (amount t))"

inductive sale_step :: "fc_lib \<Rightarrow> chain \<Rightarrow> chain \<Rightarrow> bool" for L where
  step_create: "create_research_token_sale_validate op = Inr () \<Longrightarrow> amounts_fit op \<Longrightarrow>
    create_research_token_sale_apply L op c = Inr c' \<Longrightarrow> sale_step L c c'"
| step_contribute: "contribute_validate op = Inr () \<Longrightarrow> int64 (amount (co_amount op)) \<Longrightarrow>
    contribute_apply L op c = Inr c' \<Longrightarrow> sale_step L c c'"
| step_process: "process_research_token_sales L c = Inr c' \<Longrightarrow> sale_step L c c'"
| step_time: "head_block_time c \<le> t \<Longrightarrow> sale_step L c (c\<lparr>head_block_time := t\<rparr>)"

inductive sale_run :: "fc_lib \<Rightarrow> chain \<Rightarrow> chain \<Rightarrow> bool" for L where
  run_refl: "sale_run L c c"
| run_step: "sale_run L c c' \<Longrightarrow> sale_step L c' c'' \<Longrightarrow> sale_run L c c''"

text \<open>What a sale may become: its terms are fixed, its total only grows, and it never leaves
  a final status nor goes back to inactive.\<close>

definition evolves :: "research_token_sale_object \<Rightarrow> research_token_sale_object \<Rightarrow> bool" where
  "evolves s s' \<longleftrightarrow>
     s'\<lparr>ts_total_amount := ts_total_amount s, ts_status := ts_status s\<rparr> = s \<and>
     amount (ts_total_amount s) \<le> amount (ts_total_amount s') \<and>
     (ts_status s \<in> {sale_finished, sale_expired} \<longrightarrow> s' = s) \<and>
     (ts_status s = sale_active \<longrightarrow> ts_status s' \<noteq> sale_inactive)"

definition sales_evolve :: "chain \<Rightarrow> chain \<Rightarrow> bool" where
  "sales_evolve c c' \<longleftrightarrow> (\<forall>i s. lookup (token_sales c) i = Some s \<longrightarrow>
     (\<exists>s'. lookup (token_sales c') i = Some s' \<and> evolves s s'))"

lemma evolves_refl [simp]: "evolves s s"
  by (simp add: evolves_def)

lemma evolves_trans: "evolves s s' \<Longrightarrow> evolves s' s'' \<Longrightarrow> evolves s s''"
  by (cases s; cases s'; cases s''; cases "ts_status s'") (auto simp: evolves_def)

lemma evolves_due: "evolves s (due now s)"
  by (auto simp: evolves_def due_def due_status_def)

lemma evolves_contribution:
  "ts_status s = sale_active \<Longrightarrow> amount (ts_total_amount s) \<le> amount (ts_hard_cap s) \<Longrightarrow> 0 < amt \<Longrightarrow>
   evolves s (with_contribution amt s)"
  by (auto simp: evolves_def with_contribution_def taken_def)

lemma sale_step_law:
  assumes "sale_step L c c'" and ok: "sales_ok L c"
  shows "sales_ok L c' \<and> circulating c' x = circulating c x \<and> sales_evolve c c'"
  using assms(1)
proof cases
  case (step_create op)
  from create_sale_law [OF ok step_create(1) _ _ step_create(3), of x] step_create(2) show ?thesis
    by (auto simp: amounts_fit_def sales_evolve_def)
next
  case (step_contribute op)
  have "0 < amount (co_amount op)"
    using step_contribute(1) by (auto simp: contribute_validate_def ok_iff)
  with contribute_apply_law [OF ok step_contribute] ok show ?thesis
    by (fastforce simp: sales_evolve_def sales_ok_def token_sale_ok_def intro: evolves_contribution)
next
  case step_process
  then show ?thesis
    using process_pass_law [OF step_process ok] by (auto simp: sales_evolve_def evolves_due)
next
  case (step_time t)
  have "balances_ok L c' = balances_ok L c" "circulating c' y = circulating c y" "collected c' j = collected c j"
    "sale_contributions j c' = sale_contributions j c" for y j
    by (simp_all add: step_time balances_ok_def circulating_def held_def escrowed_def collected_def sale_contributions_def)
  then have "sales_ok L c'" "circulating c' x = circulating c x"
    using ok by (simp_all add: step_time sales_ok_def supply_ok_def token_sale_ok_def contribution_ok_def)
  then show ?thesis
    by (auto simp: step_time sales_evolve_def)
qed

lemma sale_run_law:
  assumes "sale_run L c c'" "sales_ok L c"
  shows "sales_ok L c' \<and> circulating c' x = circulating c x \<and> sales_evolve c c'"
  using assms
proof (induction rule: sale_run.induct)
  case (run_refl c)
  then show ?case
    by (auto simp: sales_evolve_def)
next
  case (run_step c c' c'')
  then show ?case
    using sale_step_law [OF run_step.hyps(2), of x] unfolding sales_evolve_def by (metis evolves_trans)
qed

end
