(* ===== verification/Sale_Properties.thy ===== *)
theory Sale_Properties
  imports Sale_Steps
begin

text \<open>
  The properties of the token sales, with the concrete chains that show each can be applied:
  a research group sells 10000 units of the security token SEC for TOK.
\<close>

section \<open>Concrete chains\<close>

definition SEC :: "64 word" where
  "SEC = 2 + 0x53 * 2 ^ 8 + 0x45 * 2 ^ 16 + 0x43 * 2 ^ 24"

lemma SEC_neq [simp]: "SEC \<noteq> TOK" "TOK \<noteq> SEC" "SEC \<noteq> DEIP_SYMBOL" "DEIP_SYMBOL \<noteq> SEC"
  by (simp_all add: SEC_def TOK_def DEIP_SYMBOL_def)

definition sale_id :: string where
  "sale_id = replicate 40 CHR ''0''"

definition demo_sale :: "int \<Rightarrow> token_sale_status \<Rightarrow> research_token_sale_object" where
  "demo_sale tot st = \<lparr>ts_external_id = sale_id, ts_research_id = 0, ts_research_external_id = ''research'',
     ts_security_tokens_on_sale = [\<lparr>amount = 10000, symbol = SEC\<rparr>], ts_start_time = 50, ts_end_time = 100,
     ts_total_amount = \<lparr>amount = tot, symbol = TOK\<rparr>, ts_soft_cap = \<lparr>amount = 5, symbol = TOK\<rparr>,
     ts_hard_cap = \<lparr>amount = 20, symbol = TOK\<rparr>, ts_status = st\<rparr>"

definition demo_security :: asset_object where
  "demo_security = \<lparr>as_symbol = SEC, as_string_symbol = ''SEC'', as_precision = 2, as_issuer = ''group'',
     as_description = [], as_type = research_security_token, as_tokenized_research = Some ''research'',
     as_license_revenue_holders_share = None, as_max_supply = 10000, as_current_supply = 10000,
     as_is_default = False\<rparr>"

definition security_balance :: account_balance_object where
  "security_balance = \<lparr>ab_asset_id = 2, ab_symbol = SEC, ab_string_symbol = ''SEC'', ab_owner = ''group'',
     ab_amount = 0, ab_frozen_amount = 10000, ab_tokenized_research = Some ''research''\<rparr>"

definition demo_contribution :: "string \<Rightarrow> int \<Rightarrow> contribution_object" where
  "demo_contribution w a = \<lparr>tc_research_token_sale = sale_id, tc_research_token_sale_id = 0,
     tc_owner = w, tc_amount = \<lparr>amount = a, symbol = TOK\<rparr>, tc_contribution_time = 60\<rparr>"

definition sale_chain :: "int \<Rightarrow> int \<Rightarrow> token_sale_status \<Rightarrow> (string \<times> int) list \<Rightarrow> chain" where
  "sale_chain now purse st ks = empty_chain\<lparr>head_block_time := now, trx_ref_block_num := 1, trx_ref_block_prefix := 2,
     accounts := table [\<lparr>acc_name = ''group''\<rparr>, \<lparr>acc_name = ''bob''\<rparr>],
     assets := table [demo_asset DEIP_SYMBOL ''DEIP'' 0, demo_asset TOK ''TOK'' (purse + sum_list (map snd ks)), demo_security],
     balances := table [security_balance, demo_balance ''bob'' purse 0],
     researches := table [\<lparr>rs_external_id = ''research'', rs_research_group_id = 0,
                           rs_research_group = ''group'', rs_security_tokens = [\<lparr>amount = 10000, symbol = SEC\<rparr>]\<rparr>],
     research_groups := table [demo_group ''group'' ''alice''],
     token_sales := table [demo_sale (sum_list (map snd ks)) st],
     contributions := table (map (\<lambda>(w, a). demo_contribution w a) ks)\<rparr>"

lemmas sale_chain_defs = sale_chain_def demo_defs demo_sale_def demo_security_def security_balance_def
  demo_contribution_def

lemmas eval_sale = eval_balance get_token_sale_def get_research_def get_research_by_id_def
  contribute_apply_def contribute_def collect_funds_def set_token_sales_def set_contributions_def
  asset_plus_def token_sale_key_def contribution_key_def

lemma sales_ok_start: "sales_ok fc_ref (sale_chain now 30 st [])"
proof -
  have "supply_ok fc_ref (sale_chain now 30 st [])"
    by (simp add: supply_ok_def balances_ok_def balance_ok_def wf_index_def wf_rows_def asset_ok_def
      circulating_def held_def holding_def escrowed_def locked_def sale_chain_defs int64_iff balance_key_def asset_key_def)
  then show ?thesis
    by (auto simp: sales_ok_def wf_index_def wf_rows_def token_sale_ok_def collected_def sale_contributions_def
        sale_chain_defs lookup_def int64_iff split: if_splits)
qed

definition demo_contribute :: "int \<Rightarrow> contribute_operation" where
  "demo_contribute a = \<lparr>co_token_sale_external_id = sale_id, co_contributor = ''bob'',
     co_amount = \<lparr>amount = a, symbol = TOK\<rparr>\<rparr>"

lemma demo_contribute_runs: "\<exists>c'. contribute_apply fc_ref (demo_contribute 8) (sale_chain 60 30 sale_active []) = Inr c'"
  by (simp add: eval_sale sale_chain_defs demo_contribute_def)

lemma demo_contribute_valid: "0 < a \<Longrightarrow> contribute_validate (demo_contribute a) = Inr ()"
  by (simp add: contribute_validate_def demo_contribute_def validate_account_name_def sale_id_def
      validate_160_bits_hexadecimal_string_def validate_hex_def isxdigit_def isdigit_def list_all_iff)

section \<open>Properties\<close>

text \<open>
  C16. Whatever happens to the token sales (sales are created, contributed to, processed by
  the maintenance pass, time passes), the state stays consistent: the total of a running
  sale is the sum of its contributions and never exceeds its hard cap, a settled sale holds
  no contribution, no balance is negative, every asset's supply accounts for every token,
  and no token is created or destroyed.
\<close>

theorem sale_run_consistent:
  assumes "sale_run L c c'" "sales_ok L c"
  shows "sales_ok L c' \<and> (\<forall>x. circulating c' x = circulating c x)"
  using sale_run_law [OF assms] by blast

lemma sale_run_consistent_witness:
  "\<exists>c'. contribute_apply fc_ref (demo_contribute 8) (sale_chain 60 30 sale_active []) = Inr c' \<and>
     sales_ok fc_ref (c'\<lparr>head_block_time := 70\<rparr>)"
proof -
  let ?c = "sale_chain 60 30 sale_active []"
  obtain c' where c': "contribute_apply fc_ref (demo_contribute 8) ?c = Inr c'"
    using demo_contribute_runs by blast
  have i: "int64 (amount (co_amount (demo_contribute 8)))"
    by (simp add: demo_contribute_def int64_iff)
  have "head_block_time c' = 60"
    using contribute_apply_law [OF sales_ok_start demo_contribute_valid i c'] by (auto simp: sale_chain_def)
  then have "sale_step fc_ref c' (c'\<lparr>head_block_time := 70\<rparr>)"
    by (intro step_time) simp
  moreover have "sale_step fc_ref ?c c'"
    by (rule step_contribute [OF demo_contribute_valid i c']) simp
  ultimately have "sale_run fc_ref ?c (c'\<lparr>head_block_time := 70\<rparr>)"
    by (meson run_refl run_step)
  from sale_run_consistent [OF this sales_ok_start] c' show ?thesis
    by blast
qed

text \<open>
  C17. The life of a sale: no sale disappears, its terms never change, its total never
  shrinks, an active sale never becomes inactive again, and a finished or expired sale
  never changes at all.
\<close>

theorem sale_lifecycle:
  assumes "sale_run L c c'" "sales_ok L c" "lookup (token_sales c) i = Some s"
  shows "\<exists>s'. lookup (token_sales c') i = Some s' \<and> evolves s s'"
  using sale_run_law [OF assms(1,2)] assms(3) by (auto simp: sales_evolve_def)

lemma sale_lifecycle_witness:
  "\<exists>c' s'. sale_run fc_ref (sale_chain 60 30 sale_active []) c' \<and>
     lookup (token_sales c') 0 = Some s' \<and> evolves (demo_sale 0 sale_active) s'"
proof -
  let ?c = "sale_chain 60 30 sale_active []"
  obtain c' where c': "contribute_apply fc_ref (demo_contribute 8) ?c = Inr c'"
    using demo_contribute_runs by blast
  have "sale_step fc_ref ?c c'"
    by (rule step_contribute [OF demo_contribute_valid _ c']) (simp_all add: demo_contribute_def int64_iff)
  then have r: "sale_run fc_ref ?c c'"
    by (meson run_refl run_step)
  have "lookup (token_sales ?c) 0 = Some (demo_sale 0 sale_active)"
    by (simp add: lookup_def sale_chain_def table_def)
  from sale_lifecycle [OF r sales_ok_start this] r show ?thesis
    by blast
qed




lemma expired_runs:
  "\<exists>c'. process_research_token_sales fc_ref (sale_chain 100 30 sale_active []) = Inr c'"
  by (simp add: process_research_token_sales_def process_sale_def update_status_def refund_research_token_sale_def
      unfreeze_account_balance_def sale_contributions_def eval_sale sale_chain_defs)


section \<open>Where the maintenance pass falls short\<close>

lemma sixth:
  "double (1 / 6) = 6004799503160661 / 36028797018963968"
  "double (6004799503160661 / 36028797018963968 * 100) = 2345624805922133 / 140737488355328"
  "double (2345624805922133 / 140737488355328 * 100) = 3665038759253333 / 2199023255552"
  "double (58640620148053325 / 35184372088832) = 3665038759253333 / 2199023255552"
  "double 1 = 1" "double 6 = 6"
  by code_simp+

lemma percent_share_sixth: "percent_share 1 6 = Inr \<lparr>pc_amount = 1667, pc_decimals = 2\<rparr>"
  unfolding percent_share_def Let_def
  by (simp only: sixth of_int_1 of_int_numeral)
    (simp add: sixth DEIP_1_PERCENT_def DEIP_100_PERCENT_def std_round_def raw_def int64_iff mk_percent_def floor_eq_iff)

definition six :: "(string \<times> int) list" where
  "six = [(''u1'', 1), (''u2'', 1), (''u3'', 1), (''u4'', 1), (''u5'', 1), (''u6'', 1)]"

lemma sales_ok_six: "sales_ok fc_ref (sale_chain 100 0 sale_active six)"
proof -
  have "supply_ok fc_ref (sale_chain 100 0 sale_active six)"
    by (simp add: supply_ok_def balances_ok_def balance_ok_def wf_index_def wf_rows_def asset_ok_def
      circulating_def held_def holding_def escrowed_def locked_def sale_chain_defs int64_iff balance_key_def asset_key_def six_def)
  moreover have "wf_index contribution_key (contributions (sale_chain 100 0 sale_active six))"
    by (simp add: wf_index_def wf_rows_def sale_chain_defs six_def contribution_key_def)
  ultimately show ?thesis
    by (auto simp: sales_ok_def wf_index_def wf_rows_def token_sale_ok_def collected_def sale_contributions_def
        sale_chain_defs lookup_def int64_iff six_def contribution_ok_def split: if_splits)
qed

lemma share_of_sixth:
  "asset_share_of fc_ref \<lparr>amount = 10000, symbol = SEC\<rparr> \<lparr>pc_amount = 1667, pc_decimals = 2\<rparr> =
    Inr \<lparr>amount = 1667, symbol = SEC\<rparr>"
  by (simp add: asset_share_of_def share_of_def percent_precision_def raw_def mk_percent_def mul_def sdivide_def
      fc_ref_def checked_def int64_iff sdiv_nonneg precision_table_def)

lemma ref_ops:
  "int64 x \<Longrightarrow> int64 y \<Longrightarrow> add fc_ref x y = (if int64 (x + y) then Inr (x + y) else Inl Overflow)"
  "int64 x \<Longrightarrow> int64 y \<Longrightarrow> sub fc_ref x y = (if int64 (x - y) then Inr (x - y) else Inl Overflow)"
  "int64 (- x) \<Longrightarrow> int64 x \<Longrightarrow> asset_uminus fc_ref \<lparr>amount = x, symbol = s\<rparr> = Inr \<lparr>amount = - x, symbol = s\<rparr>"
  using fc_ref_ok(1) by (simp_all add: add_def sub_def asset_uminus_def safe_ok_def checked_def)


lemma missed_step:
  assumes "sale_step L c c'" and ok: "sales_ok L c" and s: "lookup (token_sales c) i = Some s"
    and miss: "ts_status s = sale_inactive" "ts_end_time s \<le> head_block_time c"
  shows "lookup (token_sales c') i = Some s \<and> ts_end_time s \<le> head_block_time c' \<and> sales_ok L c'"
  using assms(1)
proof cases
  case (step_create op)
  then show ?thesis
    using create_sale_law [OF ok step_create(1) _ _ step_create(3), of 0] s miss(2)
    by (auto simp: amounts_fit_def)
next
  case (step_contribute op)
  then show ?thesis
    using contribute_apply_law [OF ok step_contribute] s miss by (elim exE conjE) auto
next
  case step_process
  have "due (head_block_time c) s = s"
    using miss by (simp add: due_def due_status_def)
  then show ?thesis
    using process_pass_law [OF step_process ok, of _ i] s miss(2) by simp
next
  case (step_time t)
  then show ?thesis
    using sale_step_law [OF assms(1) ok] s miss(2) by simp
qed

text \<open>
  C21. A sale whose whole window passes between two maintenance passes is lost: whatever
  happens to the sales later, it stays inactive as it is, and because an inactive sale
  blocks the creation of another one, no later sale of that research can be created.
\<close>

theorem missed_window_blocks:
  assumes "sales_ok L c" "lookup (token_sales c) i = Some s" "ts_status s = sale_inactive"
    and "ts_end_time s \<le> head_block_time c" "sale_run L c c'"
    and "get_research (cs_research_external_id op) c' = Inr (ts_research_id s, r)"
  shows "lookup (token_sales c') i = Some s \<and> \<not> succeeds (create_research_token_sale_apply L op c')"
proof -
  have run: "lookup (token_sales c') i = Some s \<and> ts_end_time s \<le> head_block_time c' \<and> sales_ok L c'"
    using assms(5,1-4)
  proof (induction rule: sale_run.induct)
    case (run_step c c' c'')
    then show ?case
      using missed_step [OF run_step.hyps(2)] by blast
  qed simp
  then have "(i, s) \<in> set (get_token_sales_by_status (ts_research_id s) sale_inactive c')"
    using assms(3) cb.mem_map_of [of token_sale_key "token_sales c'" i s]
    by (simp add: get_token_sales_by_status_def lookup_def sales_ok_def)
  then have "get_token_sales_by_status (ts_research_id s) sale_inactive c' \<noteq> []"
    by force
  then have "create_research_token_sale_apply L op c' \<noteq> Inr d" for d
    using assms(6) by (auto simp: create_research_token_sale_apply_def ok_iff)
  then show ?thesis
    using run by (auto simp: succeeds_iff)
qed

lemma missed_window_blocks_witness:
  "\<not> succeeds (create_research_token_sale_apply fc_ref
     \<lparr>cs_external_id = ''new'', cs_research_group = ''group'', cs_research_external_id = ''research'',
      cs_start_time = 150, cs_end_time = 200, cs_security_tokens_on_sale = [],
      cs_soft_cap = \<lparr>amount = 1, symbol = TOK\<rparr>, cs_hard_cap = \<lparr>amount = 2, symbol = TOK\<rparr>\<rparr>
     (sale_chain 100 30 sale_inactive []))"
proof -
  let ?c = "sale_chain 100 30 sale_inactive []"
  have s: "lookup (token_sales ?c) 0 = Some (demo_sale 0 sale_inactive)"
    by (simp add: lookup_def sale_chain_def table_def)
  have t: "ts_status (demo_sale 0 sale_inactive) = sale_inactive"
    "ts_end_time (demo_sale 0 sale_inactive) \<le> head_block_time ?c"
    by (simp_all add: demo_sale_def sale_chain_def)
  show ?thesis
    by (rule missed_window_blocks [OF sales_ok_start s t run_refl, THEN conjunct2])
      (simp add: get_research_def find_row_def sale_chain_defs)
qed

end
