(* ===== verification/Vesting.thy ===== *)
theory Vesting
  imports Token_Operations
begin

text \<open>
  Vesting contracts: \<open>libraries/chain/services/dbs_vesting_balance.cpp\<close> and the evaluators
  \<open>create_vesting_balance\<close> and \<open>withdraw_vesting_balance\<close> of
  \<open>libraries/chain/deip_evaluator.cpp\<close>. A contract releases its deposit in equal parts at
  the end of each period once its cliff has passed. Seconds are integers: the \<open>uint32_t\<close>
  of the code divides and compares only.
\<close>

section \<open>The service\<close>

definition set_vestings :: "vesting_balance_object generic_index result \<Rightarrow> chain \<Rightarrow> chain result" where
  "set_vestings r c = bindE r (\<lambda>t. Inr (c\<lparr>vestings := t\<rparr>))"

definition create_vesting :: "string \<Rightarrow> asset \<Rightarrow> int \<Rightarrow> int \<Rightarrow> int \<Rightarrow> chain \<Rightarrow> chain result" where
  "create_vesting owner balance duration period cliff c =
     set_vestings
       (bindE (emplace no_key
          \<lparr>vb_owner = owner, vb_balance = balance, vb_withdrawn = \<lparr>amount = 0, symbol = DEIP_SYMBOL\<rparr>,
           vb_vesting_duration_seconds = duration, vb_period_duration_seconds = period,
           vb_vesting_cliff_seconds = cliff, vb_start_timestamp = head_block_time c\<rparr>
          (vestings c)) (\<lambda>(i, t). Inr t)) c"

definition get_vesting :: "nat \<Rightarrow> chain \<Rightarrow> vesting_balance_object result" where
  "get_vesting i c = the_or Out_of_range (lookup (vestings c) i)"

definition get_vesting_balance_if_exists :: "nat \<Rightarrow> chain \<Rightarrow> vesting_balance_object option" where
  "get_vesting_balance_if_exists i c = lookup (vestings c) i"

definition get_vesting_balance_by_owner :: "string \<Rightarrow> chain \<Rightarrow> (nat \<times> vesting_balance_object) list" where
  "get_vesting_balance_by_owner w c = filter (\<lambda>p. vb_owner (snd p) = w) (rows (vestings c))"

definition withdraw_vesting :: "fc_lib \<Rightarrow> nat \<Rightarrow> asset \<Rightarrow> chain \<Rightarrow> chain result" where
  "withdraw_vesting L i a c =
     bindE (get_vesting i c) (\<lambda>v.
     bindE (asset_ge (vb_balance v) a) (\<lambda>ge.
     require ge Insufficient_funds
      (bindE (asset_minus L (vb_balance v) a) (\<lambda>b.
       bindE (asset_plus L (vb_withdrawn v) a) (\<lambda>w.
         set_vestings (modify no_key i (\<lambda>v. v\<lparr>vb_balance := b, vb_withdrawn := w\<rparr>) (vestings c)) c)))))"

definition check_vesting_existence :: "nat \<Rightarrow> chain \<Rightarrow> unit result" where
  "check_vesting_existence i c = require (lookup (vestings c) i \<noteq> None) Not_found (Inr ())"

section \<open>The operations\<close>

record create_vesting_balance_operation =
  cv_creator :: string
  cv_owner :: string
  cv_balance :: asset
  cv_vesting_duration_seconds :: int
  cv_vesting_cliff_seconds :: int
  cv_period_duration_seconds :: int

definition create_vesting_balance_validate :: "create_vesting_balance_operation \<Rightarrow> unit result" where
  "create_vesting_balance_validate op =
     bindE (asset_gt (cv_balance op) \<lparr>amount = 0, symbol = DEIP_SYMBOL\<rparr>) (\<lambda>gt.
     require gt Bad_amount
    (require (cv_vesting_duration_seconds op > 0 \<and>
              cv_vesting_duration_seconds op > cv_vesting_cliff_seconds op) Bad_time
    (require (cv_vesting_cliff_seconds op \<ge> 0) Bad_time
    (require (cv_period_duration_seconds op > 0) Bad_time
    (require (cv_vesting_duration_seconds op mod cv_period_duration_seconds op = 0) Bad_time
      (bindE (validate_account_name (cv_creator op)) (\<lambda>_. validate_account_name (cv_owner op))))))))"

definition create_vesting_balance_apply :: "fc_lib \<Rightarrow> create_vesting_balance_operation \<Rightarrow> chain \<Rightarrow> chain result" where
  "create_vesting_balance_apply L op c =
     bindE (check_account_existence (cv_creator op) c) (\<lambda>_.
     bindE (check_account_existence (cv_owner op) c) (\<lambda>_.
     require (account_balance_exists (cv_creator op) (symbol (cv_balance op)) c) Not_found
      (bindE (get_account_balance (cv_creator op) (symbol (cv_balance op)) c) (\<lambda>(i, b).
       require (ab_amount b \<ge> amount (cv_balance op)) Insufficient_funds
        (bindE (asset_uminus L (cv_balance op)) (\<lambda>nb.
         bindE (adjust_account_balance L (cv_creator op) nb c)
           (create_vesting (cv_owner op) (cv_balance op) (cv_vesting_duration_seconds op)
              (cv_period_duration_seconds op) (cv_vesting_cliff_seconds op)))))))) "

record withdraw_vesting_balance_operation =
  wv_vesting_balance_id :: nat
  wv_owner :: string
  wv_amount :: asset

definition withdraw_vesting_balance_validate :: "withdraw_vesting_balance_operation \<Rightarrow> unit result" where
  "withdraw_vesting_balance_validate op =
     bindE (asset_gt (wv_amount op) \<lparr>amount = 0, symbol = DEIP_SYMBOL\<rparr>) (\<lambda>gt.
     require gt Bad_amount (validate_account_name (wv_owner op)))"

text \<open>What has vested after some seconds: computed from the balance that is left.\<close>

definition total_vested :: "fc_lib \<Rightarrow> vesting_balance_object \<Rightarrow> int \<Rightarrow> int result" where
  "total_vested L v elapsed =
     (if elapsed < vb_vesting_duration_seconds v then
        if vb_period_duration_seconds v = 0 then Inl Undefined_behaviour
        else
          let withdraw_period = elapsed div vb_period_duration_seconds v;
              total_periods = vb_vesting_duration_seconds v div vb_period_duration_seconds v
          in bindE (mul L (amount (vb_balance v)) withdraw_period) (\<lambda>m. sdivide L m total_periods)
      else Inr (amount (vb_balance v)))"

definition withdraw_vesting_balance_apply ::
  "fc_lib \<Rightarrow> withdraw_vesting_balance_operation \<Rightarrow> chain \<Rightarrow> chain result" where
  "withdraw_vesting_balance_apply L op c =
     bindE (check_account_existence (wv_owner op) c) (\<lambda>_.
     bindE (check_vesting_existence (wv_vesting_balance_id op) c) (\<lambda>_.
     bindE (get_vesting (wv_vesting_balance_id op) c) (\<lambda>v.
     require (wv_owner op = vb_owner v) Not_authorized
      (let now = head_block_time c
       in if now \<ge> vb_start_timestamp v then
            let elapsed = now - vb_start_timestamp v
            in if elapsed \<ge> vb_vesting_cliff_seconds v then
                 bindE (total_vested L v elapsed) (\<lambda>vested.
                 require (vested \<ge> 0) Bad_amount
                  (bindE (sub L vested (amount (vb_withdrawn v))) (\<lambda>allowed.
                   require (allowed \<ge> 0) Bad_amount
                  (require (allowed \<ge> amount (wv_amount op)) Limit_exceeded
                    (bindE (withdraw_vesting L (wv_vesting_balance_id op) (wv_amount op) c)
                      (adjust_account_balance L (wv_owner op) (wv_amount op)))))))
               else Inr c
          else Inr c))))"

section \<open>What the contracts keep\<close>

definition vesting_ok :: "vesting_balance_object \<Rightarrow> bool" where
  "vesting_ok v \<longleftrightarrow> symbol (vb_balance v) = DEIP_SYMBOL \<and> symbol (vb_withdrawn v) = DEIP_SYMBOL \<and>
     0 \<le> amount (vb_balance v) \<and> 0 \<le> amount (vb_withdrawn v) \<and>
     int64 (amount (vb_balance v) + amount (vb_withdrawn v)) \<and>
     0 < vb_period_duration_seconds v \<and> 0 < vb_vesting_duration_seconds v \<and>
     vb_vesting_duration_seconds v < 2 ^ 32 \<and> vb_vesting_duration_seconds v mod vb_period_duration_seconds v = 0 \<and>
     0 \<le> vb_vesting_cliff_seconds v"

definition vestings_ok :: "fc_lib \<Rightarrow> chain \<Rightarrow> bool" where
  "vestings_ok L c \<longleftrightarrow> supply_ok L c \<and> wf_index no_key (vestings c) \<and>
     (\<forall>p\<in>set (rows (vestings c)). vesting_ok (snd p))"

text \<open>The part of a deposit the schedule releases after some seconds.\<close>

definition released :: "vesting_balance_object \<Rightarrow> int \<Rightarrow> int" where
  "released v elapsed =
     (let deposit = amount (vb_balance v) + amount (vb_withdrawn v)
      in if elapsed < vb_vesting_cliff_seconds v then 0
         else if elapsed < vb_vesting_duration_seconds v
         then deposit * (elapsed div vb_period_duration_seconds v) div
                (vb_vesting_duration_seconds v div vb_period_duration_seconds v)
         else deposit)"

lemma total_vested_le:
  assumes v: "vesting_ok v" and L: "safe_ok L" and e: "0 \<le> elapsed"
    and t: "total_vested L v elapsed = Inr x"
  shows "int64 x \<and> x \<le> amount (vb_balance v) \<and>
    (vb_vesting_cliff_seconds v \<le> elapsed \<longrightarrow> x \<le> released v elapsed)"
proof (cases "elapsed < vb_vesting_duration_seconds v")
  case False
  then show ?thesis
    using t v by (auto simp: total_vested_def released_def vesting_ok_def int64_iff)
next
  case True
  let ?b = "amount (vb_balance v)" and ?d = "amount (vb_balance v) + amount (vb_withdrawn v)"
  let ?p = "elapsed div vb_period_duration_seconds v"
  let ?n = "vb_vesting_duration_seconds v div vb_period_duration_seconds v"
  have pos: "0 < vb_period_duration_seconds v" "0 < vb_vesting_duration_seconds v" "vb_vesting_duration_seconds v < 2 ^ 32"
    "vb_vesting_duration_seconds v = ?n * vb_period_duration_seconds v" "0 \<le> ?b" "?b \<le> ?d" "int64 ?d"
    using v by (auto simp: vesting_ok_def)
  have n: "0 < ?n"
    using pos(1,2,4) by (metis zero_less_mult_pos2)
  have p: "0 \<le> ?p" "?p \<le> ?n"
    using e pos(1) True zdiv_mono1 [of elapsed "vb_vesting_duration_seconds v"] by (auto simp: pos_imp_zdiv_nonneg_iff)
  have "?n * 1 \<le> ?n * vb_period_duration_seconds v"
    using n pos(1) by (intro mult_left_mono) auto
  then have "?n \<le> vb_vesting_duration_seconds v"
    using pos(4) by simp
  then have i: "int64 ?p" "int64 ?n" "int64 ?b"
    using p n pos(3,5,6,7) by (auto simp: int64_iff)
  obtain m where m: "mul L ?b ?p = Inr m" "sdivide L m ?n = Inr x"
    using t True pos(1) by (auto simp: total_vested_def Let_def ok_iff)
  have m': "m = ?b * ?p" "int64 m"
    using mul_D [OF m(1) L i(3,1)] by auto
  have x: "x = ?b * ?p div ?n" "int64 x"
    using m(2) sdivide_ok [OF L m'(2) i(2)] n m'(1) pos(5) p(1) by (auto simp: sdiv_nonneg)
  have "?b * ?p \<le> ?d * ?p" "?b * ?p \<le> ?b * ?n"
    using pos(5,6) p by (auto intro: mult_right_mono mult_left_mono)
  then have "x \<le> ?d * ?p div ?n" "x \<le> ?b * ?n div ?n"
    unfolding x(1) using n by (metis zdiv_mono1)+
  then show ?thesis
    using x(2) n True by (auto simp: released_def Let_def)
qed

lemma withdraw_D:
  assumes ap: "withdraw_vesting_balance_apply L op c = Inr c'" and ok: "vestings_ok L c"
  obtains "c' = c" | v c1 vested allowed where
    "lookup (vestings c) (wv_vesting_balance_id op) = Some v" "vesting_ok v" "wv_owner op = vb_owner v"
    "vb_start_timestamp v \<le> head_block_time c" "vb_vesting_cliff_seconds v \<le> head_block_time c - vb_start_timestamp v"
    "total_vested L v (head_block_time c - vb_start_timestamp v) = Inr vested"
    "allowed = vested - amount (vb_withdrawn v)" "0 \<le> allowed" "amount (wv_amount op) \<le> allowed"
    "withdraw_vesting L (wv_vesting_balance_id op) (wv_amount op) c = Inr c1"
    "adjust_account_balance L (wv_owner op) (wv_amount op) c1 = Inr c'"
proof (cases "c' = c")
  case False
  have wf: "wf_index no_key (vestings c)" and L: "safe_ok L"
    using ok by (auto simp: vestings_ok_def supply_ok_def balances_ok_def)
  from ap False obtain v c1 vested allowed where w:
    "lookup (vestings c) (wv_vesting_balance_id op) = Some v" "wv_owner op = vb_owner v"
    "vb_start_timestamp v \<le> head_block_time c" "vb_vesting_cliff_seconds v \<le> head_block_time c - vb_start_timestamp v"
    "total_vested L v (head_block_time c - vb_start_timestamp v) = Inr vested"
    "sub L vested (amount (vb_withdrawn v)) = Inr allowed" "0 \<le> allowed" "amount (wv_amount op) \<le> allowed"
    "withdraw_vesting L (wv_vesting_balance_id op) (wv_amount op) c = Inr c1"
    "adjust_account_balance L (wv_owner op) (wv_amount op) c1 = Inr c'"
    by (auto simp: withdraw_vesting_balance_apply_def get_vesting_def ok_iff Let_def split: if_splits)
  have vo: "vesting_ok v"
    using w(1) ok cb.mem_map_of [OF wf] by (fastforce simp: lookup_def vestings_ok_def)
  moreover have "allowed = vested - amount (vb_withdrawn v)"
    using sub_D [OF w(6) L] total_vested_le [OF vo L _ w(5)] w(3) vo by (auto simp: vesting_ok_def int64_iff)
  ultimately show ?thesis
    using that(2) w by blast
qed (use that(1) in blast)

lemma withdraw_vesting_law:
  assumes ok: "vestings_ok L c" and v: "lookup (vestings c) i = Some v" and a: "int64 (amount a)" "0 < amount a"
    and w: "withdraw_vesting L i a c = Inr c'"
  shows "symbol a = DEIP_SYMBOL \<and> amount a \<le> amount (vb_balance v) \<and>
    (\<exists>t u. c' = c\<lparr>vestings := t\<rparr> \<and> u = v\<lparr>vb_balance := \<lparr>amount = amount (vb_balance v) - amount a, symbol = DEIP_SYMBOL\<rparr>,
         vb_withdrawn := \<lparr>amount = amount (vb_withdrawn v) + amount a, symbol = DEIP_SYMBOL\<rparr>\<rparr> \<and>
       vesting_ok u \<and> wf_index no_key t \<and> rows t = upd i u (rows (vestings c)) \<and>
       (\<forall>x. escrowed c' x = escrowed c x - (if x = DEIP_SYMBOL then amount a else 0)))"
proof -
  have wf: "wf_index no_key (vestings c)" and L: "safe_ok L"
    using ok by (auto simp: vestings_ok_def supply_ok_def balances_ok_def)
  have mem: "(i, v) \<in> set (rows (vestings c))"
    using v cb.mem_map_of [OF wf] by (simp add: lookup_def)
  then have vo: "vesting_ok v"
    using ok by (auto simp: vestings_ok_def)
  obtain ge b u t where ge: "asset_ge (vb_balance v) a = Inr ge" "ge"
    and b: "asset_minus L (vb_balance v) a = Inr b" "asset_plus L (vb_withdrawn v) a = Inr u"
    and t: "modify no_key i (\<lambda>v. v\<lparr>vb_balance := b, vb_withdrawn := u\<rparr>) (vestings c) = Inr t" "c' = c\<lparr>vestings := t\<rparr>"
    using w v by (auto simp: withdraw_vesting_def get_vesting_def set_vestings_def ok_iff)
  have i: "int64 (amount (vb_balance v))" "int64 (amount (vb_withdrawn v))"
    using vo by (auto simp: vesting_ok_def int64_iff)
  have le: "symbol a = DEIP_SYMBOL" "amount a \<le> amount (vb_balance v)"
    using ge_D [OF ge(1)] ge(2) vo by (auto simp: vesting_ok_def)
  note bu = minus_D [OF b(1) L i(1) a(1)] plus_D [OF b(2) L i(2) a(1)]
  let ?u = "v\<lparr>vb_balance := b, vb_withdrawn := u\<rparr>"
  have "vesting_ok ?u"
    using vo bu le a(2) by (simp add: vesting_ok_def)
  moreover have "rows t = upd i ?u (rows (vestings c))"
    by (rule cb.rows_modify_mem [OF wf t(1) mem])
  moreover have "escrowed c' x = escrowed c x - (if x = DEIP_SYMBOL then amount a else 0)" for x
    using cb.sum_modify [OF wf t(1) mem, of "\<lambda>v. if symbol (vb_balance v) = x then amount (vb_balance v) else 0"] bu vo
    by (auto simp: escrowed_def locked_def t(2) vesting_ok_def)
  moreover have "wf_index no_key t"
    by (rule cb.wf_modify [OF symp_keys(5) wf t(1)])
  ultimately show ?thesis
    using le t(2) bu vo by (intro conjI exI [of _ t] exI [of _ ?u]) (auto simp: vesting_ok_def)
qed

lemma vestings_ok_step:
  assumes ok: "vestings_ok L c" and b: "balances_ok L c'" and a: "assets c' = assets c"
    and circ: "\<And>x. circulating c' x = circulating c x" and wf: "wf_index no_key (vestings c')"
    and all: "\<forall>p\<in>set (rows (vestings c')). vesting_ok (snd p)"
  shows "vestings_ok L c'"
proof -
  have "supply_ok L c'"
    by (rule supply_ok_keep [of L c]) (use ok b a circ in \<open>simp_all add: vestings_ok_def\<close>)
  then show ?thesis
    using wf all by (simp add: vestings_ok_def)
qed

lemma create_vesting_law:
  assumes ok: "vestings_ok L c" and v: "create_vesting_balance_validate op = Inr ()"
    and i: "int64 (amount (cv_balance op))" "cv_vesting_duration_seconds op < 2 ^ 32"
    and ap: "create_vesting_balance_apply L op c = Inr c'"
  shows "vestings_ok L c' \<and> circulating c' x = circulating c x"
proof -
  obtain nb c1 where nb: "asset_uminus L (cv_balance op) = Inr nb"
    and c1: "adjust_account_balance L (cv_creator op) nb c = Inr c1"
    and c2: "create_vesting (cv_owner op) (cv_balance op) (cv_vesting_duration_seconds op)
              (cv_period_duration_seconds op) (cv_vesting_cliff_seconds op) c1 = Inr c'"
    using ap by (auto simp: create_vesting_balance_apply_def ok_iff split: prod.splits)
  have wf: "wf_index no_key (vestings c)" and L: "safe_ok L" and bo: "balances_ok L c"
    using ok by (auto simp: vestings_ok_def supply_ok_def balances_ok_def)
  note neg = uminus_D [OF nb L i(1)]
  have b: "0 < amount (cv_balance op)" "symbol (cv_balance op) = DEIP_SYMBOL"
    using v by (auto simp: create_vesting_balance_validate_def ok_iff dest: asset_gt_zero_D)
  note adj = lg.adjust_law [OF bo _ c1]
  have bc1: "balances_ok L c1" "but_balances c1 = but_balances c"
    using adj neg by blast+
  have fr: "vestings c1 = vestings c" "assets c1 = assets c" "escrowed c1 y = escrowed c y" for y
    using but_balances_fields [OF bc1(2)] by auto
  define w where "w = \<lparr>vb_owner = cv_owner op, vb_balance = cv_balance op,
     vb_withdrawn = \<lparr>amount = 0, symbol = DEIP_SYMBOL\<rparr>,
     vb_vesting_duration_seconds = cv_vesting_duration_seconds op,
     vb_period_duration_seconds = cv_period_duration_seconds op,
     vb_vesting_cliff_seconds = cv_vesting_cliff_seconds op, vb_start_timestamp = head_block_time c1\<rparr>"
  obtain j t where t: "emplace no_key w (vestings c) = Inr (j, t)" "c' = c1\<lparr>vestings := t\<rparr>"
    using c2 fr(1) by (auto simp: create_vesting_def set_vestings_def ok_iff w_def)
  have w: "vesting_ok w" "vb_balance w = cv_balance op"
    using v b i by (auto simp: w_def vesting_ok_def create_vesting_balance_validate_def ok_iff)
  note e = cb.emplace_law [OF wf t(1)]
  have held: "held c' y = held c y - (if y = DEIP_SYMBOL then amount (cv_balance op) else 0)" for y
    using adj [of y] neg b(2) by (auto simp: t(2) held_def)
  have esc: "escrowed c' y = escrowed c y + (if y = DEIP_SYMBOL then amount (cv_balance op) else 0)" for y
    using e fr(3) [of y] b(2) w(2) fr(1) by (auto simp: t(2) escrowed_def locked_def)
  have circ: "circulating c' y = circulating c y" for y
    using held [of y] esc [of y] by (simp add: circulating_def)
  have "vestings_ok L c'"
  proof (rule vestings_ok_step [OF ok])
    show "balances_ok L c'"
      using bc1 by (simp add: t(2) balances_ok_def)
    show "wf_index no_key (vestings c')"
      using cb.wf_emplace [OF symp_keys(5) wf t(1)] by (simp add: t(2))
    show "\<forall>p\<in>set (rows (vestings c')). vesting_ok (snd p)"
      using e w(1) ok by (auto simp: t(2) vestings_ok_def)
    show "assets c' = assets c"
      by (simp add: t(2) fr)
  qed (rule circ)
  then show ?thesis
    by (simp add: circ)
qed

lemma withdraw_law:
  assumes ok: "vestings_ok L c" and v: "withdraw_vesting_balance_validate op = Inr ()"
    and i: "int64 (amount (wv_amount op))" and ap: "withdraw_vesting_balance_apply L op c = Inr c'" and ne: "c' \<noteq> c"
  shows "vestings_ok L c' \<and> circulating c' x = circulating c x \<and>
    spendable c' w y = spendable c w y + (if w = wv_owner op \<and> y = DEIP_SYMBOL then amount (wv_amount op) else 0) \<and>
    (\<exists>v u. lookup (vestings c) (wv_vesting_balance_id op) = Some v \<and> vb_owner v = wv_owner op \<and>
       amount (vb_withdrawn v) + amount (wv_amount op) \<le> released v (head_block_time c - vb_start_timestamp v) \<and>
       2 * amount (wv_amount op) \<le> 2 * amount (vb_balance v) - 2 * amount (vb_withdrawn v) \<and>
       rows (vestings c') = upd (wv_vesting_balance_id op) u (rows (vestings c)) \<and>
       amount (vb_balance u) = amount (vb_balance v) - amount (wv_amount op) \<and>
       amount (vb_withdrawn u) = amount (vb_withdrawn v) + amount (wv_amount op))"
proof -
  let ?i = "wv_vesting_balance_id op" and ?a = "amount (wv_amount op)"
  obtain v c1 vested where w: "lookup (vestings c) ?i = Some v" "vesting_ok v" "wv_owner op = vb_owner v"
    "vb_start_timestamp v \<le> head_block_time c" "vb_vesting_cliff_seconds v \<le> head_block_time c - vb_start_timestamp v"
    "total_vested L v (head_block_time c - vb_start_timestamp v) = Inr vested"
    "?a \<le> vested - amount (vb_withdrawn v)"
    "withdraw_vesting L ?i (wv_amount op) c = Inr c1"
    "adjust_account_balance L (wv_owner op) (wv_amount op) c1 = Inr c'"
    by (rule withdraw_D [OF ap ok]) (use ne in blast)+
  have pos: "0 < ?a"
    using v by (auto simp: withdraw_vesting_balance_validate_def ok_iff dest: asset_gt_zero_D)
  have bo: "balances_ok L c" and L: "safe_ok L"
    using ok by (auto simp: vestings_ok_def supply_ok_def balances_ok_def)
  obtain t u where t: "c1 = c\<lparr>vestings := t\<rparr>" "vesting_ok u" "wf_index no_key t" "rows t = upd ?i u (rows (vestings c))"
    "amount (vb_balance u) = amount (vb_balance v) - ?a" "amount (vb_withdrawn u) = amount (vb_withdrawn v) + ?a"
    and esc: "\<And>y. escrowed c1 y = escrowed c y - (if y = DEIP_SYMBOL then ?a else 0)"
    and sm: "symbol (wv_amount op) = DEIP_SYMBOL"
    using withdraw_vesting_law [OF ok w(1) i pos w(8)] by auto
  have b1: "balances_ok L c1" "held c1 y = held c y" "spendable c1 w y = spendable c w y" for w y
    using bo by (simp_all add: t(1) balances_ok_def held_def spendable_def)
  note adj = lg.adjust_law [OF b1(1) i w(9)] lg.adjust_spendable [OF b1(1) i w(9)]
  have fr: "vestings c' = t" "assets c' = assets c" "escrowed c' y = escrowed c1 y" for y
    using adj(1) but_balances_fields [of c' c1] by (auto simp: t(1))
  have circ: "circulating c' y = circulating c y" for y
    using adj(1) [of y] b1(2) [of y] fr(3) [of y] esc [of y] sm by (auto simp: circulating_def)
  have mem: "p \<in> set (rows (vestings c)) \<or> snd p = u" if "p \<in> set (rows t)" for p
    using that set_upd [of "fst p" "snd p" ?i u] by (cases p) (auto simp: t(4))
  have all: "\<forall>p\<in>set (rows t). vesting_ok (snd p)"
    using mem t(2) ok unfolding vestings_ok_def by blast
  have "vestings_ok L c'"
    by (rule vestings_ok_step [OF ok]) (use adj(1) in \<open>simp_all add: circ fr all t(3)\<close>)
  moreover have "vested \<le> amount (vb_balance v) \<and> vested \<le> released v (head_block_time c - vb_start_timestamp v)"
    using total_vested_le [OF w(2) L _ w(6)] w(4,5) by simp
  ultimately show ?thesis
    using circ adj(2) [of w y] b1(3) [of w y] sm w(1,3,7) t(4-6) fr(1)
    by (intro conjI exI [of _ v] exI [of _ u]) auto
qed

section \<open>Properties\<close>


definition demo_vesting :: "int \<Rightarrow> int \<Rightarrow> vesting_balance_object" where
  "demo_vesting left out = \<lparr>vb_owner = ''alice'', vb_balance = \<lparr>amount = left, symbol = DEIP_SYMBOL\<rparr>,
     vb_withdrawn = \<lparr>amount = out, symbol = DEIP_SYMBOL\<rparr>, vb_vesting_duration_seconds = 40,
     vb_period_duration_seconds = 10, vb_vesting_cliff_seconds = 10, vb_start_timestamp = 70\<rparr>"

definition vesting_chain :: "int \<Rightarrow> int \<Rightarrow> chain" where
  "vesting_chain left out = demo_chain\<lparr>
     assets := table [demo_asset DEIP_SYMBOL ''DEIP'' (left + out), demo_asset TOK ''TOK'' 60],
     balances := table [demo_balance ''alice'' 40 20, (demo_balance ''alice'' out 0)\<lparr>ab_symbol := DEIP_SYMBOL, ab_string_symbol := ''DEIP''\<rparr>],
     vestings := table [demo_vesting left out]\<rparr>"

definition demo_withdraw :: "int \<Rightarrow> withdraw_vesting_balance_operation" where
  "demo_withdraw a = \<lparr>wv_vesting_balance_id = 0, wv_owner = ''alice'', wv_amount = \<lparr>amount = a, symbol = DEIP_SYMBOL\<rparr>\<rparr>"

lemmas vesting_chain_defs = vesting_chain_def demo_vesting_def demo_defs

lemma vesting_chain_ok:
  "0 \<le> left \<Longrightarrow> 0 \<le> out \<Longrightarrow> left + out \<le> 1000 \<Longrightarrow> vestings_ok fc_ref (vesting_chain left out)"
  by (simp add: vestings_ok_def vesting_ok_def supply_ok_def balances_ok_def balance_ok_def wf_index_def wf_rows_def asset_ok_def
      circulating_def held_def holding_def escrowed_def locked_def vesting_chain_defs int64_iff balance_key_def asset_key_def no_key_def)

lemma demo_withdraw_valid: "0 < a \<Longrightarrow> withdraw_vesting_balance_validate (demo_withdraw a) = Inr ()"
  by (simp add: withdraw_vesting_balance_validate_def demo_withdraw_def asset_gt_def asset_le_def asset_less_def
      validate_account_name_def)

lemmas eval_vesting = eval_balance withdraw_vesting_balance_apply_def check_account_existence_def
  check_vesting_existence_def get_vesting_def total_vested_def withdraw_vesting_def set_vestings_def
  asset_plus_def asset_minus_def mul_def sdivide_def sdiv_nonneg no_key_def


text \<open>
  C24. Once more than half of a deposit has been withdrawn, the rest is lost: what has
  vested is computed from the balance that is left and compared with what was withdrawn, so
  no later withdrawal from that contract ever pays anything, at any time.
\<close>

theorem remainder_stuck:
  assumes "vestings_ok L c" "withdraw_vesting_balance_validate op = Inr ()"
    and v: "lookup (vestings c) (wv_vesting_balance_id op) = Some v" "amount (vb_balance v) \<le> amount (vb_withdrawn v)"
    and "vb_start_timestamp v + vb_vesting_cliff_seconds v \<le> head_block_time c"
  shows "\<not> succeeds (withdraw_vesting_balance_apply L op c)"
proof
  assume "succeeds (withdraw_vesting_balance_apply L op c)"
  then obtain c' where ap: "withdraw_vesting_balance_apply L op c = Inr c'"
    by (auto simp: succeeds_iff)
  have L: "safe_ok L" and wf: "wf_index no_key (vestings c)"
    using assms(1) by (auto simp: vestings_ok_def supply_ok_def balances_ok_def)
  have vo: "vesting_ok v"
    using v(1) assms(1) cb.mem_map_of [OF wf] by (fastforce simp: lookup_def vestings_ok_def)
  then have t: "vb_start_timestamp v \<le> head_block_time c" "vb_vesting_cliff_seconds v \<le> head_block_time c - vb_start_timestamp v"
    using assms(5) by (auto simp: vesting_ok_def)
  obtain vested allowed where
    tv: "total_vested L v (head_block_time c - vb_start_timestamp v) = Inr vested"
    and al: "sub L vested (amount (vb_withdrawn v)) = Inr allowed" "amount (wv_amount op) \<le> allowed"
    using ap v(1) t by (simp add: withdraw_vesting_balance_apply_def get_vesting_def ok_iff Let_def) blast
  have "int64 vested" "vested \<le> amount (vb_balance v)"
    using total_vested_le [OF vo L _ tv] t vo by (auto simp: vesting_ok_def)
  moreover have "int64 (amount (vb_withdrawn v))"
    using vo by (auto simp: vesting_ok_def int64_iff)
  ultimately have "amount (wv_amount op) \<le> 0"
    using sub_D [OF al(1) L] al(2) v(2) by simp
  moreover have "0 < amount (wv_amount op)"
    using assms(2) by (auto simp: withdraw_vesting_balance_validate_def ok_iff dest: asset_gt_zero_D)
  ultimately show False
    by simp
qed

lemma remainder_stuck_witness:
  "\<exists>c'. withdraw_vesting_balance_apply fc_ref (demo_withdraw 60) ((vesting_chain 100 0)\<lparr>head_block_time := 200\<rparr>) = Inr c' \<and>
     \<not> succeeds (withdraw_vesting_balance_apply fc_ref (demo_withdraw 40) (c'\<lparr>head_block_time := 10000\<rparr>))"
proof -
  let ?c = "(vesting_chain 100 0)\<lparr>head_block_time := 200\<rparr>"
  obtain c' where c': "withdraw_vesting_balance_apply fc_ref (demo_withdraw 60) ?c = Inr c'"
    "vestings c' = table [demo_vesting 40 60]"
    by (simp add: eval_vesting vesting_chain_defs demo_withdraw_def)
  have i: "int64 (amount (wv_amount (demo_withdraw 60)))"
    by (simp add: demo_withdraw_def int64_iff)
  have "vestings_ok fc_ref (vesting_chain 100 0)"
    by (rule vesting_chain_ok) simp_all
  then have "vestings_ok fc_ref ?c"
    by (simp add: vestings_ok_def supply_ok_def balances_ok_def circulating_def held_def escrowed_def locked_def)
  moreover have "c' \<noteq> ?c"
    using c'(2) by (auto simp: vesting_chain_defs)
  ultimately have "vestings_ok fc_ref c'"
    using withdraw_law [OF _ demo_withdraw_valid i c'(1)] by simp
  then have ok: "vestings_ok fc_ref (c'\<lparr>head_block_time := 10000\<rparr>)"
    by (simp add: vestings_ok_def supply_ok_def balances_ok_def circulating_def held_def escrowed_def locked_def)
  have "\<not> succeeds (withdraw_vesting_balance_apply fc_ref (demo_withdraw 40) (c'\<lparr>head_block_time := 10000\<rparr>))"
    by (rule remainder_stuck [OF ok demo_withdraw_valid, of _ "demo_vesting 40 60"])
      (simp_all add: c'(2) lookup_def table_def demo_withdraw_def demo_vesting_def)
  then show ?thesis
    using c'(1) by blast
qed

end
