(* ===== verification/Research_Groups.thy ===== *)
theory Research_Groups
  imports Token_Operations
begin

text \<open>
  Research groups and the shares of their members (research group tokens, RGT):
  \<open>libraries/chain/services/dbs_research_group.cpp\<close>. The shares of a group are parts of
  \<open>DEIP_100_PERCENT\<close>; every method that changes the members ends by checking that they add up.
\<close>

section \<open>Groups\<close>

definition set_research_groups :: "research_group_object generic_index result \<Rightarrow> chain \<Rightarrow> chain result" where
  "set_research_groups r c = bindE r (\<lambda>t. Inr (c\<lparr>research_groups := t\<rparr>))"

definition get_research_group :: "nat \<Rightarrow> chain \<Rightarrow> research_group_object result" where
  "get_research_group g c = the_or Out_of_range (lookup (research_groups c) g)"

definition get_research_group_if_exists :: "nat \<Rightarrow> chain \<Rightarrow> research_group_object option" where
  "get_research_group_if_exists g c = lookup (research_groups c) g"

definition get_research_group_by_account_if_exists :: "string \<Rightarrow> chain \<Rightarrow> (nat \<times> research_group_object) option" where
  "get_research_group_by_account_if_exists account c = find_row (\<lambda>g. rg_account g = account) (research_groups c)"

definition research_group_exists_by_id :: "nat \<Rightarrow> chain \<Rightarrow> bool" where
  "research_group_exists_by_id g c = (lookup (research_groups c) g \<noteq> None)"

definition research_group_exists :: "string \<Rightarrow> chain \<Rightarrow> bool" where
  "research_group_exists account c = (find_row (\<lambda>g. rg_account g = account) (research_groups c) \<noteq> None)"

definition create_personal_research_group :: "string \<Rightarrow> chain \<Rightarrow> (nat \<times> chain) result" where
  "create_personal_research_group account c =
     bindE (emplace research_group_key
        \<lparr>rg_account = account, rg_creator = account, rg_description = account, rg_is_personal = True,
         rg_is_dao = False, rg_is_centralized = False\<rparr> (research_groups c)) (\<lambda>(i, t).
       Inr (i, c\<lparr>research_groups := t\<rparr>))"

definition create_research_group :: "string \<Rightarrow> string \<Rightarrow> string \<Rightarrow> chain \<Rightarrow> (nat \<times> chain) result" where
  "create_research_group account creator description c =
     bindE (emplace research_group_key
        \<lparr>rg_account = account, rg_creator = creator, rg_description = description, rg_is_personal = False,
         rg_is_dao = True, rg_is_centralized = False\<rparr> (research_groups c)) (\<lambda>(i, t).
       Inr (i, c\<lparr>research_groups := t\<rparr>))"

definition update_research_group :: "nat \<Rightarrow> string \<Rightarrow> chain \<Rightarrow> chain result" where
  "update_research_group g description c =
     set_research_groups
       (modify research_group_key g (\<lambda>rg. rg\<lparr>rg_description := description\<rparr>) (research_groups c)) c"

definition lookup_research_groups :: "nat \<Rightarrow> nat \<Rightarrow> chain \<Rightarrow> (nat \<times> research_group_object) list" where
  "lookup_research_groups lower limit c = take limit (filter (\<lambda>p. lower \<le> fst p) (rows (research_groups c)))"

definition research_exists :: "string \<Rightarrow> chain \<Rightarrow> bool" where
  "research_exists external_id c = (find_row (\<lambda>r. rs_external_id r = external_id) (researches c) \<noteq> None)"

section \<open>Members\<close>

definition set_group_tokens :: "research_group_token_object generic_index result \<Rightarrow> chain \<Rightarrow> chain result" where
  "set_group_tokens r c = bindE r (\<lambda>t. Inr (c\<lparr>group_tokens := t\<rparr>))"

definition get_research_group_token_by_id :: "nat \<Rightarrow> chain \<Rightarrow> research_group_token_object result" where
  "get_research_group_token_by_id i c = the_or Out_of_range (lookup (group_tokens c) i)"

definition get_research_group_tokens_by_member :: "string \<Rightarrow> chain \<Rightarrow> (nat \<times> research_group_token_object) list" where
  "get_research_group_tokens_by_member member c = filter (\<lambda>p. rgt_owner (snd p) = member) (rows (group_tokens c))"

definition get_research_group_tokens :: "nat \<Rightarrow> chain \<Rightarrow> (nat \<times> research_group_token_object) list" where
  "get_research_group_tokens g c = filter (\<lambda>p. rgt_research_group_id (snd p) = g) (rows (group_tokens c))"

definition find_member :: "string \<Rightarrow> nat \<Rightarrow> chain \<Rightarrow> (nat \<times> research_group_token_object) option" where
  "find_member member g c =
     find_row (\<lambda>t. rgt_owner t = member \<and> rgt_research_group_id t = g) (group_tokens c)"

definition get_research_group_token_by_member :: "string \<Rightarrow> nat \<Rightarrow> chain \<Rightarrow> (nat \<times> research_group_token_object) result" where
  "get_research_group_token_by_member member g c = the_or (Assert Not_found) (find_member member g c)"

definition is_research_group_member :: "string \<Rightarrow> nat \<Rightarrow> chain \<Rightarrow> bool" where
  "is_research_group_member member g c = (find_member member g c \<noteq> None)"

definition get_research_group_members :: "nat \<Rightarrow> chain \<Rightarrow> string set" where
  "get_research_group_members g c = (\<lambda>p. rgt_owner (snd p)) ` set (get_research_group_tokens g c)"

definition set_share :: "nat \<Rightarrow> int \<Rightarrow> chain \<Rightarrow> chain result" where
  "set_share i v c = set_group_tokens (modify group_token_key i (\<lambda>t. t\<lparr>rgt_amount := v\<rparr>) (group_tokens c)) c"

text \<open>
  Inviting on behalf of the group dilutes every member's share, but leaves at least one
  percent to each; the newcomer gets what is left of the whole.
\<close>

definition diluted_share :: "fc_lib \<Rightarrow> int \<Rightarrow> int \<Rightarrow> int result" where
  "diluted_share L share a =
     bindE (mul L share a) (\<lambda>m. bindE (sdivide L m DEIP_100_PERCENT) (\<lambda>diluted.
     bindE (sub L a diluted) (\<lambda>rest.
       Inr (if rest < DEIP_1_PERCENT then DEIP_1_PERCENT else rest))))"

fun dilute :: "fc_lib \<Rightarrow> int \<Rightarrow> (nat \<times> research_group_token_object) list \<Rightarrow> int \<Rightarrow> chain \<Rightarrow> (int \<times> chain) result" where
  "dilute L share [] acc c = Inr (acc, c)"
| "dilute L share (p # ps) acc c =
     bindE (diluted_share L share (rgt_amount (snd p))) (\<lambda>v.
     bindE (set_share (fst p) v c) (\<lambda>c1.
     bindE (add L acc v) (\<lambda>acc1. dilute L share ps acc1 c1)))"

fun total_share :: "fc_lib \<Rightarrow> (nat \<times> research_group_token_object) list \<Rightarrow> int \<Rightarrow> int result" where
  "total_share L [] acc = Inr acc"
| "total_share L (p # ps) acc = bindE (add L acc (rgt_amount (snd p))) (total_share L ps)"

definition check_total :: "fc_lib \<Rightarrow> nat \<Rightarrow> chain \<Rightarrow> chain result" where
  "check_total L g c =
     bindE (total_share L (get_research_group_tokens g c) 0) (\<lambda>total.
       require (total = DEIP_100_PERCENT) Bad_share (Inr c))"

definition add_member_to_research_group :: "fc_lib \<Rightarrow> string \<Rightarrow> nat \<Rightarrow> int \<Rightarrow> string \<Rightarrow> chain \<Rightarrow> chain result" where
  "add_member_to_research_group L account g share inviter c =
     bindE
       (if inviter \<noteq> [] then
          bindE (get_research_group_token_by_member inviter g c) (\<lambda>(i, t).
          bindE (sub L (rgt_amount t) share) (\<lambda>rest.
          require (rest > DEIP_1_PERCENT) Insufficient_funds
           (bindE (set_share i rest c) (\<lambda>c1. Inr (share, c1)))))
        else
          bindE (dilute L share (get_research_group_tokens g c) 0 c) (\<lambda>(members_amount, c1).
          bindE (sub L DEIP_100_PERCENT members_amount) (\<lambda>a. Inr (a, c1)))) (\<lambda>(a, c1).
     bindE (set_group_tokens
        (bindE (emplace group_token_key
            \<lparr>rgt_research_group_id = g, rgt_amount = a, rgt_owner = account\<rparr> (group_tokens c1)) (\<lambda>(i, t). Inr t)) c1)
       (check_total L g))"

text \<open>
  A member who leaves gives the share back: the others grow in proportion, rounded down,
  and the weakest of them gets the remainder.
\<close>

definition regrown_share :: "fc_lib \<Rightarrow> int \<Rightarrow> int \<Rightarrow> int result" where
  "regrown_share L share a =
     bindE (mul L a DEIP_100_PERCENT) (\<lambda>m. bindE (sub L DEIP_100_PERCENT share) (sdivide L m))"

fun regrow ::
  "fc_lib \<Rightarrow> int \<Rightarrow> (nat \<times> research_group_token_object) list \<Rightarrow> int \<times> string \<times> int \<Rightarrow> chain \<Rightarrow>
   ((int \<times> string \<times> int) \<times> chain) result" where
  "regrow L share [] acc c = Inr (acc, c)"
| "regrow L share (p # ps) (members_amount, weakest_name, weakest_share) c =
     bindE (regrown_share L share (rgt_amount (snd p))) (\<lambda>v.
     bindE (set_share (fst p) v c) (\<lambda>c1.
     bindE (add L members_amount v) (\<lambda>m.
       regrow L share ps
         (if weakest_share = 0 \<or> weakest_share > v then (m, rgt_owner (snd p), v)
          else (m, weakest_name, weakest_share)) c1)))"

definition give_remainder :: "fc_lib \<Rightarrow> nat \<Rightarrow> string \<Rightarrow> int \<Rightarrow> chain \<Rightarrow> chain result" where
  "give_remainder L g weakest remainder c =
     (if remainder \<noteq> 0 \<and> weakest \<noteq> [] then
        bindE (get_research_group_token_by_member weakest g c) (\<lambda>(j, w).
        bindE (add L (rgt_amount w) remainder) (\<lambda>v. set_share j v c))
      else Inr c)"

definition remove_member_from_research_group :: "fc_lib \<Rightarrow> string \<Rightarrow> nat \<Rightarrow> chain \<Rightarrow> chain result" where
  "remove_member_from_research_group L account g c =
     bindE (get_research_group_token_by_member account g c) (\<lambda>(i, t).
     bindE (set_group_tokens (remove i (group_tokens c)) c) (\<lambda>c1.
     bindE (regrow L (rgt_amount t) (get_research_group_tokens g c1) (0, [], 0) c1) (\<lambda>((members_amount, weakest, _), c2).
     bindE (sub L DEIP_100_PERCENT members_amount) (\<lambda>remainder.
     bindE (give_remainder L g weakest remainder c2) (check_total L g)))))"

text \<open>\<open>shares\<close> is a \<open>std::map\<close>: an association list with distinct names.\<close>

fun rebalance ::
  "fc_lib \<Rightarrow> (string \<times> int) list \<Rightarrow> (nat \<times> research_group_token_object) list \<Rightarrow> int \<Rightarrow> chain \<Rightarrow> (int \<times> chain) result" where
  "rebalance L shares [] acc c = Inr (acc, c)"
| "rebalance L shares (p # ps) acc c =
     bindE (the_or (Assert Not_found) (map_of shares (rgt_owner (snd p)))) (\<lambda>share.
     bindE (set_share (fst p) share c) (\<lambda>c1.
     bindE (add L acc share) (\<lambda>acc1. rebalance L shares ps acc1 c1)))"

definition rebalance_research_group_tokens :: "fc_lib \<Rightarrow> nat \<Rightarrow> (string \<times> int) list \<Rightarrow> chain \<Rightarrow> chain result" where
  "rebalance_research_group_tokens L g shares c =
     (let rgts = get_research_group_tokens g c
      in require (length shares = length rgts) Bad_size
          (bindE (rebalance L shares rgts 0 c) (\<lambda>(total, c1).
             require (total = DEIP_100_PERCENT) Bad_share (Inr c1))))"

section \<open>What a change of shares does\<close>

lemma symp_group_token_key [simp]: "symp group_token_key"
  by (auto simp: symp_def group_token_key_def)

definition reshare :: "(int \<Rightarrow> int) \<Rightarrow> nat \<times> research_group_token_object \<Rightarrow> nat \<times> research_group_token_object" where
  "reshare f p = (fst p, (snd p)\<lparr>rgt_amount := f (rgt_amount (snd p))\<rparr>)"

lemma reshare_simps [simp]:
  "fst (reshare f p) = fst p" "rgt_research_group_id (snd (reshare f p)) = rgt_research_group_id (snd p)"
  "rgt_owner (snd (reshare f p)) = rgt_owner (snd p)" "rgt_amount (snd (reshare f p)) = f (rgt_amount (snd p))"
  by (simp_all add: reshare_def)

lemma set_share_law:
  assumes wf: "wf_index group_token_key (group_tokens c)" and p: "p \<in> set (rows (group_tokens c))"
  shows "\<exists>u. set_share (fst p) v c = Inr (c\<lparr>group_tokens := u\<rparr>) \<and> wf_index group_token_key u \<and>
    rows u = upd (fst p) ((snd p)\<lparr>rgt_amount := v\<rparr>) (rows (group_tokens c))"
proof -
  have lk: "lookup (group_tokens c) (fst p) = Some (snd p)"
    using p cb.mem_map_of [OF wf, of "fst p" "snd p"] by (simp add: lookup_def)
  have "\<not> (\<exists>q\<in>set (rows (group_tokens c)). fst q \<noteq> fst p \<and>
      group_token_key ((snd p)\<lparr>rgt_amount := v\<rparr>) (snd q))"
    using cb.rows_unique [OF wf, of "fst p" "snd p"] p by (fastforce simp: group_token_key_def)
  then obtain u where u: "modify group_token_key (fst p) (\<lambda>t. t\<lparr>rgt_amount := v\<rparr>) (group_tokens c) = Inr u"
    using lk unfolding modify_def by simp
  have "rows u = upd (fst p) ((snd p)\<lparr>rgt_amount := v\<rparr>) (rows (group_tokens c))"
    using cb.rows_modify_mem [OF wf u, of "snd p"] p by simp
  then show ?thesis
    using u cb.wf_modify [OF symp_group_token_key wf u]
    by (intro exI [of _ u]) (simp add: set_share_def set_group_tokens_def)
qed

text \<open>A loop that gives each of some members a new share.\<close>

definition set_shares :: "(int \<Rightarrow> int) \<Rightarrow> (nat \<times> research_group_token_object) list \<Rightarrow> chain \<Rightarrow> chain result" where
  "set_shares f = foldE (\<lambda>p. set_share (fst p) (f (rgt_amount (snd p))))"

lemma upd_other: "fst p = i \<Longrightarrow> sorted1 xs \<Longrightarrow> p \<in> set xs \<Longrightarrow> upd i v xs = map (\<lambda>q. if q = p then (i, v) else q) xs"
proof (induction xs)
  case (Cons x xs)
  show ?case
  proof (cases "x = p")
    case True
    then have "p \<notin> set xs" "\<forall>q\<in>set xs. fst q \<noteq> i"
      using Cons.prems by auto
    moreover from this(2) have "upd i v xs = xs"
      by (intro upd_id) (auto simp: map_of_eq_None)
    ultimately show ?thesis
      using True Cons.prems(1) by (auto intro!: map_idI [symmetric])
  next
    case False
    with Cons show ?thesis by auto
  qed
qed simp

lemma set_shares_law:
  assumes "wf_index group_token_key (group_tokens c)" "distinct ps" "set ps \<subseteq> set (rows (group_tokens c))"
  shows "\<exists>u. set_shares f ps c = Inr (c\<lparr>group_tokens := u\<rparr>) \<and> wf_index group_token_key u \<and>
    rows u = map (\<lambda>q. if q \<in> set ps then reshare f q else q) (rows (group_tokens c))"
  using assms
proof (induction ps arbitrary: c)
  case Nil
  then show ?case
    by (intro exI [of _ "group_tokens c"]) (auto simp: set_shares_def)
next
  case (Cons p ps)
  let ?r = "rows (group_tokens c)"
  obtain u where u: "set_share (fst p) (f (rgt_amount (snd p))) c = Inr (c\<lparr>group_tokens := u\<rparr>)"
    "wf_index group_token_key u" "rows u = upd (fst p) (snd (reshare f p)) ?r"
    using set_share_law [OF Cons.prems(1), of p] Cons.prems(3) by (auto simp: reshare_def)
  have ru: "rows u = map (\<lambda>q. if q = p then reshare f p else q) ?r"
    using upd_other [OF refl cb.rows_sorted [OF Cons.prems(1)], of p] Cons.prems(3) u(3)
    by (simp add: reshare_def)
  then have "set ps \<subseteq> set (rows u)"
    using Cons.prems(2,3) by force
  then obtain w where w: "set_shares f ps (c\<lparr>group_tokens := u\<rparr>) = Inr (c\<lparr>group_tokens := w\<rparr>)"
    "wf_index group_token_key w" "rows w = map (\<lambda>q. if q \<in> set ps then reshare f q else q) (rows u)"
    using Cons.IH [of "c\<lparr>group_tokens := u\<rparr>"] Cons.prems(2) u(2) by auto
  have "reshare f p \<notin> set ps"
  proof
    assume "reshare f p \<in> set ps"
    then have "reshare f p \<in> set ?r"
      using Cons.prems(3) by auto
    then have "reshare f p = p"
      using cb.mem_map_of [OF Cons.prems(1), of "fst p"] Cons.prems(3)
      by (metis (no_types, lifting) list.set_intros(1) option.inject prod.collapse reshare_simps(1) subsetD)
    then show False
      using \<open>reshare f p \<in> set ps\<close> Cons.prems(2) by simp
  qed
  then have "rows w = map (\<lambda>q. if q \<in> set (p # ps) then reshare f q else q) ?r"
    using Cons.prems(2) by (auto simp: w(3) ru)
  then show ?case
    using u(1) w(1,2) by (auto simp: set_shares_def)
qed

lemma group_tokens_distinct:
  assumes wf: "wf_index group_token_key (group_tokens c)"
  shows "distinct (get_research_group_tokens g c)" "set (get_research_group_tokens g c) \<subseteq> set (rows (group_tokens c))"
  using sorted1_distinct [OF cb.rows_sorted [OF wf]] by (auto simp: get_research_group_tokens_def distinct_map)

text \<open>For all the members of a group.\<close>

lemma set_group_shares:
  assumes wf: "wf_index group_token_key (group_tokens c)"
  shows "\<exists>u. set_shares f (get_research_group_tokens g c) c = Inr (c\<lparr>group_tokens := u\<rparr>) \<and>
    wf_index group_token_key u \<and>
    (\<forall>h. get_research_group_tokens h (c\<lparr>group_tokens := u\<rparr>) =
       (if h = g then map (reshare f) (get_research_group_tokens g c) else get_research_group_tokens h c))"
proof -
  let ?ps = "get_research_group_tokens g c"
  obtain u where u: "set_shares f ?ps c = Inr (c\<lparr>group_tokens := u\<rparr>)" "wf_index group_token_key u"
    "rows u = map (\<lambda>q. if q \<in> set ?ps then reshare f q else q) (rows (group_tokens c))"
    using set_shares_law [OF wf group_tokens_distinct [OF wf]] by blast
  have ru: "rows u = map (\<lambda>q. if rgt_research_group_id (snd q) = g then reshare f q else q) (rows (group_tokens c))"
    by (auto simp: u(3) get_research_group_tokens_def)
  have "filter (\<lambda>q. rgt_research_group_id (snd q) = h)
          (map (\<lambda>q. if rgt_research_group_id (snd q) = g then reshare f q else q) xs) =
        (if h = g then map (reshare f) (filter (\<lambda>q. rgt_research_group_id (snd q) = g) xs)
         else filter (\<lambda>q. rgt_research_group_id (snd q) = h) xs)" for h xs
    by (induction xs) auto
  then show ?thesis
    using u(1,2) ru by (auto simp: get_research_group_tokens_def)
qed

lemma find_member_iff:
  assumes wf: "wf_index group_token_key (group_tokens c)"
  shows "find_member w g c = Some p \<longleftrightarrow> p \<in> set (get_research_group_tokens g c) \<and> rgt_owner (snd p) = w"
proof -
  let ?P = "\<lambda>t. rgt_owner t = w \<and> rgt_research_group_id t = g"
  have *: "q = p" if "q \<in> set (rows (group_tokens c))" "?P (snd q)" "p \<in> set (rows (group_tokens c))" "?P (snd p)" for q
  proof -
    have "fst q = fst p"
      using cb.rows_unique [OF wf, of "fst q" "snd q" "fst p" "snd p"] that by (simp add: group_token_key_def)
    then show ?thesis
      using cb.mem_map_of [OF wf] that(1,3) by (metis option.inject prod.collapse)
  qed
  show ?thesis
  proof
    assume "find_member w g c = Some p"
    then show "p \<in> set (get_research_group_tokens g c) \<and> rgt_owner (snd p) = w"
      using find_row_Some [of ?P _ "fst p" "snd p"] by (auto simp: find_member_def get_research_group_tokens_def)
  next
    assume p: "p \<in> set (get_research_group_tokens g c) \<and> rgt_owner (snd p) = w"
    then have "find_member w g c \<noteq> None"
      by (simp add: find_member_def find_row_def find_None_iff get_research_group_tokens_def) (metis prod.collapse)
    then obtain q where q: "find_member w g c = Some q"
      by blast
    then have "q = p"
      using * [of q] find_row_Some [of ?P _ "fst q" "snd q"] p
      by (auto simp: find_member_def get_research_group_tokens_def)
    then show "find_member w g c = Some p"
      using q by simp
  qed
qed

section \<open>The shares of a group\<close>

definition share_sum :: "nat \<Rightarrow> chain \<Rightarrow> int" where
  "share_sum g c = sum_rows rgt_amount (get_research_group_tokens g c)"

definition shares_ok :: "nat \<Rightarrow> chain \<Rightarrow> bool" where
  "shares_ok g c \<longleftrightarrow> wf_index group_token_key (group_tokens c) \<and>
     (\<forall>p\<in>set (get_research_group_tokens g c). 0 \<le> rgt_amount (snd p) \<and> rgt_owner (snd p) \<noteq> []) \<and>
     share_sum g c = DEIP_100_PERCENT"

lemma member_of_sum: "\<forall>p\<in>set ps. 0 \<le> f (snd p) \<Longrightarrow> p \<in> set ps \<Longrightarrow> f (snd p) \<le> sum_rows f ps"
  by (induction ps) (auto simp: sum_rows_nonneg add_increasing add_increasing2)

lemma total_share_sum:
  assumes "safe_ok L" "\<forall>p\<in>set ps. int64 (rgt_amount (snd p))"
    and "\<forall>xs ys. ps = xs @ ys \<longrightarrow> int64 (acc + sum_rows rgt_amount xs)"
  shows "total_share L ps acc = Inr (acc + sum_rows rgt_amount ps)"
  using assms(2,3)
proof (induction ps arbitrary: acc)
  case (Cons p ps)
  have "int64 (acc + rgt_amount (snd p))"
    using Cons.prems(2) [rule_format, of "[p]" ps] by simp
  moreover have "int64 acc"
    using Cons.prems(2) [rule_format, of "[]"] by simp
  ultimately have "add L acc (rgt_amount (snd p)) = Inr (acc + rgt_amount (snd p))"
    using Cons.prems(1) by (simp add: add_Inr [OF assms(1)])
  moreover have "int64 (acc + rgt_amount (snd p) + sum_rows rgt_amount xs)" if "ps = xs @ ys" for xs ys
    using Cons.prems(2) [rule_format, of "p # xs" ys] that by (simp add: add.assoc)
  ultimately show ?case
    using Cons.IH [of "acc + rgt_amount (snd p)"] Cons.prems(1) by (simp add: add.assoc)
qed simp

text \<open>
  The three loops are \<open>set_shares\<close> with the sum of the new shares, when these are bounded and
  not so many that the sum could overflow.
\<close>

lemma dilute_eq:
  assumes "safe_ok L" "\<forall>p\<in>set ps. diluted_share L share (rgt_amount (snd p)) = Inr (f (rgt_amount (snd p)))"
    and "\<forall>p\<in>set ps. 0 \<le> f (rgt_amount (snd p))" "0 \<le> acc"
    and "acc + sum_rows (\<lambda>t. f (rgt_amount t)) ps < 2 ^ 63"
  shows "dilute L share ps acc c =
    bindE (set_shares f ps c) (\<lambda>c'. Inr (acc + sum_rows (\<lambda>t. f (rgt_amount t)) ps, c'))"
  using assms(2-)
proof (induction ps arbitrary: acc c)
  case (Cons p ps)
  let ?v = "f (rgt_amount (snd p))"
  have n: "0 \<le> sum_rows (\<lambda>t. f (rgt_amount t)) ps"
    using Cons.prems(2) by (intro sum_rows_nonneg) auto
  then have "add L acc ?v = Inr (acc + ?v)"
    using Cons.prems(2-4) by (intro add_Inr [OF assms(1)]) (auto simp: int64_def)
  moreover have "dilute L share ps (acc + ?v) c1 = bindE (set_shares f ps c1)
      (\<lambda>c'. Inr (acc + ?v + sum_rows (\<lambda>t. f (rgt_amount t)) ps, c'))" for c1
    by (rule Cons.IH) (use Cons.prems in auto)
  ultimately show ?case
    using Cons.prems(1) by (cases "set_share (fst p) ?v c") (simp_all add: set_shares_def add.assoc)
qed (simp add: set_shares_def)

lemma regrow_eq:
  assumes "safe_ok L" "\<forall>p\<in>set ps. regrown_share L share (rgt_amount (snd p)) = Inr (f (rgt_amount (snd p)))"
    and "\<forall>p\<in>set ps. 0 \<le> f (rgt_amount (snd p))" "0 \<le> acc"
    and "acc + sum_rows (\<lambda>t. f (rgt_amount t)) ps < 2 ^ 63"
  shows "\<exists>w s. (w = w0 \<and> ps = [] \<or> w = w0 \<and> s0 \<noteq> 0 \<or> w \<in> (\<lambda>p. rgt_owner (snd p)) ` set ps) \<and>
    regrow L share ps (acc, w0, s0) c =
      bindE (set_shares f ps c) (\<lambda>c'. Inr ((acc + sum_rows (\<lambda>t. f (rgt_amount t)) ps, w, s), c'))"
  using assms(2-)
proof (induction ps arbitrary: acc w0 s0 c)
  case (Cons p ps)
  let ?v = "f (rgt_amount (snd p))"
  let ?w = "if s0 = 0 \<or> s0 > ?v then rgt_owner (snd p) else w0"
  let ?s = "if s0 = 0 \<or> s0 > ?v then ?v else s0"
  have n: "0 \<le> sum_rows (\<lambda>t. f (rgt_amount t)) ps"
    using Cons.prems(2) by (intro sum_rows_nonneg) auto
  then have a: "add L acc ?v = Inr (acc + ?v)"
    using Cons.prems(2-4) by (intro add_Inr [OF assms(1)]) (auto simp: int64_def)
  show ?case
  proof (cases "set_share (fst p) ?v c")
    case (Inl e)
    then show ?thesis
      using Cons.prems(1) by (intro exI [of _ "rgt_owner (snd p)"]) (simp add: set_shares_def)
  next
    case (Inr c1)
    have "\<exists>w s. (w = ?w \<and> ps = [] \<or> w = ?w \<and> ?s \<noteq> 0 \<or> w \<in> (\<lambda>p. rgt_owner (snd p)) ` set ps) \<and>
        regrow L share ps (acc + ?v, ?w, ?s) c1 =
          bindE (set_shares f ps c1) (\<lambda>c'. Inr ((acc + ?v + sum_rows (\<lambda>t. f (rgt_amount t)) ps, w, s), c'))"
      by (rule Cons.IH) (use Cons.prems in auto)
    then obtain w s where ws: "w = ?w \<and> ps = [] \<or> w = ?w \<and> ?s \<noteq> 0 \<or> w \<in> (\<lambda>p. rgt_owner (snd p)) ` set ps"
      "regrow L share ps (acc + ?v, ?w, ?s) c1 =
          bindE (set_shares f ps c1) (\<lambda>c'. Inr ((acc + ?v + sum_rows (\<lambda>t. f (rgt_amount t)) ps, w, s), c'))"
      by blast
    have "regrow L share (p # ps) (acc, w0, s0) c = regrow L share ps (acc + ?v, ?w, ?s) c1"
      using Cons.prems(1) a Inr by simp
    moreover have "w = w0 \<and> s0 \<noteq> 0 \<or> w \<in> (\<lambda>p. rgt_owner (snd p)) ` set (p # ps)"
      using ws(1) by (auto split: if_splits)
    ultimately show ?thesis
      using ws(2) Inr by (intro exI [of _ w] exI [of _ s]) (simp add: set_shares_def add.assoc)
  qed
qed (simp add: set_shares_def)

end
