(* ===== verification/Group_Shares.thy ===== *)
theory Group_Shares
  imports Research_Groups
begin

text \<open>
  What joining and leaving a research group does to the shares of its members.
\<close>

section \<open>Joining\<close>

definition diluted :: "int \<Rightarrow> int \<Rightarrow> int" where
  "diluted share a = max DEIP_1_PERCENT (a - share * a div DEIP_100_PERCENT)"

lemma percent_values: "DEIP_1_PERCENT = 100" "DEIP_100_PERCENT = 10000"
  by (simp_all add: DEIP_1_PERCENT_def DEIP_100_PERCENT_def)

lemma diluted_share_eq:
  assumes "safe_ok L" "0 \<le> a" "a \<le> 10000" "0 \<le> share" "share \<le> 10000"
  shows "diluted_share L share a = Inr (diluted share a)"
proof -
  have m: "0 \<le> share * a" "share * a \<le> 10000 * 10000"
    using assms(2-) mult_mono [of share 10000 a 10000] mult_nonneg_nonneg [of share a] by simp_all
  then have "int64 (share * a)"
    unfolding int64_iff by linarith
  then have "mul L share a = Inr (share * a)"
    using assms by (simp add: mul_ok int64_iff)
  moreover have "int64 (share * a div 10000)"
    using m unfolding int64_iff by linarith
  then have "sdivide L (share * a) DEIP_100_PERCENT = Inr (share * a div 10000)"
    using m by (simp add: sdivide_ok [OF assms(1)] int64_iff percent_values sdiv_nonneg)
  moreover have "share * a \<le> 10000 * a" "0 \<le> share * a div 10000"
    using m assms mult_right_mono [of share 10000 a] pos_imp_zdiv_nonneg_iff [of 10000 "share * a"] by simp_all
  moreover from this(1) have "share * a div 10000 \<le> a"
    by linarith
  ultimately have "sub L a (share * a div 10000) = Inr (a - share * a div 10000)"
    using assms by (intro sub_Inr [OF assms(1)]) (auto simp: int64_iff)
  then show ?thesis
    using \<open>mul L share a = _\<close> \<open>sdivide L _ _ = _\<close>
    by (simp add: diluted_share_def diluted_def percent_values max_def)
qed

lemma diluted_bounds:
  assumes "0 \<le> a" "0 \<le> share"
  shows "100 \<le> diluted share a" "diluted share a \<le> a + 100"
  using assms pos_imp_zdiv_nonneg_iff [of "10000 :: int" "share * a"] mult_nonneg_nonneg [of share a]
  by (auto simp: diluted_def percent_values simp del: pos_imp_zdiv_nonneg_iff)

lemma share_le:
  assumes "shares_ok g c" "p \<in> set (get_research_group_tokens g c)"
  shows "0 \<le> rgt_amount (snd p)" "rgt_amount (snd p) \<le> 10000"
  using assms member_of_sum [of "get_research_group_tokens g c" rgt_amount p]
  by (auto simp: shares_ok_def share_sum_def percent_values)

lemma sum_rows_bounds:
  assumes "\<And>p. p \<in> set ps \<Longrightarrow> k \<le> f (snd p)" "\<And>p. p \<in> set ps \<Longrightarrow> f (snd p) \<le> h (snd p) + (m::int)"
  shows "k * int (length ps) \<le> sum_rows f ps" "sum_rows f ps \<le> sum_rows h ps + m * int (length ps)"
  using assms by (induction ps) (force simp: algebra_simps)+

lemma check_total_eq:
  assumes "safe_ok L" "get_research_group_tokens g c = ps @ [p]" "\<forall>q\<in>set ps. 0 \<le> rgt_amount (snd q)"
    and "sum_rows rgt_amount ps < 2 ^ 62" "rgt_amount (snd p) = 10000 - sum_rows rgt_amount ps"
  shows "check_total L g c = Inr c"
proof -
  have "int64 (0 + sum_rows rgt_amount xs)" if e: "ps @ [p] = xs @ ys" for xs ys
  proof (cases "ys = []")
    case True
    then show ?thesis
      using e assms(5) by (auto simp: int64_iff)
  next
    case False
    then obtain zs where "ps = xs @ zs"
      using e by (metis append_butlast_last_id butlast_append butlast_snoc)
    then show ?thesis
      using assms(3,4) sum_rows_nonneg [of xs rgt_amount] sum_rows_nonneg [of zs rgt_amount]
      by (auto simp: int64_def)
  qed
  moreover have "int64 (rgt_amount (snd q))" if "q \<in> set (ps @ [p])" for q
    using that assms(3-5) member_of_sum [OF assms(3), of q] sum_rows_nonneg [of ps rgt_amount]
    by (auto simp: int64_iff)
  ultimately have "total_share L (ps @ [p]) 0 = Inr (sum_rows rgt_amount (ps @ [p]))"
    using total_share_sum [OF assms(1), of "ps @ [p]" 0] by simp
  then show ?thesis
    using assms(5) by (simp add: check_total_def assms(2) percent_values)
qed

lemma newcomer_law:
  assumes L: "safe_ok L" and ok: "shares_ok g c" and new: "\<not> is_research_group_member account g c"
    and few: "length (get_research_group_tokens g c) < 2 ^ 32" and share: "0 \<le> share" "share \<le> 10000"
  shows "\<exists>i t c'. add_member_to_research_group L account g share [] c = Inr c' \<and>
    wf_index group_token_key (group_tokens c') \<and> rgt_owner t = account \<and>
    get_research_group_tokens g c' = map (reshare (diluted share)) (get_research_group_tokens g c) @ [(i, t)] \<and>
    share_sum g c' = DEIP_100_PERCENT \<and>
    rgt_amount t = 10000 - sum_rows (\<lambda>t. diluted share (rgt_amount t)) (get_research_group_tokens g c)"
proof -
  let ?ps = "get_research_group_tokens g c" and ?f = "\<lambda>t. diluted share (rgt_amount t)"
  have wf: "wf_index group_token_key (group_tokens c)" and sum: "sum_rows rgt_amount ?ps = 10000"
    using ok by (auto simp: shares_ok_def share_sum_def percent_values)
  have b: "0 \<le> sum_rows ?f ?ps" "sum_rows ?f ?ps < 2 ^ 62"
  proof -
    note sb = sum_rows_bounds [of ?ps 100 ?f rgt_amount 100]
    have "sum_rows ?f ?ps \<le> 10000 + 100 * int (length ?ps)" "100 * int (length ?ps) \<le> sum_rows ?f ?ps"
      using sb diluted_bounds share_le [OF ok] share sum by auto
    then show "0 \<le> sum_rows ?f ?ps" "sum_rows ?f ?ps < 2 ^ 62"
      using few by auto
  qed
  obtain u where u: "set_shares (diluted share) ?ps c = Inr (c\<lparr>group_tokens := u\<rparr>)" "wf_index group_token_key u"
    "\<And>h. get_research_group_tokens h (c\<lparr>group_tokens := u\<rparr>) =
       (if h = g then map (reshare (diluted share)) ?ps else get_research_group_tokens h c)"
    using set_group_shares [OF wf] by blast
  have f: "diluted_share L share (rgt_amount (snd p)) = Inr (?f (snd p))" "100 \<le> ?f (snd p)"
    if "p \<in> set ?ps" for p
    using diluted_share_eq [OF L share_le [OF ok that] share] diluted_bounds(1) [OF share_le(1) [OF ok that] share(1)]
    by simp_all
  then have f0: "\<forall>p\<in>set ?ps. 0 \<le> ?f (snd p)"
    by fastforce
  have d: "dilute L share ?ps 0 c = Inr (sum_rows ?f ?ps, c\<lparr>group_tokens := u\<rparr>)"
    using dilute_eq [OF L, of ?ps share "diluted share" 0 c] b(2) u(1) f(1) f0 by simp
  let ?t = "\<lparr>rgt_research_group_id = g, rgt_amount = 10000 - sum_rows ?f ?ps, rgt_owner = account\<rparr>"
  have sub: "sub L DEIP_100_PERCENT (sum_rows ?f ?ps) = Inr (10000 - sum_rows ?f ?ps)"
    using b by (simp add: sub_ok [OF L] int64_iff percent_values)
  have "\<not> group_token_key ?t (snd q)" if q: "q \<in> set (rows u)" for q
  proof
    assume k: "group_token_key ?t (snd q)"
    then have "q \<in> set (get_research_group_tokens g (c\<lparr>group_tokens := u\<rparr>))"
      using q by (simp add: get_research_group_tokens_def group_token_key_def)
    then obtain p where "p \<in> set ?ps" "rgt_owner (snd p) = account"
      using k by (auto simp: u(3) group_token_key_def)
    then show False
      using new find_member_iff [OF wf, of account g p] unfolding is_research_group_member_def by (metis option.distinct(1))
  qed
  moreover have "fst q \<noteq> next_id u" if "q \<in> set (rows u)" for q
    using u(2) that by (force simp: wf_index_def wf_rows_def)
  ultimately obtain i w where w: "emplace group_token_key ?t u = Inr (i, w)"
    by (auto simp: emplace_def Let_def)
  note e = cb.emplace_law [OF u(2) w]
  let ?c = "c\<lparr>group_tokens := w\<rparr>"
  have toks: "get_research_group_tokens g ?c = map (reshare (diluted share)) ?ps @ [(i, ?t)]"
    using e u(3) [of g] by (simp add: get_research_group_tokens_def)
  have sr: "sum_rows rgt_amount (map (reshare (diluted share)) ?ps) = sum_rows ?f ?ps"
    by (simp add: sum_rows_def comp_def)
  have "check_total L g ?c = Inr ?c"
    by (rule check_total_eq [OF L toks]) (use f0 sr b in simp_all)
  then have "add_member_to_research_group L account g share [] c = Inr ?c"
    using d sub w by (simp add: add_member_to_research_group_def set_group_tokens_def)
  moreover have "share_sum g ?c = DEIP_100_PERCENT"
    by (simp add: share_sum_def toks sr percent_values)
  ultimately show ?thesis
    using toks cb.wf_emplace [OF symp_group_token_key u(2) w] by (intro exI [of _ i] exI [of _ ?t] exI [of _ ?c]) simp
qed

section \<open>Leaving\<close>

definition regrown :: "int \<Rightarrow> int \<Rightarrow> int" where
  "regrown share a = a * DEIP_100_PERCENT div (DEIP_100_PERCENT - share)"

lemma regrown_share_eq:
  assumes "safe_ok L" "0 \<le> a" "a \<le> 10000" "0 \<le> share" "share < 10000"
  shows "regrown_share L share a = Inr (regrown share a)"
proof -
  have "mul L a DEIP_100_PERCENT = Inr (a * 10000)" "sub L DEIP_100_PERCENT share = Inr (10000 - share)"
    using assms by (simp_all add: mul_ok sub_ok int64_iff percent_values)
  moreover have d: "0 \<le> a * 10000 div (10000 - share)" "a * 10000 div (10000 - share) \<le> a * 10000"
    using assms zdiv_mono2 [of "a * 10000" 1 "10000 - share"] by (simp_all add: pos_imp_zdiv_nonneg_iff)
  then have "int64 (a * 10000 div (10000 - share))"
    using assms(3) unfolding int64_iff by linarith
  then have "sdivide L (a * 10000) (10000 - share) = Inr (a * 10000 div (10000 - share))"
    using assms by (simp add: sdivide_ok [OF assms(1)] int64_iff sdiv_nonneg)
  ultimately show ?thesis
    by (simp add: regrown_share_def regrown_def percent_values)
qed

lemma regrown_ge: "0 \<le> a \<Longrightarrow> 0 \<le> share \<Longrightarrow> share < 10000 \<Longrightarrow> a \<le> regrown share a"
  using zdiv_mono2 [of "a * 10000" "10000 - share" 10000] by (simp add: regrown_def percent_values)

text \<open>Rounding down, the shares that grow back never exceed the whole.\<close>

lemma regrown_sum:
  assumes "\<forall>p\<in>set ps. 0 \<le> rgt_amount (snd p)" "0 \<le> share" "share < 10000"
    and "sum_rows rgt_amount ps = 10000 - share"
  shows "sum_rows (\<lambda>t. regrown share (rgt_amount t)) ps \<le> 10000"
proof -
  have "(10000 - share) * sum_rows (\<lambda>t. regrown share (rgt_amount t)) ps \<le> 10000 * sum_rows rgt_amount ps"
    using assms(1)
  proof (induction ps)
    case (Cons p ps)
    have "(10000 - share) * regrown share (rgt_amount (snd p)) \<le> rgt_amount (snd p) * 10000"
      using minus_mod_eq_div_mult [of "rgt_amount (snd p) * 10000" "10000 - share"]
        pos_mod_sign [of "10000 - share" "rgt_amount (snd p) * 10000"] assms(3)
      unfolding regrown_def percent_values mult.commute [of "10000 - share"] by linarith
    then show ?case
      using Cons by (simp add: algebra_simps)
  qed simp
  then have "(10000 - share) * sum_rows (\<lambda>t. regrown share (rgt_amount t)) ps \<le> (10000 - share) * 10000"
    using assms(4) by (simp add: mult.commute)
  then show ?thesis
    by (rule mult_left_le_imp_le) (use assms(3) in simp)
qed

lemma check_total_nonneg:
  assumes "safe_ok L" "\<forall>q\<in>set (get_research_group_tokens g c). 0 \<le> rgt_amount (snd q)"
    and "share_sum g c = DEIP_100_PERCENT"
  shows "check_total L g c = Inr c"
proof -
  let ?ps = "get_research_group_tokens g c"
  have b: "0 \<le> sum_rows rgt_amount xs \<and> sum_rows rgt_amount xs \<le> 10000" if e: "?ps = xs @ ys" for xs ys
  proof -
    have "sum_rows rgt_amount xs + sum_rows rgt_amount ys = 10000"
      using assms(3) by (simp add: share_sum_def e percent_values)
    moreover have "0 \<le> sum_rows rgt_amount xs" "0 \<le> sum_rows rgt_amount ys"
      using assms(2) e by (auto intro!: sum_rows_nonneg)
    ultimately show ?thesis
      by simp
  qed
  have "int64 (rgt_amount (snd q))" if "q \<in> set ?ps" for q
    using member_of_sum [OF assms(2) that] that assms(2,3) by (auto simp: share_sum_def percent_values int64_iff)
  then have "total_share L ?ps 0 = Inr (sum_rows rgt_amount ?ps)"
    using total_share_sum [OF assms(1), of ?ps 0] b by (force simp: int64_iff)
  then show ?thesis
    using assms(3) by (simp add: check_total_def share_sum_def)
qed

lemma set_member_share:
  assumes wf: "wf_index group_token_key (group_tokens c)" and r: "r \<in> set (get_research_group_tokens g c)"
  shows "\<exists>u. set_share (fst r) v c = Inr (c\<lparr>group_tokens := u\<rparr>) \<and> wf_index group_token_key u \<and>
    get_research_group_tokens g (c\<lparr>group_tokens := u\<rparr>) =
      upd (fst r) ((snd r)\<lparr>rgt_amount := v\<rparr>) (get_research_group_tokens g c)"
proof -
  have mem: "r \<in> set (rows (group_tokens c))" "rgt_research_group_id (snd r) = g"
    using r by (simp_all add: get_research_group_tokens_def)
  obtain u where u: "set_share (fst r) v c = Inr (c\<lparr>group_tokens := u\<rparr>)" "wf_index group_token_key u"
    "rows u = upd (fst r) ((snd r)\<lparr>rgt_amount := v\<rparr>) (rows (group_tokens c))"
    using set_share_law [OF wf mem(1)] by blast
  have one: "rgt_research_group_id (snd q) = g" if "q \<in> set (rows (group_tokens c))" "fst q = fst r" for q
    using that mem cb.mem_map_of [OF wf, of "fst q" "snd q"] cb.mem_map_of [OF wf, of "fst r" "snd r"]
    by (metis prod.collapse option.inject)
  have "filter (\<lambda>p. rgt_research_group_id (snd p) = g) (upd (fst r) ((snd r)\<lparr>rgt_amount := v\<rparr>) xs) =
      upd (fst r) ((snd r)\<lparr>rgt_amount := v\<rparr>) (filter (\<lambda>p. rgt_research_group_id (snd p) = g) xs)"
    if "\<forall>q\<in>set xs. fst q = fst r \<longrightarrow> rgt_research_group_id (snd q) = g" for xs
    using that mem(2) by (induction xs) auto
  from this [of "rows (group_tokens c)"] show ?thesis
    using u one by (intro exI [of _ u]) (simp add: get_research_group_tokens_def)
qed

definition fair :: "nat \<Rightarrow> chain \<Rightarrow> bool" where
  "fair g c \<longleftrightarrow> wf_index group_token_key (group_tokens c) \<and>
     (\<forall>p\<in>set (get_research_group_tokens g c). 0 \<le> rgt_amount (snd p) \<and> rgt_owner (snd p) \<noteq> [])"

definition grows :: "(nat \<times> research_group_token_object) list \<Rightarrow> (nat \<times> research_group_token_object) list \<Rightarrow> bool" where
  "grows xs ys \<longleftrightarrow> length ys = length xs \<and>
     (\<forall>x\<in>set xs. \<exists>y\<in>set ys. fst y = fst x \<and> rgt_owner (snd y) = rgt_owner (snd x) \<and>
        rgt_amount (snd x) \<le> rgt_amount (snd y))"

lemma sorted1_inj: "sorted1 xs \<Longrightarrow> p \<in> set xs \<Longrightarrow> q \<in> set xs \<Longrightarrow> fst p = fst q \<Longrightarrow> p = q"
  using sorted1_distinct [of xs] by (auto simp: distinct_map dest: inj_onD)

lemma upd_mem: "p \<in> set xs \<Longrightarrow> (fst p, v) \<in> set (upd (fst p) v xs)"
  by (induction xs) auto

lemma upd_mem_other: "p \<in> set xs \<Longrightarrow> fst p \<noteq> i \<Longrightarrow> p \<in> set (upd i v xs)"
  by (induction xs) auto

lemma set_upd_mem: "p \<in> set (upd i v xs) \<Longrightarrow> p = (i, v) \<and> i \<in> fst ` set xs \<or> p \<in> set xs \<and> fst p \<noteq> i"
  by (induction xs) (auto split: if_splits)

lemma grows_trans:
  assumes "grows xs ys" "grows ys zs"
  shows "grows xs zs"
proof -
  have "\<exists>z\<in>set zs. fst z = fst x \<and> rgt_owner (snd z) = rgt_owner (snd x) \<and> rgt_amount (snd x) \<le> rgt_amount (snd z)"
    if x: "x \<in> set xs" for x
  proof -
    obtain y where y: "y \<in> set ys" "fst y = fst x" "rgt_owner (snd y) = rgt_owner (snd x)"
      "rgt_amount (snd x) \<le> rgt_amount (snd y)"
      using assms(1) x unfolding grows_def by blast
    obtain z where "z \<in> set zs" "fst z = fst y" "rgt_owner (snd z) = rgt_owner (snd y)"
      "rgt_amount (snd y) \<le> rgt_amount (snd z)"
      using assms(2) y(1) unfolding grows_def by blast
    then show ?thesis
      using y by (intro bexI [of _ z]) simp_all
  qed
  then show ?thesis
    using assms by (simp add: grows_def)
qed

lemma length_del: "sorted1 xs \<Longrightarrow> p \<in> set xs \<Longrightarrow> length (del (fst p) xs) + 1 = length xs"
proof (induction xs)
  case (Cons x xs)
  show ?case
  proof (cases "x = p")
    case True
    then have "del (fst p) xs = xs"
      using Cons.prems(1) by (auto simp: del_def filter_id_conv)
    then show ?thesis
      using True by simp
  next
    case False
    then show ?thesis
      using Cons sorted1_inj [OF Cons.prems(1), of x p] by (cases "fst x = fst p") simp_all
  qed
qed simp

lemma upd_grows:
  assumes "sorted1 xs" "r \<in> set xs" "rgt_amount (snd r) \<le> v"
  shows "grows xs (upd (fst r) ((snd r)\<lparr>rgt_amount := v\<rparr>) xs)"
proof -
  let ?w = "(snd r)\<lparr>rgt_amount := v\<rparr>"
  have "\<exists>y\<in>set (upd (fst r) ?w xs). fst y = fst x \<and> rgt_owner (snd y) = rgt_owner (snd x) \<and>
      rgt_amount (snd x) \<le> rgt_amount (snd y)" if x: "x \<in> set xs" for x
  proof (cases "fst x = fst r")
    case True
    then have "x = r"
      using sorted1_inj [OF assms(1) x assms(2)] by simp
    then show ?thesis
      using upd_mem [OF assms(2), of ?w] assms(3) by (intro bexI [of _ "(fst r, ?w)"]) simp_all
  next
    case False
    then show ?thesis
      using upd_mem_other [OF x] by (intro bexI [of _ x]) simp_all
  qed
  then show ?thesis
    by (simp add: grows_def upd_def)
qed

lemma sorted_tokens: "wf_index group_token_key (group_tokens c) \<Longrightarrow> sorted1 (get_research_group_tokens g c)"
  using cb.rows_sorted [of group_token_key "group_tokens c"]
  by (simp add: get_research_group_tokens_def sorted1_def sorted_wrt_map sorted_wrt_filter)

lemma add_remainder:
  assumes L: "safe_ok L" and f: "fair g c" and r: "r \<in> set (get_research_group_tokens g c)"
    and s: "share_sum g c \<le> DEIP_100_PERCENT"
  shows "\<exists>u. give_remainder L g (rgt_owner (snd r)) (DEIP_100_PERCENT - share_sum g c) c = Inr (c\<lparr>group_tokens := u\<rparr>) \<and> shares_ok g (c\<lparr>group_tokens := u\<rparr>) \<and>
    grows (get_research_group_tokens g c) (get_research_group_tokens g (c\<lparr>group_tokens := u\<rparr>))"
proof (cases "share_sum g c = DEIP_100_PERCENT")
  case True
  moreover have "c = c\<lparr>group_tokens := group_tokens c\<rparr>"
    by simp
  ultimately show ?thesis
    using f by (intro exI [of _ "group_tokens c"]) (auto simp: grows_def shares_ok_def fair_def give_remainder_def)
next
  case False
  let ?R = "DEIP_100_PERCENT - share_sum g c" and ?ps = "get_research_group_tokens g c"
  have wf: "wf_index group_token_key (group_tokens c)" and pos: "\<forall>p\<in>set ?ps. 0 \<le> rgt_amount (snd p)"
    using f by (auto simp: fair_def)
  have r': "rgt_owner (snd r) \<noteq> []" "find_member (rgt_owner (snd r)) g c = Some r"
    using f r find_member_iff [OF wf] by (auto simp: fair_def)
  have "rgt_amount (snd r) \<le> share_sum g c"
    using member_of_sum [OF pos r] by (simp add: share_sum_def)
  then have v: "add L (rgt_amount (snd r)) ?R = Inr (rgt_amount (snd r) + ?R)"
    using pos r s by (intro add_Inr [OF L]) (auto simp: percent_values int64_iff)
  obtain u where u: "set_share (fst r) (rgt_amount (snd r) + ?R) c = Inr (c\<lparr>group_tokens := u\<rparr>)"
    "wf_index group_token_key u"
    "get_research_group_tokens g (c\<lparr>group_tokens := u\<rparr>) =
      upd (fst r) ((snd r)\<lparr>rgt_amount := rgt_amount (snd r) + ?R\<rparr>) ?ps"
    using set_member_share [OF wf r] by blast
  have "share_sum g (c\<lparr>group_tokens := u\<rparr>) = DEIP_100_PERCENT"
    using sum_rows_upd [OF sorted_tokens [OF wf], of g "fst r" "snd r" rgt_amount]
      in_set_map_of [OF sorted_tokens [OF wf], of "fst r" "snd r" g] r by (simp add: share_sum_def u(3))
  moreover have "fair g (c\<lparr>group_tokens := u\<rparr>)"
    using u(2) f r s by (auto simp: fair_def u(3) dest!: set_upd_mem)
  ultimately have "shares_ok g (c\<lparr>group_tokens := u\<rparr>)"
    by (auto simp: shares_ok_def fair_def)
  then show ?thesis
    using u(1) r' v False s upd_grows [OF sorted_tokens [OF wf] r, of "rgt_amount (snd r) + ?R"]
    by (intro exI [of _ u]) (simp add: give_remainder_def get_research_group_token_by_member_def u(3) split_beta)
qed

lemma leave_law:
  assumes L: "safe_ok L" and ok: "shares_ok g c"
    and p: "p \<in> set (get_research_group_tokens g c)" "rgt_amount (snd p) < DEIP_100_PERCENT"
  shows "\<exists>c'. remove_member_from_research_group L (rgt_owner (snd p)) g c = Inr c' \<and> shares_ok g c' \<and>
    (\<forall>q. q \<in> set (get_research_group_tokens g c) \<and> q \<noteq> p \<longrightarrow>
       (\<exists>r\<in>set (get_research_group_tokens g c'). fst r = fst q \<and> rgt_owner (snd r) = rgt_owner (snd q) \<and>
          rgt_amount (snd q) \<le> rgt_amount (snd r))) \<and>
    length (get_research_group_tokens g c') + 1 = length (get_research_group_tokens g c)"
proof -
  let ?share = "rgt_amount (snd p)" and ?ps = "get_research_group_tokens g c"
  let ?f = "\<lambda>t. regrown ?share (rgt_amount t)"
  have wf: "wf_index group_token_key (group_tokens c)" and sum: "sum_rows rgt_amount ?ps = 10000"
    and own: "\<forall>q\<in>set ?ps. 0 \<le> rgt_amount (snd q) \<and> rgt_owner (snd q) \<noteq> []"
    using ok by (auto simp: shares_ok_def share_sum_def percent_values)
  have share: "0 \<le> ?share" "?share < 10000"
    using p own by (auto simp: percent_values)
  have find: "find_member (rgt_owner (snd p)) g c = Some p"
    using find_member_iff [OF wf] p(1) by simp
  have mem: "map_of (rows (group_tokens c)) (fst p) = Some (snd p)"
    using cb.mem_map_of [OF wf, of "fst p" "snd p"] subsetD [OF group_tokens_distinct(2) [OF wf] p(1)] by simp
  then obtain u where u: "remove (fst p) (group_tokens c) = Inr u"
    by (simp add: remove_def lookup_def)
  note wu = cb.wf_remove [OF wf u]
  let ?c1 = "c\<lparr>group_tokens := u\<rparr>" and ?qs = "get_research_group_tokens g (c\<lparr>group_tokens := u\<rparr>)"
  have ru: "rows u = del (fst p) (rows (group_tokens c))"
    using cb.remove_law [OF u] by blast
  have qs: "?qs = del (fst p) ?ps"
    by (simp add: get_research_group_tokens_def ru del_def conj_commute)
  have sorted: "sorted1 ?ps"
    using cb.rows_sorted [OF wf] by (simp add: get_research_group_tokens_def sorted1_def sorted_wrt_map sorted_wrt_filter)
  then have pm: "map_of ?ps (fst p) = Some (snd p)"
    using p(1) in_set_map_of [of ?ps "fst p" "snd p"] by simp
  have qsum: "sum_rows rgt_amount ?qs = 10000 - ?share"
    using sum_rows_del [OF sorted pm, of rgt_amount] sum by (simp add: qs)
  show ?thesis
  proof -
    have q0: "0 \<le> rgt_amount (snd q)" "rgt_amount (snd q) \<le> 10000" "rgt_owner (snd q) \<noteq> []" if "q \<in> set ?qs" for q
      using that share_le [OF ok] own by (auto simp: qs)
    have f: "regrown_share L ?share (rgt_amount (snd q)) = Inr (?f (snd q))" "rgt_amount (snd q) \<le> ?f (snd q)"
      "0 \<le> ?f (snd q)" if "q \<in> set ?qs" for q
      using regrown_share_eq [OF L q0(1,2) [OF that] share] regrown_ge [OF q0(1) [OF that] share] q0(1) [OF that]
      by simp_all
    have total: "0 \<le> sum_rows ?f ?qs" "sum_rows ?f ?qs \<le> 10000"
      using f(3) regrown_sum [OF _ share qsum] q0(1) by (simp_all add: sum_rows_nonneg)
    obtain w where w: "set_shares (regrown ?share) ?qs ?c1 = Inr (?c1\<lparr>group_tokens := w\<rparr>)"
      "wf_index group_token_key w"
      "get_research_group_tokens g (?c1\<lparr>group_tokens := w\<rparr>) = map (reshare (regrown ?share)) ?qs"
      using set_group_shares [of ?c1 "regrown ?share" g] wu by auto
    let ?c2 = "?c1\<lparr>group_tokens := w\<rparr>" and ?rs = "map (reshare (regrown ?share)) ?qs"
    have ne: "?qs \<noteq> []"
      using qsum share by auto
    obtain weak s where weak: "weak \<in> (\<lambda>q. rgt_owner (snd q)) ` set ?qs"
      "regrow L ?share ?qs (0, [], 0) ?c1 = Inr ((sum_rows ?f ?qs, weak, s), ?c2)"
      using regrow_eq [OF L, of ?qs ?share "regrown ?share" 0 "[]" 0 ?c1] f total w(1) ne by auto
    have rsum: "sum_rows rgt_amount ?rs = sum_rows ?f ?qs"
      by (simp add: sum_rows_def comp_def)
    have sub: "sub L DEIP_100_PERCENT (sum_rows ?f ?qs) = Inr (10000 - sum_rows ?f ?qs)"
      using total by (simp add: sub_ok [OF L] int64_iff percent_values)
    obtain q where q: "q \<in> set ?qs" "rgt_owner (snd q) = weak"
      using weak(1) by blast
    have c2: "share_sum g ?c2 = sum_rows ?f ?qs" "reshare (regrown ?share) q \<in> set (get_research_group_tokens g ?c2)"
      using w(3) rsum q(1) by (simp_all add: share_sum_def)
    have "fair g ?c2"
      using w(2) q0(3) f(3) unfolding fair_def w(3) by auto
    then obtain v where v: "give_remainder L g weak (10000 - sum_rows ?f ?qs) ?c2 = Inr (?c2\<lparr>group_tokens := v\<rparr>)" "shares_ok g (?c2\<lparr>group_tokens := v\<rparr>)"
      "grows ?rs (get_research_group_tokens g (?c2\<lparr>group_tokens := v\<rparr>))"
      using add_remainder [OF L _ c2(2)] total(2) unfolding c2(1) percent_values(2) reshare_simps q(2) w(3) by blast
    have "check_total L g (?c2\<lparr>group_tokens := v\<rparr>) = Inr (?c2\<lparr>group_tokens := v\<rparr>)"
      using v(2) by (intro check_total_nonneg [OF L]) (auto simp: shares_ok_def)
    then have "remove_member_from_research_group L (rgt_owner (snd p)) g c = Inr (?c2\<lparr>group_tokens := v\<rparr>)"
      using find u weak(2) sub v(1)
      by (simp add: remove_member_from_research_group_def get_research_group_token_by_member_def set_group_tokens_def
          percent_values split_beta)
    moreover have "grows ?qs (get_research_group_tokens g (?c2\<lparr>group_tokens := v\<rparr>))"
      by (rule grows_trans [OF _ v(3)]) (use f(2) in \<open>force simp: grows_def\<close>)
    moreover have "q \<in> set ?qs" if "q \<in> set ?ps" "q \<noteq> p" for q
      using that sorted1_inj [OF sorted _ p(1), of q] by (auto simp: qs)
    moreover have "length ?qs + 1 = length ?ps"
      using length_del [OF sorted p(1)] by (simp add: qs)
    ultimately show ?thesis
      using v(2) by (intro exI [of _ "?c2\<lparr>group_tokens := v\<rparr>"]) (simp add: grows_def)
  qed
qed

section \<open>Properties\<close>


definition demo_share :: "string \<Rightarrow> int \<Rightarrow> research_group_token_object" where
  "demo_share w a = \<lparr>rgt_research_group_id = 0, rgt_amount = a, rgt_owner = w\<rparr>"

definition group_chain :: chain where
  "group_chain = empty_chain\<lparr>
     research_groups := table [demo_group ''group'' ''alice''],
     group_tokens := table [demo_share ''alice'' 7000, demo_share ''bob'' 2950, demo_share ''carol'' 50]\<rparr>"

lemmas group_chain_defs = group_chain_def demo_share_def table_def empty_chain_def empty_index_def

lemma group_chain_shares: "shares_ok 0 group_chain"
  by (simp add: shares_ok_def wf_index_def wf_rows_def group_token_key_def get_research_group_tokens_def share_sum_def
      group_chain_defs percent_values)


text \<open>
  C26. A member who does not own the whole group can always leave: the shares of the others
  still add up to the whole and none of them shrinks.
\<close>

theorem leaving_shrinks_nobody:
  assumes "safe_ok L" "shares_ok g c"
    and "p \<in> set (get_research_group_tokens g c)" "rgt_amount (snd p) < DEIP_100_PERCENT"
  shows "\<exists>c'. remove_member_from_research_group L (rgt_owner (snd p)) g c = Inr c' \<and> shares_ok g c' \<and>
    (\<forall>q. q \<in> set (get_research_group_tokens g c) \<and> q \<noteq> p \<longrightarrow>
       (\<exists>r\<in>set (get_research_group_tokens g c'). fst r = fst q \<and> rgt_owner (snd r) = rgt_owner (snd q) \<and>
          rgt_amount (snd q) \<le> rgt_amount (snd r))) \<and>
    length (get_research_group_tokens g c') + 1 = length (get_research_group_tokens g c)"
  using leave_law [OF assms] .

lemma leaving_shrinks_nobody_witness:
  "\<exists>c'. remove_member_from_research_group fc_ref ''bob'' 0 group_chain = Inr c' \<and> shares_ok 0 c' \<and>
     length (get_research_group_tokens 0 c') = 2"
proof -
  have "(1, demo_share ''bob'' 2950) \<in> set (get_research_group_tokens 0 group_chain)"
    "length (get_research_group_tokens 0 group_chain) = 3"
    by (simp_all add: get_research_group_tokens_def group_chain_defs)
  from leaving_shrinks_nobody [OF fc_ref_ok(1) group_chain_shares this(1)] this(2) show ?thesis
    by (auto simp: demo_share_def percent_values)
qed

end
