(* ===== verification/Grants.thy ===== *)
theory Grants
  imports Research_Groups
begin

text \<open>
  Funding opportunities and discipline supplies: the services
  \<open>libraries/chain/services/dbs_discipline.cpp\<close>, \<open>dbs_discipline_supply.cpp\<close> (creation) and
  \<open>dbs_funding_opportunity.cpp\<close> (creation, lookup, supply, removal), and the operation
  \<open>create_grant\<close> with its three distribution models.
\<close>

section \<open>Disciplines\<close>

definition get_discipline_by_id :: "nat \<Rightarrow> chain \<Rightarrow> discipline_object result" where
  "get_discipline_by_id i c = the_or Out_of_range (lookup (disciplines c) i)"

definition get_discipline :: "string \<Rightarrow> chain \<Rightarrow> (nat \<times> discipline_object) result" where
  "get_discipline external_id c = get_row (\<lambda>d. di_external_id d = external_id) (disciplines c)"

definition get_discipline_by_id_if_exists :: "nat \<Rightarrow> chain \<Rightarrow> discipline_object option" where
  "get_discipline_by_id_if_exists i c = lookup (disciplines c) i"

definition get_discipline_if_exists :: "string \<Rightarrow> chain \<Rightarrow> (nat \<times> discipline_object) option" where
  "get_discipline_if_exists external_id c = find_row (\<lambda>d. di_external_id d = external_id) (disciplines c)"

definition discipline_exists_by_id :: "nat \<Rightarrow> chain \<Rightarrow> bool" where
  "discipline_exists_by_id i c = (lookup (disciplines c) i \<noteq> None)"

definition discipline_exists :: "string \<Rightarrow> chain \<Rightarrow> bool" where
  "discipline_exists external_id c = (find_row (\<lambda>d. di_external_id d = external_id) (disciplines c) \<noteq> None)"

definition get_disciplines_by_parent :: "string \<Rightarrow> chain \<Rightarrow> (nat \<times> discipline_object) list" where
  "get_disciplines_by_parent parent c = filter (\<lambda>p. di_parent_external_id (snd p) = parent) (rows (disciplines c))"

definition lookup_disciplines :: "nat \<Rightarrow> nat \<Rightarrow> chain \<Rightarrow> (nat \<times> discipline_object) list" where
  "lookup_disciplines lower limit c = take limit (filter (\<lambda>p. lower \<le> fst p) (rows (disciplines c)))"

section \<open>Additional information\<close>

text \<open>
  Keys and values are copied with \<open>strcpy\<close>, which stops at the first zero byte; a key that is
  already in the map is not inserted again.
\<close>

definition c_string :: "string \<Rightarrow> string" where
  "c_string s = takeWhile (\<lambda>ch. ch \<noteq> CHR 0x00) s"

fun copy_info :: "(string \<times> string) list \<Rightarrow> (string \<times> string) list \<Rightarrow> (string \<times> string) list" where
  "copy_info [] info = info"
| "copy_info (p # ps) info =
     copy_info ps (if map_of info (c_string (fst p)) = None then info @ [(c_string (fst p), c_string (snd p))] else info)"

section \<open>Discipline supplies\<close>

definition DEIP_LIMIT_DISCIPLINE_SUPPLIES_PER_GRANTOR :: nat where
  "DEIP_LIMIT_DISCIPLINE_SUPPLIES_PER_GRANTOR = 5"

definition DEIP_MIN_DISCIPLINE_SUPPLY_PER_BLOCK :: int where "DEIP_MIN_DISCIPLINE_SUPPLY_PER_BLOCK = 1"

definition DEIP_BLOCK_INTERVAL :: int where "DEIP_BLOCK_INTERVAL = 3"

definition discipline_supplies_count :: "string \<Rightarrow> chain \<Rightarrow> nat" where
  "discipline_supplies_count grantor c =
     length (filter (\<lambda>p. ds_grantor (snd p) = grantor) (rows (discipline_supplies c)))"

definition get_discipline_supplies_by_grantor :: "string \<Rightarrow> chain \<Rightarrow> (nat \<times> discipline_supply_object) list" where
  "get_discipline_supplies_by_grantor grantor c = filter (\<lambda>p. ds_grantor (snd p) = grantor) (rows (discipline_supplies c))"

definition get_discipline_supplies :: "chain \<Rightarrow> (nat \<times> discipline_supply_object) list" where
  "get_discipline_supplies c = rows (discipline_supplies c)"

definition get_discipline_supply :: "nat \<Rightarrow> chain \<Rightarrow> discipline_supply_object result" where
  "get_discipline_supply i c = the_or Out_of_range (lookup (discipline_supplies c) i)"

definition get_discipline_supply_if_exists :: "nat \<Rightarrow> chain \<Rightarrow> discipline_supply_object option" where
  "get_discipline_supply_if_exists i c = lookup (discipline_supplies c) i"

text \<open>The start time passed in is not used: the supply starts at the head block time.\<close>

definition create_discipline_supply ::
  "fc_lib \<Rightarrow> string \<Rightarrow> asset \<Rightarrow> int \<Rightarrow> int \<Rightarrow> nat \<Rightarrow> bool \<Rightarrow> string \<Rightarrow> (string \<times> string) list \<Rightarrow> chain \<Rightarrow> chain result" where
  "create_discipline_supply L grantor balance start_time end_time target extendable hash info c =
     require (discipline_supplies_count grantor c < DEIP_LIMIT_DISCIPLINE_SUPPLIES_PER_GRANTOR) Limit_exceeded
      (bindE (asset_uminus L balance) (\<lambda>nb.
       bindE (adjust_account_balance L grantor nb c) (\<lambda>c1.
       let start = head_block_time c1
       in require (start < end_time) Bad_time
           (bindE (mul L (amount balance) DEIP_BLOCK_INTERVAL) (\<lambda>m.
            bindE (sdivide L m (end_time - start)) (\<lambda>per_block.
            require (per_block \<ge> DEIP_MIN_DISCIPLINE_SUPPLY_PER_BLOCK) Limit_exceeded
             (bindE (emplace no_key
                \<lparr>ds_grantor = grantor, ds_target_discipline = target, ds_created = head_block_time c1,
                 ds_balance = balance, ds_per_block = per_block, ds_start_time = start, ds_end_time = end_time,
                 ds_is_extendable = extendable, ds_content_hash = hash, ds_additional_info = copy_info info []\<rparr>
                (discipline_supplies c1)) (\<lambda>(i, t). Inr (c1\<lparr>discipline_supplies := t\<rparr>))))))))) "

section \<open>Funding opportunities\<close>

definition set_grants :: "funding_opportunity_object generic_index result \<Rightarrow> chain \<Rightarrow> chain result" where
  "set_grants r c = bindE r (\<lambda>t. Inr (c\<lparr>grants := t\<rparr>))"

text \<open>The fields the constructor leaves alone keep the defaults of their types.\<close>

definition blank_opportunity :: funding_opportunity_object where
  "blank_opportunity = \<lparr>fo_organization_id = 0, fo_organization_external_id = [], fo_review_committee_id = 0,
     fo_review_committee_external_id = [], fo_treasury_id = 0, fo_treasury_external_id = [], fo_grantor = [],
     fo_number = [], fo_additional_info = [], fo_target_disciplines = {},
     fo_amount = \<lparr>amount = 0, symbol = DEIP_SYMBOL\<rparr>, fo_award_ceiling = \<lparr>amount = 0, symbol = DEIP_SYMBOL\<rparr>,
     fo_award_floor = \<lparr>amount = 0, symbol = DEIP_SYMBOL\<rparr>, fo_current_supply = \<lparr>amount = 0, symbol = DEIP_SYMBOL\<rparr>,
     fo_min_number_of_positive_reviews = None, fo_min_number_of_applications = None,
     fo_max_number_of_research_to_grant = None, fo_expected_number_of_awards = None, fo_officers = [],
     fo_open_date = 0, fo_close_date = 0, fo_posted_date = 0, fo_distribution_type = unknown_distribution\<rparr>"

definition create_opportunity :: "fc_lib \<Rightarrow> string \<Rightarrow> asset \<Rightarrow> (chain \<Rightarrow> funding_opportunity_object) \<Rightarrow> chain \<Rightarrow> chain result" where
  "create_opportunity L grantor a opportunity c =
     bindE (asset_uminus L a) (\<lambda>na.
     bindE (adjust_account_balance L grantor na c) (\<lambda>c1.
       set_grants (bindE (emplace grant_key (opportunity c1) (grants c1)) (\<lambda>(i, t). Inr t)) c1))"

definition create_grant_with_officer_evaluation_distribution ::
  "fc_lib \<Rightarrow> nat \<Rightarrow> string \<Rightarrow> nat \<Rightarrow> string \<Rightarrow> nat \<Rightarrow> string \<Rightarrow> string \<Rightarrow> string \<Rightarrow> (string \<times> string) list \<Rightarrow> nat set \<Rightarrow>
   asset \<Rightarrow> asset \<Rightarrow> asset \<Rightarrow> nat \<Rightarrow> string list \<Rightarrow> int \<Rightarrow> int \<Rightarrow> chain \<Rightarrow> chain result" where
  "create_grant_with_officer_evaluation_distribution L organization_id organization review_id review treasury_id treasury
     grantor number info targets a award_ceiling award_floor expected officers open_date close_date =
     create_opportunity L grantor a (\<lambda>c1.
       blank_opportunity\<lparr>fo_organization_id := organization_id, fo_organization_external_id := organization,
         fo_review_committee_id := review_id, fo_review_committee_external_id := review,
         fo_treasury_id := treasury_id, fo_treasury_external_id := treasury, fo_grantor := grantor,
         fo_number := number, fo_additional_info := copy_info info [], fo_target_disciplines := targets,
         fo_amount := a, fo_award_ceiling := award_ceiling, fo_award_floor := award_floor, fo_current_supply := a,
         fo_expected_number_of_awards := Some expected, fo_officers := officers, fo_open_date := open_date,
         fo_close_date := close_date, fo_posted_date := head_block_time c1,
         fo_distribution_type := officer_evaluation\<rparr>)"

definition create_grant_with_eci_evaluation_distribution ::
  "fc_lib \<Rightarrow> string \<Rightarrow> asset \<Rightarrow> nat set \<Rightarrow> string \<Rightarrow> (string \<times> string) list \<Rightarrow> nat \<Rightarrow> string \<Rightarrow> nat \<Rightarrow> nat \<Rightarrow> nat \<Rightarrow>
   int \<Rightarrow> int \<Rightarrow> chain \<Rightarrow> chain result" where
  "create_grant_with_eci_evaluation_distribution L grantor a targets number info review_id review
     min_reviews min_applications max_research open_date close_date =
     create_opportunity L grantor a (\<lambda>c1.
       blank_opportunity\<lparr>fo_grantor := grantor, fo_amount := a, fo_current_supply := a,
         fo_target_disciplines := targets, fo_number := number, fo_additional_info := copy_info info [],
         fo_review_committee_id := review_id, fo_review_committee_external_id := review,
         fo_min_number_of_positive_reviews := Some min_reviews,
         fo_min_number_of_applications := Some min_applications,
         fo_max_number_of_research_to_grant := Some max_research, fo_open_date := open_date,
         fo_close_date := close_date, fo_posted_date := head_block_time c1,
         fo_distribution_type := eci_evaluation\<rparr>)"

definition get_funding_opportunity_by_id :: "nat \<Rightarrow> chain \<Rightarrow> funding_opportunity_object result" where
  "get_funding_opportunity_by_id i c = the_or (Assert Not_found) (lookup (grants c) i)"

definition find_funding_opportunity :: "string \<Rightarrow> chain \<Rightarrow> (nat \<times> funding_opportunity_object) option" where
  "find_funding_opportunity number c = find_row (\<lambda>f. fo_number f = number) (grants c)"

definition get_funding_opportunity :: "string \<Rightarrow> chain \<Rightarrow> (nat \<times> funding_opportunity_object) result" where
  "get_funding_opportunity number c = the_or (Assert Not_found) (find_funding_opportunity number c)"

definition get_announcement_by_id_if_exists :: "nat \<Rightarrow> chain \<Rightarrow> funding_opportunity_object option" where
  "get_announcement_by_id_if_exists i c = lookup (grants c) i"

definition funding_opportunity_exists_by_id :: "nat \<Rightarrow> chain \<Rightarrow> bool" where
  "funding_opportunity_exists_by_id i c = (lookup (grants c) i \<noteq> None)"

definition funding_opportunity_exists :: "string \<Rightarrow> chain \<Rightarrow> bool" where
  "funding_opportunity_exists number c = (find_funding_opportunity number c \<noteq> None)"

definition get_announcements_by_grantor :: "string \<Rightarrow> chain \<Rightarrow> (nat \<times> funding_opportunity_object) list" where
  "get_announcements_by_grantor grantor c = filter (\<lambda>p. fo_grantor (snd p) = grantor) (rows (grants c))"

definition get_announcements_by_organization :: "nat \<Rightarrow> chain \<Rightarrow> (nat \<times> funding_opportunity_object) list" where
  "get_announcements_by_organization g c = filter (\<lambda>p. fo_organization_id (snd p) = g) (rows (grants c))"

definition get_announcements_listing :: "nat \<Rightarrow> nat \<Rightarrow> chain \<Rightarrow> (nat \<times> funding_opportunity_object) list" where
  "get_announcements_listing page limit c = take limit (rows (grants c))"

definition remove_funding_opportunity :: "fc_lib \<Rightarrow> nat \<Rightarrow> chain \<Rightarrow> chain result" where
  "remove_funding_opportunity L i c =
     bindE (the_or Undefined_behaviour (lookup (grants c) i)) (\<lambda>f.
     bindE (adjust_account_balance L (fo_grantor f) (fo_amount f) c) (\<lambda>c1.
       set_grants (remove i (grants c1)) c1))"

definition adjust_funding_opportunity_supply :: "fc_lib \<Rightarrow> nat \<Rightarrow> asset \<Rightarrow> chain \<Rightarrow> chain result" where
  "adjust_funding_opportunity_supply L i delta c =
     bindE (get_funding_opportunity_by_id i c) (\<lambda>f.
     bindE (add L (amount (fo_current_supply f)) (amount delta)) (\<lambda>v.
     require (v > 0) Limit_exceeded
      (bindE (asset_plus L (fo_current_supply f) delta) (\<lambda>s.
         set_grants (modify grant_key i (\<lambda>f. f\<lparr>fo_current_supply := s\<rparr>) (grants c)) c))))"

section \<open>Creating a grant\<close>

record announced_application_window_contract =
  wc_review_committee_id :: string
  wc_min_number_of_positive_reviews :: nat
  wc_min_number_of_applications :: nat
  wc_max_number_of_research_to_grant :: nat
  wc_open_date :: int
  wc_close_date :: int
  wc_additional_info :: "(string \<times> string) list"

record funding_opportunity_announcement_contract =
  fc_organization_id :: string
  fc_review_committee_id :: string
  fc_treasury_id :: string
  fc_award_ceiling :: asset
  fc_award_floor :: asset
  fc_expected_number_of_awards :: nat
  fc_open_date :: int
  fc_close_date :: int
  fc_officers :: "string list"
  fc_additional_info :: "(string \<times> string) list"

record discipline_supply_announcement_contract =
  sc_start_time :: int
  sc_end_time :: int
  sc_is_extendable :: bool
  sc_content_hash :: string
  sc_additional_info :: "(string \<times> string) list"

datatype grant_distribution_model =
    application_window announced_application_window_contract
  | opportunity_announcement funding_opportunity_announcement_contract
  | supply_announcement discipline_supply_announcement_contract

record create_grant_operation =
  cg_external_id :: string
  cg_grantor :: string
  cg_amount :: asset
  cg_target_disciplines :: "string list"
  cg_distribution_model :: grant_distribution_model

definition validate_info :: "fc_lib \<Rightarrow> (string \<times> string) list \<Rightarrow> unit result" where
  "validate_info L info =
     foldE (\<lambda>p _. require (is_utf8 L (fst p)) Bad_text (require (is_utf8 L (snd p)) Bad_text (Inr ()))) info ()"

fun validate_distribution_model ::
  "fc_lib \<Rightarrow> grant_distribution_model \<Rightarrow> asset \<Rightarrow> string \<Rightarrow> string list \<Rightarrow> unit result" where
  "validate_distribution_model L (application_window w) a grantor targets =
     bindE (validate_160_bits_hexadecimal_string (wc_review_committee_id w)) (\<lambda>_.
     require (wc_min_number_of_applications w > 0) Bad_amount
    (require (wc_min_number_of_applications w \<ge> wc_max_number_of_research_to_grant w) Bad_amount
    (require (wc_max_number_of_research_to_grant w > 0) Bad_amount
    (require (wc_open_date w > wc_close_date w) Bad_time (Inr ())))))"
| "validate_distribution_model L (opportunity_announcement f) a grantor targets =
     bindE (validate_160_bits_hexadecimal_string (fc_organization_id f)) (\<lambda>_.
     bindE (validate_160_bits_hexadecimal_string (fc_review_committee_id f)) (\<lambda>_.
     bindE (validate_160_bits_hexadecimal_string (fc_treasury_id f)) (\<lambda>_.
     bindE (validate_info L (fc_additional_info f)) (\<lambda>_.
     require (grantor \<in> set (fc_officers f)) Bad_member
      (bindE (asset_le (fc_award_ceiling f) a) (\<lambda>le.
       require le Bad_amount
      (bindE (asset_le (fc_award_floor f) (fc_award_ceiling f)) (\<lambda>le2.
       require le2 Bad_amount
      (require (fc_expected_number_of_awards f > 0) Bad_amount
      (require (fc_close_date f > fc_open_date f) Bad_time (Inr ()))))))))))) "
| "validate_distribution_model L (supply_announcement s) a grantor targets =
     require (length targets = 1) Bad_size
    (require (sc_end_time s > sc_start_time s) Bad_time
    (require (length (sc_content_hash s) > 0) Bad_size
    (require (is_utf8 L (sc_content_hash s)) Bad_text
      (validate_info L (sc_additional_info s)))))"

definition create_grant_validate :: "fc_lib \<Rightarrow> create_grant_operation \<Rightarrow> unit result" where
  "create_grant_validate L op =
     bindE (validate_account_name (cg_grantor op)) (\<lambda>_.
     bindE (asset_gt (cg_amount op) \<lparr>amount = 0, symbol = symbol (cg_amount op)\<rparr>) (\<lambda>gt.
     require gt Bad_amount
    (require (length (cg_target_disciplines op) \<noteq> 0) Bad_size
      (validate_distribution_model L (cg_distribution_model op) (cg_amount op) (cg_grantor op)
         (cg_target_disciplines op)))))"

fun target_discipline_ids :: "string list \<Rightarrow> chain \<Rightarrow> nat set \<Rightarrow> nat set result" where
  "target_discipline_ids [] c ids = Inr ids"
| "target_discipline_ids (e # es) c ids =
     bindE (get_discipline e c) (\<lambda>(i, d). target_discipline_ids es c (insert i ids))"

definition check_officers :: "string list \<Rightarrow> nat \<Rightarrow> chain \<Rightarrow> unit result" where
  "check_officers officers organization c =
     foldE (\<lambda>officer _. require (is_research_group_member officer organization c) Bad_member (Inr ())) officers ()"

fun distribute_grant :: "fc_lib \<Rightarrow> grant_distribution_model \<Rightarrow> create_grant_operation \<Rightarrow> nat set \<Rightarrow> chain \<Rightarrow> chain result" where
  "distribute_grant L (application_window w) op targets c =
     require (research_group_exists (wc_review_committee_id w) c) Not_found
    (require (wc_open_date w \<ge> head_block_time c) Bad_time
    (require (wc_open_date w < wc_close_date w) Bad_time
      (bindE (get_research_group_by_account (wc_review_committee_id w) c) (\<lambda>(ri, review).
         create_grant_with_eci_evaluation_distribution L (cg_grantor op) (cg_amount op) targets (cg_external_id op)
           (wc_additional_info w) ri (rg_account review) (wc_min_number_of_positive_reviews w)
           (wc_min_number_of_applications w) (wc_max_number_of_research_to_grant w) (wc_open_date w)
           (wc_close_date w) c))))"
| "distribute_grant L (opportunity_announcement f) op targets c =
     require (research_group_exists (fc_organization_id f) c) Not_found
    (require (research_group_exists (fc_review_committee_id f) c) Not_found
    (require (research_group_exists (fc_treasury_id f) c) Not_found
      (bindE (get_research_group_by_account (fc_organization_id f) c) (\<lambda>(oi, organization).
       bindE (get_research_group_by_account (fc_review_committee_id f) c) (\<lambda>(ri, review).
       bindE (get_research_group_by_account (fc_treasury_id f) c) (\<lambda>(ti, treasury).
       bindE (check_officers (fc_officers f) oi c) (\<lambda>_.
       require (fc_open_date f \<ge> head_block_time c) Bad_time
      (require (fc_open_date f < fc_close_date f) Bad_time
        (create_grant_with_officer_evaluation_distribution L oi (rg_account organization) ri (rg_account review) ti
           (rg_account treasury) (cg_grantor op) (cg_external_id op) (fc_additional_info f) targets (cg_amount op)
           (fc_award_ceiling f) (fc_award_floor f) (fc_expected_number_of_awards f) (fc_officers f) (fc_open_date f)
           (fc_close_date f) c))))))))) "
| "distribute_grant L (supply_announcement s) op targets c =
     create_discipline_supply L (cg_grantor op) (cg_amount op) (sc_start_time s) (sc_end_time s) (Min targets)
       (sc_is_extendable s) (sc_content_hash s) (sc_additional_info s) c"

definition create_grant_apply :: "fc_lib \<Rightarrow> create_grant_operation \<Rightarrow> chain \<Rightarrow> chain result" where
  "create_grant_apply L op c =
     require (account_exists (cg_grantor op) c) Not_found
    (require (asset_exists_by_symbol (symbol (cg_amount op)) c) Not_found
      (bindE (target_discipline_ids (cg_target_disciplines op) c {}) (\<lambda>targets.
       require (targets \<noteq> {}) Bad_size
      (require (account_balance_exists (cg_grantor op) (symbol (cg_amount op)) c) Not_found
        (bindE (get_account_balance (cg_grantor op) (symbol (cg_amount op)) c) (\<lambda>(i, b).
         require (ab_amount b \<ge> amount (cg_amount op)) Insufficient_funds
          (distribute_grant L (cg_distribution_model op) op targets c)))))))"

section \<open>What a grant does\<close>

lemma symp_grant_key [simp]: "symp grant_key"
  by (auto simp: symp_def grant_key_def)

definition opportunity_ok :: "funding_opportunity_object \<Rightarrow> bool" where
  "opportunity_ok f \<longleftrightarrow> symbol (fo_current_supply f) = symbol (fo_amount f) \<and>
     0 \<le> amount (fo_current_supply f) \<and> amount (fo_current_supply f) \<le> amount (fo_amount f) \<and>
     int64 (amount (fo_amount f))"

definition grants_ok :: "fc_lib \<Rightarrow> chain \<Rightarrow> bool" where
  "grants_ok L c \<longleftrightarrow> supply_ok L c \<and> wf_index grant_key (grants c) \<and>
     (\<forall>p\<in>set (rows (grants c)). opportunity_ok (snd p)) \<and> wf_index no_key (discipline_supplies c)"

definition supply_in :: "64 word \<Rightarrow> funding_opportunity_object \<Rightarrow> int" where
  "supply_in s g = (if symbol (fo_current_supply g) = s then amount (fo_current_supply g) else 0)"

lemma locked_grants:
  "locked c s = sum_rows (\<lambda>v. if symbol (vb_balance v) = s then amount (vb_balance v) else 0) (rows (vestings c)) +
     sum_rows (supply_in s) (rows (grants c)) +
     sum_rows (\<lambda>d. if symbol (ds_balance d) = s then amount (ds_balance d) else 0) (rows (discipline_supplies c))"
  by (simp add: locked_def supply_in_def [abs_def])

text \<open>Money that leaves a balance for a new opportunity or supply.\<close>

definition paid_in :: "fc_lib \<Rightarrow> string \<Rightarrow> asset \<Rightarrow> chain \<Rightarrow> chain \<Rightarrow> bool" where
  "paid_in L w a c c' \<longleftrightarrow> grants_ok L c' \<and> (\<forall>s. circulating c' s = circulating c s) \<and>
     (\<forall>v s. spendable c' v s = spendable c v s - (if v = w \<and> s = symbol a then amount a else 0))"

lemma create_opportunity_law:
  assumes cr: "create_opportunity L grantor a f c = Inr c'" and ok: "grants_ok L c"
    and a: "int64 (amount a)" "0 \<le> amount a"
    and f: "\<And>c1. fo_current_supply (f c1) = a" "\<And>c1. fo_amount (f c1) = a"
  shows "paid_in L grantor a c c' \<and> (\<exists>i c1. rows (grants c') = rows (grants c) @ [(i, f c1)] \<and>
    head_block_time c1 = head_block_time c \<and> discipline_supplies c' = discipline_supplies c)"
proof -
  have bo: "balances_ok L c" "safe_ok L" and wf: "wf_index grant_key (grants c)"
    using ok by (auto simp: grants_ok_def supply_ok_def balances_ok_def)
  obtain na c1 i t where na: "asset_uminus L a = Inr na" and c1: "adjust_account_balance L grantor na c = Inr c1"
    and t: "emplace grant_key (f c1) (grants c1) = Inr (i, t)" "c' = c1\<lparr>grants := t\<rparr>"
    using cr by (auto simp: create_opportunity_def set_grants_def ok_iff split: prod.splits)
  note neg = uminus_D [OF na bo(2) a(1)]
  then have i: "int64 (amount na)"
    by blast
  note adj = lg.adjust_law [OF bo(1) i c1] lg.adjust_spendable [OF bo(1) i c1]
  have "but_balances c1 = but_balances c"
    using adj(1) by blast
  note fr = but_balances_fields [OF this]
  note e = cb.emplace_law [OF wf t(1) [unfolded fr(11)]]
  have lock: "locked c' s = locked c s + (if s = symbol a then amount a else 0)" for s
    using e f(1) fr by (auto simp: locked_grants t(2) supply_in_def)
  have hs: "held c' s = held c s - (if s = symbol a then amount a else 0)"
    "spendable c' v s = spendable c v s - (if v = grantor \<and> s = symbol a then amount a else 0)" for s v
    using adj(1) [of s] adj(2) [of v s] neg by (auto simp: t(2) held_def spendable_def)
  have circ: "circulating c' s = circulating c s" for s
    using hs lock fr by (auto simp: circulating_def escrowed_def t(2))
  have "supply_ok L c'"
    by (rule supply_ok_keep [of L c]) (use ok adj(1) neg fr circ in \<open>auto simp: grants_ok_def t(2) balances_ok_def\<close>)
  moreover have "\<forall>p\<in>set (rows t). opportunity_ok (snd p)"
    using e ok f a by (auto simp: grants_ok_def opportunity_ok_def)
  ultimately have "grants_ok L c'"
    using ok cb.wf_emplace [OF symp_grant_key wf t(1) [unfolded fr(11)]] fr by (auto simp: grants_ok_def t(2))
  then show ?thesis
    using e hs circ fr by (auto simp: paid_in_def t(2) intro!: exI [of _ c1])
qed

lemma create_supply_law:
  assumes cr: "create_discipline_supply L grantor a st en target ext hash info c = Inr c'" and ok: "grants_ok L c"
    and a: "int64 (amount a)"
  shows "paid_in L grantor a c c' \<and> grants c' = grants c"
proof -
  have bo: "balances_ok L c" "safe_ok L" and wf: "wf_index no_key (discipline_supplies c)"
    using ok by (auto simp: grants_ok_def supply_ok_def balances_ok_def)
  obtain na c1 i t d where na: "asset_uminus L a = Inr na" and c1: "adjust_account_balance L grantor na c = Inr c1"
    and t: "emplace no_key d (discipline_supplies c1) = Inr (i, t)" "c' = c1\<lparr>discipline_supplies := t\<rparr>"
    and d: "ds_balance d = a"
    using cr by (auto simp: create_discipline_supply_def Let_def ok_iff split: prod.splits)
  note neg = uminus_D [OF na bo(2) a(1)]
  then have i: "int64 (amount na)"
    by blast
  note adj = lg.adjust_law [OF bo(1) i c1] lg.adjust_spendable [OF bo(1) i c1]
  have "but_balances c1 = but_balances c"
    using adj(1) by blast
  note fr = but_balances_fields [OF this]
  note e = cb.emplace_law [OF wf t(1) [unfolded fr(12)]]
  have hs: "held c' s = held c s - (if s = symbol a then amount a else 0)"
    "spendable c' v s = spendable c v s - (if v = grantor \<and> s = symbol a then amount a else 0)" for s v
    using adj(1) [of s] adj(2) [of v s] neg by (auto simp: t(2) held_def spendable_def)
  have circ: "circulating c' s = circulating c s" for s
    using hs(1) [of s] e fr d by (auto simp: circulating_def escrowed_def locked_def t(2))
  have "supply_ok L c'"
    by (rule supply_ok_keep [of L c]) (use ok adj(1) neg fr circ in \<open>auto simp: grants_ok_def t(2) balances_ok_def\<close>)
  then have "grants_ok L c'"
    using ok cb.wf_emplace [OF symp_keys(5) wf t(1) [unfolded fr(12)]] fr by (auto simp: grants_ok_def t(2))
  then show ?thesis
    using hs circ fr by (auto simp: paid_in_def t(2))
qed

lemma create_grant_law:
  assumes ap: "create_grant_apply L op c = Inr c'" and v: "create_grant_validate L op = Inr ()"
    and ok: "grants_ok L c" and a: "int64 (amount (cg_amount op))"
  shows "0 < amount (cg_amount op) \<and> paid_in L (cg_grantor op) (cg_amount op) c c' \<and>
    (\<forall>f. cg_distribution_model op = opportunity_announcement f \<longrightarrow>
      (\<exists>i g. rows (grants c') = rows (grants c) @ [(i, g)] \<and> fo_number g = cg_external_id op \<and>
         fo_current_supply g = cg_amount op \<and> fo_grantor g = cg_grantor op \<and>
         fo_officers g = fc_officers f \<and> cg_grantor op \<in> set (fo_officers g) \<and>
         (\<forall>w\<in>set (fo_officers g). is_research_group_member w (fo_organization_id g) c)))"
proof -
  have pos: "0 < amount (cg_amount op)"
    using v by (auto simp: create_grant_validate_def ok_iff dest: asset_gt_zero_D)
  obtain targets where d: "distribute_grant L (cg_distribution_model op) op targets c = Inr c'"
    using ap by (auto simp: create_grant_apply_def ok_iff split: prod.splits)
  note law = create_opportunity_law [OF _ ok a less_imp_le [OF pos]]
  show ?thesis
  proof (cases "cg_distribution_model op")
    case (application_window w)
    then obtain f where f: "create_opportunity L (cg_grantor op) (cg_amount op) f c = Inr c'"
      "\<And>c1. fo_current_supply (f c1) = cg_amount op" "\<And>c1. fo_amount (f c1) = cg_amount op"
      using d by (auto simp: create_grant_with_eci_evaluation_distribution_def ok_iff split: prod.splits)
    then show ?thesis
      using law [OF f] pos application_window by simp
  next
    case (opportunity_announcement k)
    then obtain f oi where f: "create_opportunity L (cg_grantor op) (cg_amount op) f c = Inr c'"
      "\<And>c1. fo_current_supply (f c1) = cg_amount op" "\<And>c1. fo_amount (f c1) = cg_amount op"
      and g: "\<And>c1. fo_number (f c1) = cg_external_id op" "\<And>c1. fo_grantor (f c1) = cg_grantor op"
        "\<And>c1. fo_officers (f c1) = fc_officers k" "\<And>c1. fo_organization_id (f c1) = oi"
      and m: "check_officers (fc_officers k) oi c = Inr ()"
      using d by (auto simp: create_grant_with_officer_evaluation_distribution_def ok_iff split: prod.splits)
    have member: "is_research_group_member w oi c" if "w \<in> set (fc_officers k)" for w
    proof -
      have "foldE (\<lambda>officer _. require (is_research_group_member officer oi c) Bad_member (Inr ())) ws () = Inr () \<Longrightarrow>
          w \<in> set ws \<Longrightarrow> is_research_group_member w oi c" for ws
        by (induction ws) (auto simp: ok_iff)
      then show ?thesis
        using m that by (simp add: check_officers_def)
    qed
    have "cg_grantor op \<in> set (fc_officers k)"
      using v opportunity_announcement by (auto simp: create_grant_validate_def ok_iff)
    then show ?thesis
      using law [OF f] pos opportunity_announcement f(2) g member by auto
  next
    case (supply_announcement s)
    then show ?thesis
      using d create_supply_law [OF _ ok a] pos by auto
  qed
qed

section \<open>Properties\<close>

text \<open>
  C27. An accepted grant, whatever its distribution model, takes exactly its amount from what
  the grantor can spend and locks it in the contract: nobody else's money moves and supplies
  still account for every token. An announced opportunity is recorded with its whole amount to
  award, the grantor is one of its officers, and every officer is a member of the organization.
\<close>

theorem grant_locks_its_amount:
  assumes "grants_ok L c" "create_grant_validate L op = Inr ()" "int64 (amount (cg_amount op))"
    and "create_grant_apply L op c = Inr c'"
  shows "grants_ok L c' \<and> 0 < amount (cg_amount op) \<and> (\<forall>s. circulating c' s = circulating c s) \<and>
    (\<forall>v s. spendable c' v s = spendable c v s -
       (if v = cg_grantor op \<and> s = symbol (cg_amount op) then amount (cg_amount op) else 0)) \<and>
    (\<forall>f. cg_distribution_model op = opportunity_announcement f \<longrightarrow>
      (\<exists>i g. rows (grants c') = rows (grants c) @ [(i, g)] \<and> fo_number g = cg_external_id op \<and>
         fo_current_supply g = cg_amount op \<and> fo_grantor g = cg_grantor op \<and>
         fo_officers g = fc_officers f \<and> cg_grantor op \<in> set (fo_officers g) \<and>
         (\<forall>w\<in>set (fo_officers g). is_research_group_member w (fo_organization_id g) c)))"
  using create_grant_law [OF assms(4,2,1,3)] unfolding paid_in_def by blast

definition group_account :: string where
  "group_account = replicate 40 CHR ''1''"

definition demo_announcement :: funding_opportunity_announcement_contract where
  "demo_announcement = \<lparr>fc_organization_id = group_account, fc_review_committee_id = group_account,
     fc_treasury_id = group_account, fc_award_ceiling = \<lparr>amount = 25, symbol = TOK\<rparr>,
     fc_award_floor = \<lparr>amount = 1, symbol = TOK\<rparr>, fc_expected_number_of_awards = 1, fc_open_date = 100,
     fc_close_date = 200, fc_officers = [''alice''], fc_additional_info = []\<rparr>"

definition demo_grant :: create_grant_operation where
  "demo_grant = \<lparr>cg_external_id = ''grant'', cg_grantor = ''alice'', cg_amount = \<lparr>amount = 30, symbol = TOK\<rparr>,
     cg_target_disciplines = [''math''], cg_distribution_model = opportunity_announcement demo_announcement\<rparr>"

definition grant_chain :: chain where
  "grant_chain = demo_chain\<lparr>
     research_groups := table [demo_group group_account ''alice''],
     group_tokens := table [\<lparr>rgt_research_group_id = 0, rgt_amount = 10000, rgt_owner = ''alice''\<rparr>],
     disciplines := table [\<lparr>di_parent_id = 0, di_external_id = ''math'', di_parent_external_id = [], di_name = ''Math''\<rparr>]\<rparr>"

lemma group_account_hex: "validate_160_bits_hexadecimal_string group_account = Inr ()"
  by (simp add: validate_160_bits_hexadecimal_string_def validate_hex_def group_account_def isxdigit_def isdigit_def
      list_all_iff)

lemma grant_chain_ok: "grants_ok fc_ref grant_chain"
proof -
  have "supply_ok fc_ref grant_chain"
    by (rule supply_ok_keep [OF demo_supply_ok])
      (use demo_supply_ok in \<open>auto simp: grant_chain_def supply_ok_def balances_ok_def circulating_def held_def
         escrowed_def locked_def\<close>)
  moreover have "grants grant_chain = empty_index" "discipline_supplies grant_chain = empty_index"
    by (simp_all add: grant_chain_def demo_chain_def empty_chain_def)
  ultimately show ?thesis
    by (simp add: grants_ok_def) (simp add: empty_index_def)
qed

lemma demo_grant_valid: "create_grant_validate fc_ref demo_grant = Inr ()"
  by (simp add: create_grant_validate_def demo_grant_def demo_announcement_def validate_account_name_def asset_gt_def
      asset_le_def asset_less_def group_account_hex validate_info_def)

lemmas eval_grant = create_grant_apply_def get_discipline_def check_officers_def is_research_group_member_def
  find_member_def research_group_exists_def get_research_group_by_account_def
  create_grant_with_officer_evaluation_distribution_def create_opportunity_def set_grants_def grant_key_def

lemma grant_locks_its_amount_witness:
  "\<exists>c'. create_grant_apply fc_ref demo_grant grant_chain = Inr c' \<and> grants_ok fc_ref c' \<and>
     spendable c' ''alice'' TOK = 10"
proof -
  have "\<exists>c'. create_grant_apply fc_ref demo_grant grant_chain = Inr c'"
    by (simp add: eval_grant eval_store grant_chain_def demo_defs demo_grant_def demo_announcement_def)
  then obtain c' where c': "create_grant_apply fc_ref demo_grant grant_chain = Inr c'" ..
  have "int64 (amount (cg_amount demo_grant))" "spendable grant_chain ''alice'' TOK = 40"
    by (simp_all add: demo_grant_def int64_iff spendable_def spend_def grant_chain_def demo_defs)
  then show ?thesis
    using grant_locks_its_amount [OF grant_chain_ok demo_grant_valid _ c'] c' by (auto simp: demo_grant_def)
qed

text \<open>
  No grant that distributes through an application window can ever be created: its
  validation demands that the window closes before it opens, its evaluation that it opens
  before it closes.
\<close>

theorem application_window_impossible:
  assumes "cg_distribution_model op = application_window w" "create_grant_validate L op = Inr ()"
  shows "\<not> succeeds (create_grant_apply L op c)"
proof
  assume "succeeds (create_grant_apply L op c)"
  then obtain c' targets where "distribute_grant L (application_window w) op targets c = Inr c'"
    using assms(1) by (auto simp: create_grant_apply_def succeeds_iff ok_iff split: prod.splits)
  then have "wc_open_date w < wc_close_date w"
    by (simp add: ok_iff)
  moreover have "wc_close_date w < wc_open_date w"
    using assms by (auto simp: create_grant_validate_def ok_iff)
  ultimately show False
    by simp
qed

definition window_grant :: create_grant_operation where
  "window_grant = demo_grant\<lparr>cg_distribution_model := application_window \<lparr>wc_review_committee_id = group_account,
     wc_min_number_of_positive_reviews = 0, wc_min_number_of_applications = 1, wc_max_number_of_research_to_grant = 1,
     wc_open_date = 200, wc_close_date = 100, wc_additional_info = []\<rparr>\<rparr>"

lemma application_window_impossible_witness:
  "create_grant_validate fc_ref window_grant = Inr () \<and> \<not> succeeds (create_grant_apply fc_ref window_grant grant_chain)"
proof -
  have v: "create_grant_validate fc_ref window_grant = Inr ()"
    by (simp add: create_grant_validate_def window_grant_def demo_grant_def validate_account_name_def asset_gt_def
        asset_le_def asset_less_def group_account_hex)
  have "cg_distribution_model window_grant = application_window \<lparr>wc_review_committee_id = group_account,
     wc_min_number_of_positive_reviews = 0, wc_min_number_of_applications = 1, wc_max_number_of_research_to_grant = 1,
     wc_open_date = 200, wc_close_date = 100, wc_additional_info = []\<rparr>"
    by (simp add: window_grant_def)
  from application_window_impossible [OF this v] v show ?thesis
    by blast
qed

end
