(* ===== verification/Awards.thy ===== *)
theory Awards
  imports Grants
begin

text \<open>
  Awards out of a funding opportunity: the service \<open>libraries/chain/services/dbs_award.cpp\<close> and
  the operations that create, approve and reject an award and that request, certify, approve,
  reject and pay a withdrawal of it (validators in \<open>libraries/protocol/operations/\<close>, evaluators
  in \<open>libraries/chain/deip_evaluator.cpp\<close>).
\<close>

section \<open>The service\<close>

definition set_awards :: "award_object generic_index result \<Rightarrow> chain \<Rightarrow> chain result" where
  "set_awards r c = bindE r (\<lambda>t. Inr (c\<lparr>awards := t\<rparr>))"

definition set_award_recipients :: "award_recipient_object generic_index result \<Rightarrow> chain \<Rightarrow> chain result" where
  "set_award_recipients r c = bindE r (\<lambda>t. Inr (c\<lparr>award_recipients := t\<rparr>))"

definition set_award_withdrawals :: "award_withdrawal_request_object generic_index result \<Rightarrow> chain \<Rightarrow> chain result" where
  "set_award_withdrawals r c = bindE r (\<lambda>t. Inr (c\<lparr>award_withdrawals := t\<rparr>))"

definition create_award :: "string \<Rightarrow> string \<Rightarrow> string \<Rightarrow> asset \<Rightarrow> nat \<Rightarrow> string \<Rightarrow> percent \<Rightarrow> string \<Rightarrow> award_status \<Rightarrow> chain \<Rightarrow> chain result" where
  "create_award opportunity number awardee a university_id university overhead creator st c =
     set_awards (bindE (emplace award_key
       \<lparr>aw_funding_opportunity_number = opportunity, aw_award_number = number, aw_awardee = awardee,
        aw_university_id = university_id, aw_university_external_id = university, aw_university_overhead = overhead,
        aw_creator = creator, aw_status = st, aw_amount = a\<rparr> (awards c)) (\<lambda>(i, t). Inr t)) c"

definition get_award_by_id :: "nat \<Rightarrow> chain \<Rightarrow> award_object result" where
  "get_award_by_id i c = the_or (Assert Not_found) (lookup (awards c) i)"

definition find_award :: "string \<Rightarrow> chain \<Rightarrow> (nat \<times> award_object) option" where
  "find_award number c = find_row (\<lambda>a. aw_award_number a = number) (awards c)"

definition get_award :: "string \<Rightarrow> chain \<Rightarrow> (nat \<times> award_object) result" where
  "get_award number c = the_or (Assert Not_found) (find_award number c)"

definition get_award_by_id_if_exists :: "nat \<Rightarrow> chain \<Rightarrow> award_object option" where
  "get_award_by_id_if_exists i c = lookup (awards c) i"

definition get_awards_by_funding_opportunity :: "string \<Rightarrow> chain \<Rightarrow> (nat \<times> award_object) list" where
  "get_awards_by_funding_opportunity number c =
     filter (\<lambda>p. aw_funding_opportunity_number (snd p) = number) (rows (awards c))"

definition award_exists_by_id :: "nat \<Rightarrow> chain \<Rightarrow> bool" where
  "award_exists_by_id i c = (lookup (awards c) i \<noteq> None)"

definition award_exists :: "string \<Rightarrow> chain \<Rightarrow> bool" where
  "award_exists number c = (find_award number c \<noteq> None)"

definition update_award_status :: "nat \<Rightarrow> award_status \<Rightarrow> chain \<Rightarrow> chain result" where
  "update_award_status i st c = set_awards (modify award_key i (\<lambda>a. a\<lparr>aw_status := st\<rparr>) (awards c)) c"

definition create_award_recipient ::
  "string \<Rightarrow> string \<Rightarrow> string \<Rightarrow> string \<Rightarrow> string \<Rightarrow> asset \<Rightarrow> nat \<Rightarrow> string \<Rightarrow> award_recipient_status \<Rightarrow> chain \<Rightarrow> chain result" where
  "create_award_recipient number subaward opportunity awardee source whole research_id research st c =
     set_award_recipients (bindE (emplace award_recipient_key
       \<lparr>ar_funding_opportunity_number = opportunity, ar_award_number = number, ar_subaward_number = subaward,
        ar_research_id = research_id, ar_research_external_id = research, ar_awardee = awardee, ar_source = source,
        ar_total_amount = whole, ar_total_expenses = \<lparr>amount = 0, symbol = symbol whole\<rparr>, ar_status = st\<rparr>
       (award_recipients c)) (\<lambda>(i, t). Inr t)) c"

definition get_award_recipient_by_id :: "nat \<Rightarrow> chain \<Rightarrow> award_recipient_object result" where
  "get_award_recipient_by_id i c = the_or (Assert Not_found) (lookup (award_recipients c) i)"

definition get_award_recipient_if_exists :: "nat \<Rightarrow> chain \<Rightarrow> award_recipient_object option" where
  "get_award_recipient_if_exists i c = lookup (award_recipients c) i"

definition get_award_recipients_by_funding_opportunity :: "string \<Rightarrow> chain \<Rightarrow> (nat \<times> award_recipient_object) list" where
  "get_award_recipients_by_funding_opportunity number c =
     filter (\<lambda>p. ar_funding_opportunity_number (snd p) = number) (rows (award_recipients c))"

definition get_award_recipients_by_award :: "string \<Rightarrow> chain \<Rightarrow> (nat \<times> award_recipient_object) list" where
  "get_award_recipients_by_award number c =
     filter (\<lambda>p. ar_award_number (snd p) = number) (rows (award_recipients c))"

definition get_award_recipients_by_account :: "string \<Rightarrow> chain \<Rightarrow> (nat \<times> award_recipient_object) list" where
  "get_award_recipients_by_account awardee c =
     filter (\<lambda>p. ar_awardee (snd p) = awardee) (rows (award_recipients c))"

definition award_recipient_exists_by_id :: "nat \<Rightarrow> chain \<Rightarrow> bool" where
  "award_recipient_exists_by_id i c = (lookup (award_recipients c) i \<noteq> None)"

definition adjust_expenses :: "fc_lib \<Rightarrow> nat \<Rightarrow> asset \<Rightarrow> chain \<Rightarrow> chain result" where
  "adjust_expenses L i delta c =
     bindE (get_award_recipient_by_id i c) (\<lambda>r.
     bindE (asset_plus L (ar_total_expenses r) delta) (\<lambda>e.
       set_award_recipients
         (modify award_recipient_key i (\<lambda>r. r\<lparr>ar_total_expenses := e\<rparr>) (award_recipients c)) c))"

definition find_award_recipient :: "string \<Rightarrow> string \<Rightarrow> chain \<Rightarrow> (nat \<times> award_recipient_object) option" where
  "find_award_recipient number subaward c =
     find_row (\<lambda>r. ar_award_number r = number \<and> ar_subaward_number r = subaward) (award_recipients c)"

definition award_recipient_exists :: "string \<Rightarrow> string \<Rightarrow> chain \<Rightarrow> bool" where
  "award_recipient_exists number subaward c = (find_award_recipient number subaward c \<noteq> None)"

definition get_award_recipient :: "string \<Rightarrow> string \<Rightarrow> chain \<Rightarrow> (nat \<times> award_recipient_object) result" where
  "get_award_recipient number subaward c = the_or (Assert Not_found) (find_award_recipient number subaward c)"

definition update_award_recipient_status :: "nat \<Rightarrow> award_recipient_status \<Rightarrow> chain \<Rightarrow> chain result" where
  "update_award_recipient_status i st c =
     set_award_recipients (modify award_recipient_key i (\<lambda>r. r\<lparr>ar_status := st\<rparr>) (award_recipients c)) c"

definition create_award_withdrawal_request ::
  "string \<Rightarrow> string \<Rightarrow> string \<Rightarrow> string \<Rightarrow> asset \<Rightarrow> string \<Rightarrow> int \<Rightarrow> string \<Rightarrow> chain \<Rightarrow> chain result" where
  "create_award_withdrawal_request payment number subaward requester a descr time attachment c =
     set_award_withdrawals (bindE (emplace withdrawal_key
       \<lparr>wr_payment_number = payment, wr_award_number = number, wr_subaward_number = subaward, wr_requester = requester,
        wr_amount = a, wr_status = withdrawal_pending, wr_time = time, wr_description = descr,
        wr_attachment = attachment\<rparr> (award_withdrawals c)) (\<lambda>(i, t). Inr t)) c"

definition find_withdrawal :: "string \<Rightarrow> string \<Rightarrow> chain \<Rightarrow> (nat \<times> award_withdrawal_request_object) option" where
  "find_withdrawal number payment c =
     find_row (\<lambda>w. wr_award_number w = number \<and> wr_payment_number w = payment) (award_withdrawals c)"

definition award_withdrawal_request_exists :: "string \<Rightarrow> string \<Rightarrow> chain \<Rightarrow> bool" where
  "award_withdrawal_request_exists number payment c = (find_withdrawal number payment c \<noteq> None)"

definition get_award_withdrawal_request :: "string \<Rightarrow> string \<Rightarrow> chain \<Rightarrow> (nat \<times> award_withdrawal_request_object) result" where
  "get_award_withdrawal_request number payment c = the_or (Assert Not_found) (find_withdrawal number payment c)"

definition update_award_withdrawal_request :: "nat \<Rightarrow> withdrawal_status \<Rightarrow> chain \<Rightarrow> chain result" where
  "update_award_withdrawal_request i st c =
     set_award_withdrawals (modify withdrawal_key i (\<lambda>w. w\<lparr>wr_status := st\<rparr>) (award_withdrawals c)) c"

definition get_withdrawals_by_award_and_status :: "string \<Rightarrow> withdrawal_status \<Rightarrow> chain \<Rightarrow> (nat \<times> award_withdrawal_request_object) list" where
  "get_withdrawals_by_award_and_status number st c =
     filter (\<lambda>p. wr_award_number (snd p) = number \<and> wr_status (snd p) = st) (rows (award_withdrawals c))"

definition get_withdrawals_by_award :: "string \<Rightarrow> chain \<Rightarrow> (nat \<times> award_withdrawal_request_object) list" where
  "get_withdrawals_by_award number c = filter (\<lambda>p. wr_award_number (snd p) = number) (rows (award_withdrawals c))"

definition get_withdrawals_by_award_and_subaward :: "string \<Rightarrow> string \<Rightarrow> chain \<Rightarrow> (nat \<times> award_withdrawal_request_object) list" where
  "get_withdrawals_by_award_and_subaward number subaward c =
     filter (\<lambda>p. wr_award_number (snd p) = number \<and> wr_subaward_number (snd p) = subaward) (rows (award_withdrawals c))"

section \<open>Creating an award\<close>

record subawardee =
  sa_subaward_number :: string
  sa_subaward :: asset
  sa_subawardee :: string
  sa_source :: string
  sa_research_external_id :: string

record create_award_operation =
  cr_award_number :: string
  cr_funding_opportunity_number :: string
  cr_award :: asset
  cr_awardee :: string
  cr_research_external_id :: string
  cr_university_external_id :: string
  cr_university_overhead :: percent
  cr_subawardees :: "subawardee list"
  cr_creator :: string

text \<open>What an account passes on: \<open>std::accumulate\<close> over the subawards it is the source of.\<close>

fun subawards_from :: "fc_lib \<Rightarrow> string \<Rightarrow> subawardee list \<Rightarrow> asset \<Rightarrow> asset result" where
  "subawards_from L source [] acc = Inr acc"
| "subawards_from L source (s # ss) acc =
     (if sa_source s = source
      then bindE (asset_plus L acc (sa_subaward s)) (subawards_from L source ss)
      else subawards_from L source ss acc)"

definition university_fee :: "fc_lib \<Rightarrow> asset \<Rightarrow> percent \<Rightarrow> asset result" where
  "university_fee L a overhead =
     bindE (mul L (amount a) (pc_amount overhead)) (\<lambda>m.
     bindE (sdivide L m DEIP_100_PERCENT) (\<lambda>f. Inr \<lparr>amount = f, symbol = symbol a\<rparr>))"

definition validate_subaward :: "fc_lib \<Rightarrow> subawardee list \<Rightarrow> string \<Rightarrow> asset \<Rightarrow> subawardee \<Rightarrow> unit result" where
  "validate_subaward L subawardees awardee award s =
     bindE (validate_account_name (sa_subawardee s)) (\<lambda>_.
     require (amount (sa_subaward s) > 0) Bad_amount
    (require (symbol (sa_subaward s) = symbol award) Wrong_symbol
    (require (length (filter (\<lambda>t. sa_subawardee s = sa_subawardee t) subawardees) = 1) Bad_member
    (require (list_all (\<lambda>t. \<not> (sa_source s = sa_subawardee t \<and> sa_source t = sa_subawardee s)) subawardees) Bad_link
      (if sa_source s \<noteq> awardee then
         require (list_ex (\<lambda>t. sa_source s = sa_subawardee t) subawardees) Bad_link
          (bindE (subawards_from L (sa_subawardee s) subawardees \<lparr>amount = 0, symbol = symbol award\<rparr>) (\<lambda>next.
           bindE (asset_gt (sa_subaward s) next) (\<lambda>gt. require gt Bad_amount (Inr ()))))
       else Inr ())))))"

definition validate_awardees :: "fc_lib \<Rightarrow> subawardee list \<Rightarrow> string \<Rightarrow> asset \<Rightarrow> percent \<Rightarrow> unit result" where
  "validate_awardees L subawardees awardee award overhead =
     bindE (subawards_from L awardee subawardees \<lparr>amount = 0, symbol = symbol award\<rparr>) (\<lambda>top.
     bindE (university_fee L award overhead) (\<lambda>fee.
     bindE (asset_plus L top fee) (\<lambda>used.
     bindE (asset_gt award used) (\<lambda>gt.
     require gt Bad_amount
    (require (\<not> list_ex (\<lambda>s. sa_subawardee s = awardee) subawardees) Bad_member
    (require (length subawardees \<noteq> 0 \<longrightarrow> list_ex (\<lambda>s. sa_source s = awardee) subawardees) Bad_link
      (foldE (\<lambda>s _. validate_subaward L subawardees awardee award s) subawardees ())))))))"

definition create_award_validate :: "fc_lib \<Rightarrow> create_award_operation \<Rightarrow> unit result" where
  "create_award_validate L op =
     bindE (validate_account_name (cr_creator op)) (\<lambda>_.
     bindE (validate_account_name (cr_awardee op)) (\<lambda>_.
     require (amount (cr_award op) > 0) Bad_amount
      (bindE (validate_160_bits_hexadecimal_string (cr_research_external_id op)) (\<lambda>_.
       bindE (validate_160_bits_hexadecimal_string (cr_university_external_id op)) (\<lambda>_.
       bindE (percent_ge (cr_university_overhead op) \<lparr>pc_amount = 0, pc_decimals = DEIP_PERCENT_DECIMALS\<rparr>) (\<lambda>ge.
       bindE (if ge then percent_le (cr_university_overhead op)
                            \<lparr>pc_amount = DEIP_1_PERCENT * 50, pc_decimals = DEIP_PERCENT_DECIMALS\<rparr>
              else Inr False) (\<lambda>inrange.
       require inrange Bad_share
        (validate_awardees L (cr_subawardees op) (cr_awardee op) (cr_award op) (cr_university_overhead op)))))))))"

text \<open>The \<open>std::map\<close> of what each account keeps.\<close>

fun fill_awards_map :: "fc_lib \<Rightarrow> subawardee list \<Rightarrow> 64 word \<Rightarrow> subawardee list \<Rightarrow> (string \<rightharpoonup> asset) \<Rightarrow> (string \<rightharpoonup> asset) result" where
  "fill_awards_map L subawardees sm [] m = Inr m"
| "fill_awards_map L subawardees sm (s # ss) m =
     bindE (subawards_from L (sa_subawardee s) subawardees \<lparr>amount = 0, symbol = sm\<rparr>) (\<lambda>next.
     bindE (asset_minus L (sa_subaward s) next) (\<lambda>rest.
       fill_awards_map L subawardees sm ss (m(sa_subawardee s \<mapsto> rest))))"

definition map_get :: "(string \<rightharpoonup> asset) \<Rightarrow> string \<Rightarrow> asset" where
  "map_get m k = (case m k of Some a \<Rightarrow> a | None \<Rightarrow> \<lparr>amount = 0, symbol = DEIP_SYMBOL\<rparr>)"

definition split_award :: "fc_lib \<Rightarrow> create_award_operation \<Rightarrow> (string \<rightharpoonup> asset) result" where
  "split_award L op =
     bindE (university_fee L (cr_award op) (cr_university_overhead op)) (\<lambda>fee.
     bindE (subawards_from L (cr_awardee op) (cr_subawardees op) \<lparr>amount = 0, symbol = symbol (cr_award op)\<rparr>) (\<lambda>top.
     bindE (asset_minus L (cr_award op) fee) (\<lambda>d1.
     bindE (asset_minus L d1 top) (\<lambda>d2.
       fill_awards_map L (cr_subawardees op) (symbol (cr_award op)) (cr_subawardees op) [cr_awardee op \<mapsto> d2]))))"

definition create_subaward ::
  "create_award_operation \<Rightarrow> (string \<rightharpoonup> asset) \<Rightarrow> subawardee \<Rightarrow> chain \<Rightarrow> chain result" where
  "create_subaward op m s c =
     require (account_exists (sa_subawardee s) c) Not_found
    (require (research_exists (sa_research_external_id s) c) Not_found
      (bindE (get_research (sa_research_external_id s) c) (\<lambda>(rid, research).
       require (is_research_group_member (sa_subawardee s) (rs_research_group_id research) c) Bad_member
        (create_award_recipient (cr_award_number op) (sa_subaward_number s) (cr_funding_opportunity_number op)
           (sa_subawardee s) (sa_source s) (map_get m (sa_subawardee s)) rid (rs_external_id research)
           recipient_unconfirmed c))))"

definition create_award_apply :: "fc_lib \<Rightarrow> create_award_operation \<Rightarrow> chain \<Rightarrow> chain result" where
  "create_award_apply L op c =
     require (account_exists (cr_creator op) c) Not_found
    (require (account_exists (cr_awardee op) c) Not_found
    (require (research_exists (cr_research_external_id op) c) Not_found
    (require (research_group_exists (cr_university_external_id op) c) Not_found
    (require (funding_opportunity_exists (cr_funding_opportunity_number op) c) Not_found
      (bindE (get_funding_opportunity (cr_funding_opportunity_number op) c) (\<lambda>(fi, foa).
       require (symbol (cr_award op) = symbol (fo_amount foa)) Wrong_symbol
        (bindE (asset_ge (fo_current_supply foa) (cr_award op)) (\<lambda>ge.
         require ge Insufficient_funds
          (bindE (get_research_group (fo_organization_id foa) c) (\<lambda>organization.
           require (is_research_group_member (cr_creator op) (fo_organization_id foa) c) Bad_member
          (require (cr_university_external_id op \<noteq> rg_account organization) Bad_member
          (require (symbol (cr_award op) = symbol (fo_amount foa)) Wrong_symbol
          (require (account_balance_exists (cr_creator op) (symbol (cr_award op)) c) Not_found
            (bindE (get_research_group_by_account (cr_university_external_id op) c) (\<lambda>(ui, university).
             bindE (get_research (cr_research_external_id op) c) (\<lambda>(rid, research).
             bindE (split_award L op) (\<lambda>m.
             bindE (create_award (cr_funding_opportunity_number op) (cr_award_number op) (cr_awardee op) (cr_award op)
                      ui (rg_account university) (cr_university_overhead op) (cr_creator op) award_pending c) (\<lambda>c1.
             bindE (create_award_recipient (cr_award_number op) (cr_award_number op) (cr_funding_opportunity_number op)
                      (cr_awardee op) [] (map_get m (cr_awardee op)) rid (rs_external_id research)
                      recipient_unconfirmed c1) (foldE (create_subaward op m) (cr_subawardees op))))))))))))))))))))"

section \<open>Approving and rejecting\<close>

record approve_award_operation =
  aa_award_number :: string
  aa_approver :: string

definition approve_award_validate :: "approve_award_operation \<Rightarrow> unit result" where
  "approve_award_validate op = validate_account_name (aa_approver op)"

definition pay_recipient :: "fc_lib \<Rightarrow> nat \<times> award_recipient_object \<Rightarrow> chain \<Rightarrow> chain result" where
  "pay_recipient L p c =
     bindE (adjust_account_balance L (ar_awardee (snd p)) (ar_total_amount (snd p)) c)
       (update_award_recipient_status (fst p) recipient_confirmed)"

definition approve_award_apply :: "fc_lib \<Rightarrow> approve_award_operation \<Rightarrow> chain \<Rightarrow> chain result" where
  "approve_award_apply L op c =
     require (account_exists (aa_approver op) c) Not_found
    (require (award_exists (aa_award_number op) c) Not_found
      (bindE (get_award (aa_award_number op) c) (\<lambda>(ai, award).
       bindE (get_funding_opportunity (aw_funding_opportunity_number award) c) (\<lambda>(fi, foa).
       require (aa_approver op \<in> set (fo_officers foa)) Not_authorized
      (require (aw_status award = award_pending) Bad_status
        (bindE (get_research_group (aw_university_id award) c) (\<lambda>university.
         bindE (university_fee L (aw_amount award) (aw_university_overhead award)) (\<lambda>fee.
         bindE (adjust_account_balance L (rg_creator university) fee c) (\<lambda>c1.
         bindE (foldE (pay_recipient L) (get_award_recipients_by_award (aa_award_number op) c1) c1) (\<lambda>c2.
         bindE (asset_uminus L (aw_amount award)) (\<lambda>na.
         bindE (adjust_funding_opportunity_supply L fi na c2)
           (update_award_status ai award_approved))))))))))))"

record reject_award_operation =
  rj_award_number :: string
  rj_rejector :: string

definition reject_award_validate :: "reject_award_operation \<Rightarrow> unit result" where
  "reject_award_validate op = validate_account_name (rj_rejector op)"

definition reject_award_apply :: "reject_award_operation \<Rightarrow> chain \<Rightarrow> chain result" where
  "reject_award_apply op c =
     require (account_exists (rj_rejector op) c) Not_found
    (require (award_exists (rj_award_number op) c) Not_found
      (bindE (get_award (rj_award_number op) c) (\<lambda>(ai, award).
       bindE (get_funding_opportunity (aw_funding_opportunity_number award) c) (\<lambda>(fi, foa).
       require (rj_rejector op \<in> set (fo_officers foa)) Not_authorized
      (require (aw_status award = award_pending) Bad_status
        (bindE (foldE (\<lambda>p. update_award_recipient_status (fst p) recipient_canceled)
                  (get_award_recipients_by_award (rj_award_number op) c) c)
           (update_award_status ai award_rejected)))))))"

end
