(* ===== verification/Award_Split.thy ===== *)
theory Award_Split
  imports Awards
begin

text \<open>
  How an award is split: what each awardee keeps, and that the parts and the university's fee
  add up to the award.
\<close>

definition passed_on :: "string \<Rightarrow> subawardee list \<Rightarrow> int" where
  "passed_on k ss = sum_list (map (\<lambda>s. if sa_source s = k then amount (sa_subaward s) else 0) ss)"

lemma passed_on_simps [simp]:
  "passed_on k [] = 0"
  "passed_on k (s # ss) = (if sa_source s = k then amount (sa_subaward s) else 0) + passed_on k ss"
  by (simp_all add: passed_on_def)

text \<open>Every subaward has one source among the awardees, so it is passed on exactly once.\<close>

lemma sum_if_absent: "k \<notin> set ks \<Longrightarrow> sum_list (map (\<lambda>j. if k = j then a else (0::int)) ks) = 0"
  by (induction ks) auto

lemma sum_if_distinct: "distinct ks \<Longrightarrow> k \<in> set ks \<Longrightarrow> sum_list (map (\<lambda>j. if k = j then a else (0::int)) ks) = a"
  by (induction ks) (auto simp: sum_if_absent)

lemma passed_on_all:
  assumes "distinct ks" "\<forall>s\<in>set ss. sa_source s \<in> set ks"
  shows "sum_list (map (\<lambda>k. passed_on k ss) ks) = sum_list (map (\<lambda>s. amount (sa_subaward s)) ss)"
  using assms(2)
proof (induction ss)
  case Nil
  then show ?case by (simp add: sum_list_0)
next
  case (Cons s ss)
  then show ?case
    using sum_if_distinct [OF assms(1), of "sa_source s"] by (simp add: sum_list_addf)
qed

lemma subawards_from_D:
  assumes "subawards_from L k ss acc = Inr r" "safe_ok L" "\<forall>s\<in>set ss. int64 (amount (sa_subaward s))"
    and "int64 (amount acc)"
  shows "amount r = amount acc + passed_on k ss \<and> symbol r = symbol acc \<and> int64 (amount r)"
  using assms
proof (induction ss arbitrary: acc)
  case (Cons s ss)
  show ?case
  proof (cases "sa_source s = k")
    case True
    then obtain a where a: "asset_plus L acc (sa_subaward s) = Inr a" "subawards_from L k ss a = Inr r"
      using Cons.prems(1) by (auto simp: ok_iff)
    have "int64 (amount (sa_subaward s))"
      using Cons.prems(3) by simp
    note p = plus_D [OF a(1) Cons.prems(2,4) this]
    show ?thesis
      using Cons.IH [OF a(2) Cons.prems(2)] Cons.prems(3) p True by (auto simp: add.assoc)
  next
    case False
    then show ?thesis
      using Cons.IH [of acc] Cons.prems by auto
  qed
qed simp

lemma university_fee_D:
  assumes "university_fee L a p = Inr f" "safe_ok L" "int64 (amount a)" "0 \<le> amount a" "0 \<le> pc_amount p" "pc_amount p \<le> 5000"
  shows "amount f = amount a * pc_amount p div 10000 \<and> symbol f = symbol a \<and> 0 \<le> amount f \<and> amount f \<le> amount a \<and>
    int64 (amount f)"
proof -
  obtain m where m: "mul L (amount a) (pc_amount p) = Inr m" "sdivide L m DEIP_100_PERCENT = Inr (amount f)" "symbol f = symbol a"
    using assms(1) by (auto simp: university_fee_def ok_iff)
  have m': "m = amount a * pc_amount p" "int64 m"
    using mul_D [OF m(1) assms(2,3)] assms(5,6) by (auto simp: int64_iff)
  have v: "0 \<le> amount a * pc_amount p" "amount a * pc_amount p \<le> amount a * 10000"
    using assms(4-6) by (auto intro: mult_left_mono)
  then have "amount f = amount a * pc_amount p div 10000"
    using m(2) sdivide_ok [OF assms(2) m'(2)] m' by (simp add: DEIP_100_PERCENT_def int64_iff sdiv_nonneg)
  moreover from this have "0 \<le> amount f" "amount f \<le> amount a"
    using v zdiv_mono1 [of "amount a * pc_amount p" "amount a * 10000" 10000] by simp_all
  ultimately show ?thesis
    using m(3) assms(3) by (auto simp: int64_iff)
qed

text \<open>The map of what each account keeps.\<close>

lemma fill_awards_map_D:
  assumes "fill_awards_map L all sm ss m = Inr m'" "safe_ok L" "\<forall>s\<in>set all. int64 (amount (sa_subaward s))"
    and "set ss \<subseteq> set all" "distinct (map sa_subawardee ss)"
  shows "\<forall>s\<in>set ss. m' (sa_subawardee s) =
      Some \<lparr>amount = amount (sa_subaward s) - passed_on (sa_subawardee s) all, symbol = sm\<rparr> \<and>
      int64 (amount (sa_subaward s) - passed_on (sa_subawardee s) all)"
    and "\<forall>k. k \<notin> sa_subawardee ` set ss \<longrightarrow> m' k = m k"
proof -
  have "(\<forall>s\<in>set ss. m' (sa_subawardee s) =
      Some \<lparr>amount = amount (sa_subaward s) - passed_on (sa_subawardee s) all, symbol = sm\<rparr> \<and>
      int64 (amount (sa_subaward s) - passed_on (sa_subawardee s) all)) \<and>
    (\<forall>k. k \<notin> sa_subawardee ` set ss \<longrightarrow> m' k = m k)"
    using assms(1,4,5)
  proof (induction ss arbitrary: m)
    case (Cons s ss)
    obtain r a where r: "subawards_from L (sa_subawardee s) all \<lparr>amount = 0, symbol = sm\<rparr> = Inr r"
      "asset_minus L (sa_subaward s) r = Inr a"
      and rest: "fill_awards_map L all sm ss (m(sa_subawardee s \<mapsto> a)) = Inr m'"
      using Cons.prems(1) by (auto simp: ok_iff)
    have r': "amount r = passed_on (sa_subawardee s) all \<and> symbol r = sm \<and> int64 (amount r)"
      using subawards_from_D [OF r(1) assms(2,3)] by (simp add: int64_iff)
    have "int64 (amount (sa_subaward s))"
      using assms(3) Cons.prems(2) by auto
    note a = minus_D [OF r(2) assms(2) this]
    have a': "a = \<lparr>amount = amount (sa_subaward s) - passed_on (sa_subawardee s) all, symbol = sm\<rparr>"
      "int64 (amount (sa_subaward s) - passed_on (sa_subawardee s) all)"
      using a r' by auto
    note IH = Cons.IH [OF rest]
    show ?case
      using IH Cons.prems(2,3) a' by auto
  qed simp
  then show "\<forall>s\<in>set ss. m' (sa_subawardee s) =
      Some \<lparr>amount = amount (sa_subaward s) - passed_on (sa_subawardee s) all, symbol = sm\<rparr> \<and>
      int64 (amount (sa_subaward s) - passed_on (sa_subawardee s) all)"
    and "\<forall>k. k \<notin> sa_subawardee ` set ss \<longrightarrow> m' k = m k"
    by blast+
qed

text \<open>What validation guarantees about the subawards.\<close>

lemma filter_one: "length (filter P xs) = 1 \<Longrightarrow> x \<in> set xs \<Longrightarrow> y \<in> set xs \<Longrightarrow> P x \<Longrightarrow> P y \<Longrightarrow> x = y"
proof (induction xs)
  case (Cons z xs)
  have "w \<notin> set xs" if "P w" "P z" for w
    using Cons.prems(1) that by (auto simp: filter_empty_conv)
  then show ?case
    using Cons by (cases "P z") auto
qed simp

lemma distinct_subawardees:
  "\<forall>s\<in>set ss. length (filter (\<lambda>t. sa_subawardee s = sa_subawardee t) ss) = 1 \<Longrightarrow> distinct (map sa_subawardee ss)"
proof (induction ss)
  case (Cons s ss)
  have f: "filter (\<lambda>t. sa_subawardee s = sa_subawardee t) ss = []"
    using Cons.prems by simp
  have "length (filter (\<lambda>t. sa_subawardee r = sa_subawardee t) ss) = 1" if "r \<in> set ss" for r
  proof -
    have "sa_subawardee r \<noteq> sa_subawardee s"
      using f that by (auto simp: filter_empty_conv)
    then show ?thesis
      using Cons.prems that by auto
  qed
  then show ?case
    using Cons.IH f by (auto simp: filter_empty_conv)
qed simp

lemma validate_awardees_D:
  assumes "validate_awardees L ss awardee a p = Inr ()"
  shows "distinct (awardee # map sa_subawardee ss)"
    and "\<forall>s\<in>set ss. sa_source s \<in> set (awardee # map sa_subawardee ss) \<and> 0 < amount (sa_subaward s) \<and>
      symbol (sa_subaward s) = symbol a"
proof -
  have all: "foldE (\<lambda>s _. validate_subaward L ss awardee a s) rs () = Inr () \<Longrightarrow>
      \<forall>s\<in>set rs. validate_subaward L ss awardee a s = Inr ()" for rs
    by (induction rs) (auto simp: ok_iff)
  have v: "\<forall>s\<in>set ss. validate_subaward L ss awardee a s = Inr ()" "\<not> list_ex (\<lambda>s. sa_subawardee s = awardee) ss"
    using assms all [of ss] by (auto simp: validate_awardees_def ok_iff)
  have one: "\<forall>s\<in>set ss. length (filter (\<lambda>t. sa_subawardee s = sa_subawardee t) ss) = 1"
    using v(1) by (auto simp: validate_subaward_def ok_iff)
  show "distinct (awardee # map sa_subawardee ss)"
    using distinct_subawardees [OF one] v(2) by (auto simp: list_ex_iff)
  show "\<forall>s\<in>set ss. sa_source s \<in> set (awardee # map sa_subawardee ss) \<and> 0 < amount (sa_subaward s) \<and>
      symbol (sa_subaward s) = symbol a"
    using v(1) by (auto simp: validate_subaward_def ok_iff list_ex_iff split: if_splits)
qed

end
