(* ===== verification/Award_Invariant.thy ===== *)
theory Award_Invariant
  imports Award_Split
begin

text \<open>
  What the awards keep: a pending award is still split exactly among its recipients and the
  university, in the symbol of its funding opportunity, and every recipient record belongs to
  an award.
\<close>

lemma symp_award_keys [simp]: "symp award_key" "symp award_recipient_key" "symp withdrawal_key"
  by (auto simp: symp_def award_key_def award_recipient_key_def withdrawal_key_def)

definition award_fee :: "award_object \<Rightarrow> int" where
  "award_fee a = amount (aw_amount a) * pc_amount (aw_university_overhead a) div 10000"

definition in_award :: "string \<Rightarrow> award_recipient_object \<Rightarrow> int" where
  "in_award n r = (if ar_award_number r = n then amount (ar_total_amount r) else 0)"

definition award_total :: "string \<Rightarrow> chain \<Rightarrow> int" where
  "award_total n c = sum_rows (in_award n) (rows (award_recipients c))"

definition recipient_ok :: "award_recipient_object \<Rightarrow> bool" where
  "recipient_ok r \<longleftrightarrow> int64 (amount (ar_total_amount r)) \<and> symbol (ar_total_expenses r) = symbol (ar_total_amount r) \<and>
     0 \<le> amount (ar_total_expenses r) \<and> amount (ar_total_expenses r) \<le> max 0 (amount (ar_total_amount r))"

definition award_ok :: "chain \<Rightarrow> award_object \<Rightarrow> bool" where
  "award_ok c a \<longleftrightarrow> 0 < amount (aw_amount a) \<and> int64 (amount (aw_amount a)) \<and>
     0 \<le> pc_amount (aw_university_overhead a) \<and> pc_amount (aw_university_overhead a) \<le> 5000 \<and>
     (\<exists>p\<in>set (rows (grants c)). fo_number (snd p) = aw_funding_opportunity_number a \<and>
        symbol (fo_amount (snd p)) = symbol (aw_amount a)) \<and>
     (\<forall>p\<in>set (rows (award_recipients c)). ar_award_number (snd p) = aw_award_number a \<longrightarrow>
        symbol (ar_total_amount (snd p)) = symbol (aw_amount a)) \<and>
     award_total (aw_award_number a) c = amount (aw_amount a) - award_fee a"

definition awards_ok :: "fc_lib \<Rightarrow> chain \<Rightarrow> bool" where
  "awards_ok L c \<longleftrightarrow> grants_ok L c \<and> wf_index award_key (awards c) \<and>
     wf_index award_recipient_key (award_recipients c) \<and> wf_index withdrawal_key (award_withdrawals c) \<and>
     (\<forall>p\<in>set (rows (awards c)). award_ok c (snd p)) \<and>
     (\<forall>p\<in>set (rows (award_recipients c)). recipient_ok (snd p) \<and>
        (\<exists>q\<in>set (rows (awards c)). aw_award_number (snd q) = ar_award_number (snd p)))"

lemma award_total_none:
  assumes "\<forall>p\<in>set (rows (award_recipients c)). ar_award_number (snd p) \<noteq> n"
  shows "award_total n c = 0"
proof -
  have "\<forall>p\<in>set xs. ar_award_number (snd p) \<noteq> n \<Longrightarrow> sum_rows (in_award n) xs = 0" for xs
    by (induction xs) (auto simp: in_award_def)
  then show ?thesis
    using assms by (simp add: award_total_def)
qed

section \<open>Creating an award\<close>

text \<open>The records a new award makes for its awardees.\<close>

definition made_for :: "string \<Rightarrow> (string \<rightharpoonup> asset) \<Rightarrow> string list \<Rightarrow> (nat \<times> award_recipient_object) list \<Rightarrow> bool" where
  "made_for n m ws rs \<longleftrightarrow> map (\<lambda>p. ar_awardee (snd p)) rs = ws \<and>
     (\<forall>p\<in>set rs. ar_award_number (snd p) = n \<and> ar_total_amount (snd p) = map_get m (ar_awardee (snd p)) \<and>
        ar_total_expenses (snd p) = \<lparr>amount = 0, symbol = symbol (ar_total_amount (snd p))\<rparr>)"

lemma create_award_recipient_law:
  assumes "create_award_recipient n sn opp w src whole rid r st c = Inr c'"
    and wf: "wf_index award_recipient_key (award_recipients c)"
  shows "\<exists>i v u. c' = c\<lparr>award_recipients := u\<rparr> \<and> wf_index award_recipient_key u \<and>
    rows u = rows (award_recipients c) @ [(i, v)] \<and> ar_award_number v = n \<and> ar_awardee v = w \<and>
    ar_total_amount v = whole \<and> ar_total_expenses v = \<lparr>amount = 0, symbol = symbol whole\<rparr>"
proof -
  obtain i v u where e: "emplace award_recipient_key v (award_recipients c) = Inr (i, u)" "c' = c\<lparr>award_recipients := u\<rparr>"
    "ar_award_number v = n" "ar_awardee v = w" "ar_total_amount v = whole"
    "ar_total_expenses v = \<lparr>amount = 0, symbol = symbol whole\<rparr>"
    using assms(1) by (auto simp: create_award_recipient_def set_award_recipients_def ok_iff)
  then show ?thesis
    using cb.emplace_law [OF wf e(1)] cb.wf_emplace [OF symp_award_keys(2) wf e(1)]
    by (intro exI [of _ i] exI [of _ v] exI [of _ u]) simp
qed

lemma create_subawards_law:
  assumes "foldE (create_subaward op m) ss c = Inr c'" "wf_index award_recipient_key (award_recipients c)"
  shows "\<exists>u rs. c' = c\<lparr>award_recipients := u\<rparr> \<and> wf_index award_recipient_key u \<and>
    rows u = rows (award_recipients c) @ rs \<and> made_for (cr_award_number op) m (map sa_subawardee ss) rs"
  using assms
proof (induction ss arbitrary: c)
  case Nil
  then show ?case
    by (intro exI [of _ "award_recipients c"] exI [of _ "[]"]) (simp add: made_for_def)
next
  case (Cons s ss)
  obtain c1 where c1: "create_subaward op m s c = Inr c1" "foldE (create_subaward op m) ss c1 = Inr c'"
    using Cons.prems(1) by (auto simp: ok_iff)
  obtain n sn opp src rid r st where
    "create_award_recipient n sn opp (sa_subawardee s) src (map_get m (sa_subawardee s)) rid r st c = Inr c1"
    "n = cr_award_number op"
    using c1(1) by (auto simp: create_subaward_def ok_iff split: prod.splits)
  from create_award_recipient_law [OF this(1) Cons.prems(2)] this(2)
  obtain i v u where u: "c1 = c\<lparr>award_recipients := u\<rparr>" "wf_index award_recipient_key u"
    "rows u = rows (award_recipients c) @ [(i, v)]" "ar_award_number v = cr_award_number op"
    "ar_awardee v = sa_subawardee s" "ar_total_amount v = map_get m (sa_subawardee s)"
    "ar_total_expenses v = \<lparr>amount = 0, symbol = symbol (map_get m (sa_subawardee s))\<rparr>"
    by blast
  obtain u' rs where u': "c' = c1\<lparr>award_recipients := u'\<rparr>" "wf_index award_recipient_key u'"
    "rows u' = rows (award_recipients c1) @ rs" "made_for (cr_award_number op) m (map sa_subawardee ss) rs"
    using Cons.IH [OF c1(2)] u(1,2) by auto
  show ?case
    using u u' by (intro exI [of _ u'] exI [of _ "(i, v) # rs"]) (simp add: made_for_def)
qed

lemma sum_made_for:
  assumes "made_for n m ws rs"
  shows "sum_rows (in_award k) rs = (if k = n then sum_list (map (\<lambda>w. amount (map_get m w)) ws) else 0)"
proof -
  have "\<forall>p\<in>set rs. ar_award_number (snd p) = n \<and> ar_total_amount (snd p) = map_get m (ar_awardee (snd p)) \<Longrightarrow>
      sum_rows (in_award k) rs = (if k = n then sum_list (map (\<lambda>w. amount (map_get m w)) (map (\<lambda>p. ar_awardee (snd p)) rs)) else 0)"
    by (induction rs) (auto simp: in_award_def)
  then show ?thesis
    using assms by (auto simp: made_for_def)
qed

lemma create_award_D:
  assumes ap: "create_award_apply L op c = Inr c'" and v: "create_award_validate L op = Inr ()"
    and L: "safe_ok L" and wfa: "wf_index award_key (awards c)" and wfr: "wf_index award_recipient_key (award_recipients c)"
    and i: "int64 (amount (cr_award op))" "\<forall>s\<in>set (cr_subawardees op). int64 (amount (sa_subaward s))"
  obtains ai a t u rs m where
    "c' = c\<lparr>awards := t, award_recipients := u\<rparr>" "wf_index award_key t" "wf_index award_recipient_key u"
    "rows t = rows (awards c) @ [(ai, a)]" "rows u = rows (award_recipients c) @ rs"
    "aw_award_number a = cr_award_number op" "aw_amount a = cr_award op" "aw_status a = award_pending"
    "aw_university_overhead a = cr_university_overhead op"
    "aw_funding_opportunity_number a = cr_funding_opportunity_number op"
    "made_for (cr_award_number op) m (cr_awardee op # map sa_subawardee (cr_subawardees op)) rs"
    "\<forall>w\<in>set (cr_awardee op # map sa_subawardee (cr_subawardees op)).
       symbol (map_get m w) = symbol (cr_award op) \<and> int64 (amount (map_get m w))"
    "distinct (cr_awardee op # map sa_subawardee (cr_subawardees op))"
    "sum_list (map (\<lambda>w. amount (map_get m w)) (cr_awardee op # map sa_subawardee (cr_subawardees op))) =
       amount (cr_award op) - award_fee a"
    "\<exists>p\<in>set (rows (grants c)). fo_number (snd p) = cr_funding_opportunity_number op \<and>
       symbol (fo_amount (snd p)) = symbol (cr_award op)"
    "0 < amount (cr_award op)" "0 \<le> pc_amount (cr_university_overhead op)" "pc_amount (cr_university_overhead op) \<le> 5000"
proof -
  let ?ss = "cr_subawardees op" and ?w = "cr_awardee op"
  let ?ks = "?w # map sa_subawardee ?ss"
  have va: "validate_awardees L ?ss ?w (cr_award op) (cr_university_overhead op) = Inr ()" "0 < amount (cr_award op)"
    "0 \<le> pc_amount (cr_university_overhead op)" "pc_amount (cr_university_overhead op) \<le> 5000"
    using v by (auto simp: create_award_validate_def percent_ge_def percent_le_def percent_less_def percent_eq_def ok_iff
        DEIP_1_PERCENT_def DEIP_100_PERCENT_def split: if_splits)
  note d = validate_awardees_D [OF va(1)]
  obtain fi foa ui ua rid ra m c1 c2 where
    foa: "get_funding_opportunity (cr_funding_opportunity_number op) c = Inr (fi, foa)"
      "symbol (cr_award op) = symbol (fo_amount foa)"
    and sp: "split_award L op = Inr m"
    and c1: "create_award (cr_funding_opportunity_number op) (cr_award_number op) ?w (cr_award op) ui
        ua (cr_university_overhead op) (cr_creator op) award_pending c = Inr c1"
    and c2: "create_award_recipient (cr_award_number op) (cr_award_number op) (cr_funding_opportunity_number op)
        ?w [] (map_get m ?w) rid ra recipient_unconfirmed c1 = Inr c2"
    and c3: "foldE (create_subaward op m) ?ss c2 = Inr c'"
    using ap by (auto simp: create_award_apply_def ok_iff split: prod.splits)
  obtain fee top d1 d2 where
    fee: "university_fee L (cr_award op) (cr_university_overhead op) = Inr fee"
    and top: "subawards_from L ?w ?ss \<lparr>amount = 0, symbol = symbol (cr_award op)\<rparr> = Inr top"
    and d12: "asset_minus L (cr_award op) fee = Inr d1" "asset_minus L d1 top = Inr d2"
    and m: "fill_awards_map L ?ss (symbol (cr_award op)) ?ss [?w \<mapsto> d2] = Inr m"
    using sp by (auto simp: split_award_def ok_iff)
  note feeD = university_fee_D [OF fee L i(1) less_imp_le [OF va(2)] va(3,4)]
  have topD: "amount top = passed_on ?w ?ss \<and> symbol top = symbol (cr_award op) \<and> int64 (amount top)"
    using subawards_from_D [OF top L i(2)] by (simp add: int64_iff)
  have f: "int64 (amount fee)"
    using feeD by blast
  from minus_D [OF d12(1) L i(1) f]
  have d1: "d1 = \<lparr>amount = amount (cr_award op) - amount fee, symbol = symbol (cr_award op)\<rparr>" "int64 (amount d1)"
    by simp_all
  have t: "int64 (amount top)"
    using topD by blast
  have d2: "d2 = \<lparr>amount = amount (cr_award op) - amount fee - passed_on ?w ?ss, symbol = symbol (cr_award op)\<rparr>"
    "int64 (amount d2)"
    using minus_D [OF d12(2) L d1(2) t] topD unfolding d1(1) by simp_all
  have mw: "map_get m ?w = d2"
    using fill_awards_map_D(2) [OF m L i(2)] d(1) by (auto simp: map_get_def)
  have ms: "map_get m (sa_subawardee s) = \<lparr>amount = amount (sa_subaward s) - passed_on (sa_subawardee s) ?ss, symbol = symbol (cr_award op)\<rparr>"
    "int64 (amount (sa_subaward s) - passed_on (sa_subawardee s) ?ss)" if "s \<in> set ?ss" for s
    using fill_awards_map_D(1) [OF m L i(2)] d(1) that by (auto simp: map_get_def)
  have "sum_list (map (\<lambda>w. amount (map_get m w)) (map sa_subawardee ?ss)) =
      sum_list (map (\<lambda>s. amount (sa_subaward s) - passed_on (sa_subawardee s) ?ss) ?ss)"
    using ms(1) by (simp add: comp_def cong: map_cong)
  then have total: "sum_list (map (\<lambda>w. amount (map_get m w)) ?ks) = amount (cr_award op) - amount fee"
    using passed_on_all [OF d(1), of ?ss] d(2) mw d2(1) by (simp add: sum_list_subtractf comp_def)
  obtain ai a t where t: "emplace award_key a (awards c) = Inr (ai, t)" "c1 = c\<lparr>awards := t\<rparr>"
    "aw_award_number a = cr_award_number op" "aw_amount a = cr_award op" "aw_status a = award_pending"
    "aw_university_overhead a = cr_university_overhead op"
    "aw_funding_opportunity_number a = cr_funding_opportunity_number op"
    using c1 by (auto simp: create_award_def set_awards_def ok_iff)
  obtain i' v u where u: "c2 = c1\<lparr>award_recipients := u\<rparr>" "wf_index award_recipient_key u"
    "rows u = rows (award_recipients c) @ [(i', v)]" "ar_award_number v = cr_award_number op" "ar_awardee v = ?w"
    "ar_total_amount v = map_get m ?w" "ar_total_expenses v = \<lparr>amount = 0, symbol = symbol (map_get m ?w)\<rparr>"
    using create_award_recipient_law [OF c2] wfr t(2) by auto
  obtain u' rs where u': "c' = c2\<lparr>award_recipients := u'\<rparr>" "wf_index award_recipient_key u'"
    "rows u' = rows u @ rs" "made_for (cr_award_number op) m (map sa_subawardee ?ss) rs"
    using create_subawards_law [OF c3] u(1,2) by auto
  have made: "made_for (cr_award_number op) m ?ks ((i', v) # rs)"
    using u u' by (simp add: made_for_def)
  have keeps: "\<forall>w\<in>set ?ks. symbol (map_get m w) = symbol (cr_award op) \<and> int64 (amount (map_get m w))"
    using mw d2 ms by auto
  have "(fi, foa) \<in> set (rows (grants c)) \<and> fo_number foa = cr_funding_opportunity_number op"
    using foa(1) by (auto simp: get_funding_opportunity_def find_funding_opportunity_def ok_iff dest: find_row_Some)
  then have g: "\<exists>p\<in>set (rows (grants c)). fo_number (snd p) = cr_funding_opportunity_number op \<and>
       symbol (fo_amount (snd p)) = symbol (cr_award op)"
    using foa(2) by (intro bexI [of _ "(fi, foa)"]) simp_all
  show ?thesis
  proof (rule that [where ai = ai and a = a and t = t and u = u' and rs = "(i', v) # rs" and m = m])
    show "sum_list (map (\<lambda>w. amount (map_get m w)) ?ks) = amount (cr_award op) - award_fee a"
      unfolding total using feeD t(4,6) by (simp add: award_fee_def)
    show "rows u' = rows (award_recipients c) @ (i', v) # rs"
      using u(3) u'(3) by simp
    show "c' = c\<lparr>awards := t, award_recipients := u'\<rparr>"
      using t(2) u(1) u'(1) by simp
  qed (use t u' made keeps g va d(1) cb.emplace_law [OF wfa t(1)] cb.wf_emplace [OF symp_award_keys(1) wfa t(1)] in \<open>simp_all only: refl\<close>)
qed

section \<open>Changes of status\<close>

text \<open>The books do not depend on the status of an award or of a recipient.\<close>

definition recipient_strip :: "nat \<times> award_recipient_object \<Rightarrow> nat \<times> award_recipient_object" where
  "recipient_strip p = (fst p, (snd p)\<lparr>ar_status := recipient_unknown\<rparr>)"

definition award_strip :: "nat \<times> award_object \<Rightarrow> nat \<times> award_object" where
  "award_strip p = (fst p, (snd p)\<lparr>aw_status := award_pending\<rparr>)"

lemma map_upd_same:
  assumes "sorted1 xs" "map_of xs i = Some v" "f (i, w) = f (i, v)"
  shows "map f (upd i w xs) = map f xs"
  by (rule map_upd_distinct [where g = f, OF sorted1_distinct [OF assms(1)] assms(2,3)])

lemma strip_all:
  assumes "map f xs = map f ys" "\<And>p. Q (f p) = Q p" "\<forall>p\<in>set xs. Q p"
  shows "\<forall>p\<in>set ys. Q p"
proof -
  have "\<forall>p\<in>set (map f ys). Q p"
    using assms(2,3) by (simp flip: assms(1))
  then show ?thesis
    using assms(2) by simp
qed

lemma strip_sum:
  fixes f :: "nat \<times> 'b \<Rightarrow> nat \<times> 'b"
  assumes "map f xs = map f ys" "\<And>p. g (snd (f p)) = g (snd p)"
  shows "sum_rows g xs = (sum_rows g ys :: int)"
proof -
  have "sum_rows g zs = sum_rows g (map f zs)" for zs :: "(nat \<times> 'b) list"
    using assms(2) by (simp add: sum_rows_def comp_def)
  then show ?thesis
    using assms(1) by metis
qed

definition opportunities :: "chain \<Rightarrow> (string \<times> asset) set" where
  "opportunities c = (\<lambda>p. (fo_number (snd p), fo_amount (snd p))) ` set (rows (grants c))"

lemma opportunity_in:
  "(\<exists>p\<in>set (rows (grants c)). fo_number (snd p) = n \<and> symbol (fo_amount (snd p)) = s) \<longleftrightarrow>
     (\<exists>a. (n, a) \<in> opportunities c \<and> symbol a = s)"
  by (force simp: opportunities_def)

lemma awards_ok_keep:
  assumes ok: "awards_ok L c" and g: "grants_ok L c'" "opportunities c \<subseteq> opportunities c'"
    and w: "wf_index award_key (awards c')" "wf_index award_recipient_key (award_recipients c')"
      "wf_index withdrawal_key (award_withdrawals c')"
    and a: "map award_strip (rows (awards c)) = map award_strip (rows (awards c'))"
    and r: "map recipient_strip (rows (award_recipients c)) = map recipient_strip (rows (award_recipients c'))"
  shows "awards_ok L c'"
proof -
  have total: "award_total n c' = award_total n c" for n
    unfolding award_total_def by (rule strip_sum [OF r [symmetric]]) (simp add: recipient_strip_def in_award_def)
  have "award_ok c' v" if v: "award_ok c v" for v
  proof -
    have "\<forall>p\<in>set (rows (award_recipients c')). ar_award_number (snd p) = aw_award_number v \<longrightarrow>
        symbol (ar_total_amount (snd p)) = symbol (aw_amount v)"
      by (rule strip_all [OF r]) (use v in \<open>simp_all add: recipient_strip_def award_ok_def\<close>)
    then show ?thesis
      using v g(2) by (auto simp: award_ok_def total opportunity_in)
  qed
  then have "\<forall>p\<in>set (rows (awards c)). award_ok c' (snd p)"
    using ok by (auto simp: awards_ok_def)
  then have "\<forall>p\<in>set (rows (awards c')). award_ok c' (snd p)"
    by (intro strip_all [OF a]) (simp_all add: award_strip_def award_ok_def award_fee_def)
  moreover have numbers: "(\<lambda>p. aw_award_number (snd p)) ` set (rows (awards c')) = (\<lambda>p. aw_award_number (snd p)) ` set (rows (awards c))"
  proof -
    have "(\<lambda>p. aw_award_number (snd p)) ` set xs = (\<lambda>p. aw_award_number (snd p)) ` set (map award_strip xs)" for xs
      by (simp add: image_image award_strip_def)
    then show ?thesis
      using a by metis
  qed
  moreover have "\<forall>p\<in>set (rows (award_recipients c')). recipient_ok (snd p) \<and>
      ar_award_number (snd p) \<in> (\<lambda>p. aw_award_number (snd p)) ` set (rows (awards c))"
    by (rule strip_all [OF r]) (use ok in \<open>force simp: recipient_strip_def recipient_ok_def awards_ok_def\<close>)+
  ultimately have "\<forall>p\<in>set (rows (award_recipients c')). recipient_ok (snd p) \<and>
      (\<exists>q\<in>set (rows (awards c')). aw_award_number (snd q) = ar_award_number (snd p))"
    by (metis (no_types, lifting) imageE image_eqI)
  then show ?thesis
    using g(1) w \<open>\<forall>p\<in>set (rows (awards c')). award_ok c' (snd p)\<close> by (simp add: awards_ok_def)
qed

section \<open>Creating an award keeps the books\<close>

text \<open>Award numbers are unique, so a new award has a number no award had.\<close>

lemma award_number_fresh:
  assumes "wf_index award_key t" "rows t = ps @ [(i, a)]" "p \<in> set ps"
  shows "aw_award_number (snd p) \<noteq> aw_award_number a"
proof
  assume "aw_award_number (snd p) = aw_award_number a"
  then have "fst p = i"
    using cb.rows_unique [OF assms(1), of "fst p" "snd p" i a] assms(2,3) by (simp add: award_key_def)
  moreover have "fst p < i"
    using cb.rows_sorted [OF assms(1)] assms(2,3) by (auto simp: sorted1_def sorted_wrt_append)
  ultimately show False
    by simp
qed

lemma create_award_law:
  assumes ap: "create_award_apply L op c = Inr c'" and v: "create_award_validate L op = Inr ()"
    and ok: "awards_ok L c"
    and i: "int64 (amount (cr_award op))" "\<forall>s\<in>set (cr_subawardees op). int64 (amount (sa_subaward s))"
  shows "awards_ok L c' \<and> balances c' = balances c \<and> grants c' = grants c \<and> circulating c' s = circulating c s"
proof -
  let ?ks = "cr_awardee op # map sa_subawardee (cr_subawardees op)"
  have L: "safe_ok L" and wf: "wf_index award_key (awards c)" "wf_index award_recipient_key (award_recipients c)"
    using ok by (auto simp: awards_ok_def grants_ok_def supply_ok_def balances_ok_def)
  obtain ai a t u rs m where c': "c' = c\<lparr>awards := t, award_recipients := u\<rparr>" "wf_index award_key t"
    "wf_index award_recipient_key u" "rows t = rows (awards c) @ [(ai, a)]" "rows u = rows (award_recipients c) @ rs"
    "aw_award_number a = cr_award_number op" "aw_amount a = cr_award op" "aw_status a = award_pending"
    "aw_university_overhead a = cr_university_overhead op"
    "aw_funding_opportunity_number a = cr_funding_opportunity_number op"
    and made: "made_for (cr_award_number op) m ?ks rs"
    and keeps: "\<forall>w\<in>set ?ks. symbol (map_get m w) = symbol (cr_award op) \<and> int64 (amount (map_get m w))"
    and dist: "distinct ?ks"
    and sum: "sum_list (map (\<lambda>w. amount (map_get m w)) ?ks) = amount (cr_award op) - award_fee a"
    and g: "\<exists>p\<in>set (rows (grants c)). fo_number (snd p) = cr_funding_opportunity_number op \<and>
       symbol (fo_amount (snd p)) = symbol (cr_award op)"
    and b: "0 < amount (cr_award op)" "0 \<le> pc_amount (cr_university_overhead op)" "pc_amount (cr_university_overhead op) \<le> 5000"
    by (rule create_award_D [OF ap v L wf i])
  have total: "award_total n c' = award_total n c +
      (if n = cr_award_number op then amount (cr_award op) - award_fee a else 0)" for n
    using sum_made_for [OF made, of n] sum by (simp add: award_total_def c'(1,5))
  have f: "grants c' = grants c" "rows (award_recipients c') = rows (award_recipients c) @ rs"
    by (simp_all add: c'(1,5))
  have new: "aw_award_number (snd p) \<noteq> cr_award_number op" if "p \<in> set (rows (awards c))" for p
    using award_number_fresh [OF c'(2,4) that] by (simp add: c'(6))
  then have none: "\<forall>p\<in>set (rows (award_recipients c)). ar_award_number (snd p) \<noteq> cr_award_number op"
    using ok by (fastforce simp: awards_ok_def)
  have rs: "ar_award_number (snd p) = cr_award_number op" "recipient_ok (snd p)"
    "symbol (ar_total_amount (snd p)) = symbol (cr_award op)" if p: "p \<in> set rs" for p
  proof -
    have "ar_awardee (snd p) \<in> set ?ks"
      using made p unfolding made_for_def by (metis (no_types, lifting) image_eqI list.set_map)
    then show "ar_award_number (snd p) = cr_award_number op" "recipient_ok (snd p)"
      "symbol (ar_total_amount (snd p)) = symbol (cr_award op)"
      using made p keeps by (auto simp: made_for_def recipient_ok_def)
  qed
  have "award_ok c' v" if "p \<in> set (rows (awards c))" "v = snd p" for p v
    using that ok new [OF that(1)] rs by (auto simp: awards_ok_def award_ok_def total f)
  moreover have "award_ok c' a"
    using award_total_none [OF none] b g rs i none c'(6-10) by (auto simp: award_ok_def total f)
  moreover have "grants_ok L c'"
    using ok by (simp add: awards_ok_def grants_ok_def supply_ok_def balances_ok_def circulating_def held_def escrowed_def c'(1))
  moreover have "\<forall>p\<in>set (rows u). recipient_ok (snd p) \<and>
      (\<exists>q\<in>set (rows t). aw_award_number (snd q) = ar_award_number (snd p))"
    using ok rs c'(4-6) by (force simp: awards_ok_def)
  ultimately have "awards_ok L c'"
    using ok c'(2,3,4) by (simp add: awards_ok_def c'(1))
  then show ?thesis
    by (simp add: c'(1) circulating_def held_def escrowed_def)
qed

end
