(* ===== verification/Award_Decisions.thy ===== *)
theory Award_Decisions
  imports Award_Invariant
begin

text \<open>
  Approving and rejecting an award: an approval moves the whole award out of the opportunity,
  the fee to the university's creator and the parts to the recipients.
\<close>

lemma recipient_status_law:
  assumes "update_award_recipient_status i st c = Inr c'" "wf_index award_recipient_key (award_recipients c)"
  shows "\<exists>u. c' = c\<lparr>award_recipients := u\<rparr> \<and> wf_index award_recipient_key u \<and>
    map recipient_strip (rows u) = map recipient_strip (rows (award_recipients c))"
proof -
  obtain u where u: "modify award_recipient_key i (\<lambda>r. r\<lparr>ar_status := st\<rparr>) (award_recipients c) = Inr u"
    "c' = c\<lparr>award_recipients := u\<rparr>"
    using assms(1) by (auto simp: update_award_recipient_status_def set_award_recipients_def ok_iff)
  obtain v where v: "map_of (rows (award_recipients c)) i = Some v" "rows u = upd i (v\<lparr>ar_status := st\<rparr>) (rows (award_recipients c))"
    using cb.modify_law [OF u(1)] by blast
  have "map recipient_strip (rows u) = map recipient_strip (rows (award_recipients c))"
    unfolding v(2) by (rule map_upd_same [OF cb.rows_sorted [OF assms(2)] v(1)]) (simp add: recipient_strip_def)
  then show ?thesis
    using u(2) cb.wf_modify [OF symp_award_keys(2) assms(2) u(1)] by blast
qed

lemma award_status_law:
  assumes "update_award_status i st c = Inr c'" "wf_index award_key (awards c)"
  shows "\<exists>t. c' = c\<lparr>awards := t\<rparr> \<and> wf_index award_key t \<and>
    map award_strip (rows t) = map award_strip (rows (awards c))"
proof -
  obtain t where t: "modify award_key i (\<lambda>a. a\<lparr>aw_status := st\<rparr>) (awards c) = Inr t" "c' = c\<lparr>awards := t\<rparr>"
    using assms(1) by (auto simp: update_award_status_def set_awards_def ok_iff)
  obtain v where v: "map_of (rows (awards c)) i = Some v" "rows t = upd i (v\<lparr>aw_status := st\<rparr>) (rows (awards c))"
    using cb.modify_law [OF t(1)] by blast
  have "map award_strip (rows t) = map award_strip (rows (awards c))"
    unfolding v(2) by (rule map_upd_same [OF cb.rows_sorted [OF assms(2)] v(1)]) (simp add: award_strip_def)
  then show ?thesis
    using t(2) cb.wf_modify [OF symp_award_keys(1) assms(2) t(1)] by blast
qed

text \<open>Paying the recipients.\<close>

definition part_in :: "64 word \<Rightarrow> award_recipient_object \<Rightarrow> int" where
  "part_in s r = (if symbol (ar_total_amount r) = s then amount (ar_total_amount r) else 0)"

lemma pay_recipients_law:
  assumes "foldE (pay_recipient L) ps c = Inr c'" "balances_ok L c" "wf_index award_recipient_key (award_recipients c)"
    and "\<forall>p\<in>set ps. int64 (amount (ar_total_amount (snd p)))"
  shows "balances_ok L c' \<and> (\<exists>b u. c' = c\<lparr>balances := b, award_recipients := u\<rparr> \<and>
      wf_index award_recipient_key u \<and>
      map recipient_strip (rows u) = map recipient_strip (rows (award_recipients c))) \<and>
    held c' s = held c s + sum_rows (part_in s) ps \<and>
    spendable c' w s = spendable c w s + sum_rows (\<lambda>r. if ar_awardee r = w then part_in s r else 0) ps"
  using assms
proof (induction ps arbitrary: c)
  case Nil
  then show ?case
    by (auto intro!: exI [of _ "balances c"] exI [of _ "award_recipients c"])
next
  case (Cons p ps)
  obtain c1 c2 where c1: "adjust_account_balance L (ar_awardee (snd p)) (ar_total_amount (snd p)) c = Inr c1"
    and c2: "update_award_recipient_status (fst p) recipient_confirmed c1 = Inr c2"
    and rest: "foldE (pay_recipient L) ps c2 = Inr c'"
    using Cons.prems(1) by (auto simp: pay_recipient_def [of L p] ok_iff)
  have i: "int64 (amount (ar_total_amount (snd p)))"
    using Cons.prems(4) by simp
  note adj = lg.adjust_law [OF Cons.prems(2) i c1, of s] lg.adjust_spendable [OF Cons.prems(2) i c1, of w s]
  have "\<exists>b. c1 = c\<lparr>balances := b\<rparr>"
    using adj(1) by (cases c; cases c1) (simp add: but_balances_def)
  then obtain b where b: "c1 = c\<lparr>balances := b\<rparr>"
    by blast
  obtain u where u: "c2 = c1\<lparr>award_recipients := u\<rparr>" "wf_index award_recipient_key u"
    "map recipient_strip (rows u) = map recipient_strip (rows (award_recipients c))"
    using recipient_status_law [OF c2] Cons.prems(3) by (auto simp: b)
  have ok2: "balances_ok L c2" "held c2 s = held c1 s" "spendable c2 w s = spendable c1 w s"
    using adj(1) by (simp_all add: u(1) balances_ok_def held_def spendable_def)
  have IH: "balances_ok L c' \<and> (\<exists>b u. c' = c2\<lparr>balances := b, award_recipients := u\<rparr> \<and>
      wf_index award_recipient_key u \<and>
      map recipient_strip (rows u) = map recipient_strip (rows (award_recipients c2))) \<and>
    held c' s = held c2 s + sum_rows (part_in s) ps \<and>
    spendable c' w s = spendable c2 w s + sum_rows (\<lambda>r. if ar_awardee r = w then part_in s r else 0) ps"
    by (rule Cons.IH [OF rest ok2(1)]) (use u Cons.prems(4) in auto)
  then obtain b' u' where u': "c' = c2\<lparr>balances := b', award_recipients := u'\<rparr>" "wf_index award_recipient_key u'"
      "map recipient_strip (rows u') = map recipient_strip (rows (award_recipients c))"
    using u(1,3) by auto
  have "c' = c\<lparr>balances := b', award_recipients := u'\<rparr>"
    using u'(1) by (simp add: u(1) b)
  moreover have "held c' s = held c s + sum_rows (part_in s) (p # ps)"
    "spendable c' w s = spendable c w s + sum_rows (\<lambda>r. if ar_awardee r = w then part_in s r else 0) (p # ps)"
    using IH adj ok2(2,3) by (auto simp: part_in_def)
  ultimately show ?case
    using IH u'(2,3) by blast
qed

lemma adjust_opportunity_law:
  assumes ad: "adjust_funding_opportunity_supply L i d c = Inr c'" and L: "safe_ok L" "int64 (amount d)"
    and wf: "wf_index grant_key (grants c)" and ok: "\<forall>p\<in>set (rows (grants c)). opportunity_ok (snd p)"
    and f: "(i, f) \<in> set (rows (grants c))" and neg: "amount d \<le> 0"
  shows "\<exists>t. c' = c\<lparr>grants := t\<rparr> \<and> wf_index grant_key t \<and> (\<forall>p\<in>set (rows t). opportunity_ok (snd p)) \<and>
    opportunities c' = opportunities c \<and> symbol d = symbol (fo_amount f) \<and> 0 < amount (fo_current_supply f) + amount d \<and>
    rows t = upd i (f\<lparr>fo_current_supply := \<lparr>amount = amount (fo_current_supply f) + amount d, symbol = symbol d\<rparr>\<rparr>) (rows (grants c)) \<and>
    (\<forall>s. locked c' s = locked c s + (if s = symbol d then amount d else 0))"
proof -
  have lk: "lookup (grants c) i = Some f"
    using cb.mem_map_of [OF wf] f by (simp add: lookup_def)
  obtain v a t where v: "add L (amount (fo_current_supply f)) (amount d) = Inr v" "0 < v"
    "asset_plus L (fo_current_supply f) d = Inr a"
    and t: "modify grant_key i (\<lambda>f. f\<lparr>fo_current_supply := a\<rparr>) (grants c) = Inr t" "c' = c\<lparr>grants := t\<rparr>"
    using ad lk by (auto simp: adjust_funding_opportunity_supply_def get_funding_opportunity_by_id_def set_grants_def ok_iff)
  have fo: "opportunity_ok f"
    using ok f by auto
  then have fi: "int64 (amount (fo_current_supply f))"
    by (auto simp: opportunity_ok_def int64_iff)
  have v': "v = amount (fo_current_supply f) + amount d"
    using add_D [OF v(1) L(1) fi L(2)] by simp
  have a: "a = \<lparr>amount = amount (fo_current_supply f) + amount d, symbol = symbol d\<rparr>" "symbol d = symbol (fo_current_supply f)"
    using plus_D [OF v(3) L(1) fi L(2)] by simp_all
  have r: "rows t = upd i (f\<lparr>fo_current_supply := a\<rparr>) (rows (grants c))"
    by (rule cb.rows_modify_mem [OF wf t(1) f])
  have new: "opportunity_ok (f\<lparr>fo_current_supply := a\<rparr>)"
    using fo v(2) v' a neg by (auto simp: opportunity_ok_def)
  have "\<forall>p\<in>set (rows t). opportunity_ok (snd p)"
    by (rule cb.all_modify [OF t(1) ok]) (use lk new in \<open>simp add: lookup_def\<close>)
  moreover have "map (\<lambda>p. (fo_number (snd p), fo_amount (snd p))) (rows t) =
      map (\<lambda>p. (fo_number (snd p), fo_amount (snd p))) (rows (grants c))"
    unfolding r by (rule map_upd_same [OF cb.rows_sorted [OF wf] lk [unfolded lookup_def]]) simp
  then have "opportunities c' = opportunities c"
    unfolding opportunities_def t(2) by (simp flip: set_map)
  moreover have "locked c' s = locked c s + (if s = symbol d then amount d else 0)" for s
    using cb.sum_modify [OF wf t(1) f, of "supply_in s"] a by (simp add: locked_grants t(2) supply_in_def)
  ultimately show ?thesis
    using t(2) r a fo v(2) v' cb.wf_modify [OF symp_grant_key wf t(1)]
    by (intro exI [of _ t]) (simp add: opportunity_ok_def)
qed

lemma sum_part_in:
  assumes "\<forall>p\<in>set xs. ar_award_number (snd p) = n \<longrightarrow> symbol (ar_total_amount (snd p)) = sm"
  shows "sum_rows (part_in s) (filter (\<lambda>p. ar_award_number (snd p) = n) xs) =
    (if s = sm then sum_rows (in_award n) xs else 0)"
  using assms by (induction xs) (auto simp: part_in_def in_award_def)

lemma sum_share_in:
  assumes "\<forall>p\<in>set xs. ar_award_number (snd p) = n \<longrightarrow> symbol (ar_total_amount (snd p)) = sm"
  shows "sum_rows (\<lambda>r. if ar_awardee r = w then part_in s r else 0) (filter (\<lambda>p. ar_award_number (snd p) = n) xs) =
    (if s = sm then sum_rows (\<lambda>r. if ar_awardee r = w then amount (ar_total_amount r) else 0)
       (filter (\<lambda>p. ar_award_number (snd p) = n) xs) else 0)"
  using assms by (induction xs) (auto simp: part_in_def)

lemma get_award_D:
  "get_award n c = Inr (ai, a) \<Longrightarrow> (ai, a) \<in> set (rows (awards c)) \<and> aw_award_number a = n"
  by (auto simp: get_award_def find_award_def ok_iff dest: find_row_Some)

lemma get_opportunity_D:
  "get_funding_opportunity n c = Inr (i, f) \<Longrightarrow> (i, f) \<in> set (rows (grants c)) \<and> fo_number f = n"
  by (auto simp: get_funding_opportunity_def find_funding_opportunity_def ok_iff dest: find_row_Some)

text \<open>Who is paid what when an award is approved.\<close>

definition award_share :: "chain \<Rightarrow> award_object \<Rightarrow> string \<Rightarrow> string \<Rightarrow> int" where
  "award_share c a creator w =
     (if w = creator then award_fee a else 0) +
     sum_rows (\<lambda>r. if ar_awardee r = w then amount (ar_total_amount r) else 0)
       (get_award_recipients_by_award (aw_award_number a) c)"

lemma approve_award_law:
  assumes ap: "approve_award_apply L op c = Inr c'" and ok: "awards_ok L c"
  shows "awards_ok L c' \<and> (\<forall>s. circulating c' s = circulating c s) \<and>
    (\<exists>ai a uni fi f. (ai, a) \<in> set (rows (awards c)) \<and> aw_award_number a = aa_award_number op \<and> aw_status a = award_pending \<and>
       lookup (research_groups c) (aw_university_id a) = Some uni \<and>
       (fi, f) \<in> set (rows (grants c)) \<and> fo_number f = aw_funding_opportunity_number a \<and>
       aa_approver op \<in> set (fo_officers f) \<and> amount (aw_amount a) < amount (fo_current_supply f) \<and>
       rows (grants c') = upd fi (f\<lparr>fo_current_supply :=
         \<lparr>amount = amount (fo_current_supply f) - amount (aw_amount a), symbol = symbol (aw_amount a)\<rparr>\<rparr>) (rows (grants c)) \<and>
       (\<forall>w s. spendable c' w s = spendable c w s +
         (if s = symbol (aw_amount a) then award_share c a (rg_creator uni) w else 0)))"
proof -
  have bo: "balances_ok L c" "safe_ok L" and wf: "wf_index grant_key (grants c)" "wf_index award_recipient_key (award_recipients c)"
    "wf_index award_key (awards c)" and fo: "\<forall>p\<in>set (rows (grants c)). opportunity_ok (snd p)"
    using ok by (auto simp: awards_ok_def grants_ok_def supply_ok_def balances_ok_def)
  obtain ai a fi f uni fee c1 c2 c3 na where
    a: "get_award (aa_award_number op) c = Inr (ai, a)" "aw_status a = award_pending"
    and f: "get_funding_opportunity (aw_funding_opportunity_number a) c = Inr (fi, f)" "aa_approver op \<in> set (fo_officers f)"
    and uni: "get_research_group (aw_university_id a) c = Inr uni"
    and fee: "university_fee L (aw_amount a) (aw_university_overhead a) = Inr fee"
    and c1: "adjust_account_balance L (rg_creator uni) fee c = Inr c1"
    and c2: "foldE (pay_recipient L) (get_award_recipients_by_award (aa_award_number op) c1) c1 = Inr c2"
    and na: "asset_uminus L (aw_amount a) = Inr na"
    and c3: "adjust_funding_opportunity_supply L fi na c2 = Inr c3"
    and c4: "update_award_status ai award_approved c3 = Inr c'"
    using ap by (simp add: approve_award_apply_def ok_iff split: prod.splits) blast
  have aD: "(ai, a) \<in> set (rows (awards c))" "aw_award_number a = aa_award_number op"
    using get_award_D [OF a(1)] by simp_all
  have fD: "(fi, f) \<in> set (rows (grants c))" "fo_number f = aw_funding_opportunity_number a"
    using get_opportunity_D [OF f(1)] by simp_all
  have ao: "award_ok c a"
    using ok aD(1) by (auto simp: awards_ok_def)
  then have am: "0 < amount (aw_amount a)" "int64 (amount (aw_amount a))" "0 \<le> pc_amount (aw_university_overhead a)"
    "pc_amount (aw_university_overhead a) \<le> 5000"
    "award_total (aw_award_number a) c = amount (aw_amount a) - award_fee a"
    by (auto simp: award_ok_def)
  note feeD = university_fee_D [OF fee bo(2) am(2) less_imp_le [OF am(1)] am(3,4)]
  have "int64 (amount fee)"
    using feeD by blast
  moreover have "amount fee = award_fee a" "symbol fee = symbol (aw_amount a)"
    using feeD by (simp_all add: award_fee_def)
  ultimately have fee': "int64 (amount fee)" "amount fee = award_fee a" "symbol fee = symbol (aw_amount a)"
    by blast+
  note adj = lg.adjust_law [OF bo(1) fee'(1) c1] lg.adjust_spendable [OF bo(1) fee'(1) c1]
  have bb: "but_balances c1 = but_balances c"
    using adj(1) by blast
  note fr = but_balances_fields [OF bb]
  let ?ps = "get_award_recipients_by_award (aa_award_number op) c"
  have ps: "get_award_recipients_by_award (aa_award_number op) c1 = ?ps"
    by (simp add: get_award_recipients_by_award_def fr)
  have i: "\<forall>p\<in>set ?ps. int64 (amount (ar_total_amount (snd p)))"
    using ok by (auto simp: get_award_recipients_by_award_def awards_ok_def recipient_ok_def)
  have pay: "balances_ok L c2 \<and> (\<exists>b u. c2 = c1\<lparr>balances := b, award_recipients := u\<rparr> \<and> wf_index award_recipient_key u \<and>
      map recipient_strip (rows u) = map recipient_strip (rows (award_recipients c1))) \<and>
    held c2 s = held c1 s + sum_rows (part_in s) ?ps \<and>
    spendable c2 w s = spendable c1 w s + sum_rows (\<lambda>r. if ar_awardee r = w then part_in s r else 0) ?ps" for w s
    by (rule pay_recipients_law [OF c2 [unfolded ps]]) (use adj(1) wf(2) fr i in auto)
  then obtain b u where u: "c2 = c1\<lparr>balances := b, award_recipients := u\<rparr>" "wf_index award_recipient_key u"
      "map recipient_strip (rows u) = map recipient_strip (rows (award_recipients c))"
    using pay [unfolded fr(15)] by blast
  have syms: "\<forall>p\<in>set (rows (award_recipients c)). ar_award_number (snd p) = aa_award_number op \<longrightarrow>
      symbol (ar_total_amount (snd p)) = symbol (aw_amount a)"
    using ao aD(2) by (auto simp: award_ok_def)
  have held2: "held c2 s = held c s + (if s = symbol (aw_amount a) then amount (aw_amount a) else 0)" for s
    using pay [of s undefined] adj(1) [of s] sum_part_in [OF syms, of s] am(5) fee' aD(2)
    by (auto simp: get_award_recipients_by_award_def award_total_def)
  have naD: "amount na = - amount (aw_amount a)" "symbol na = symbol (aw_amount a)" "int64 (amount na)"
    using uminus_D [OF na bo(2) am(2)] by blast+
  have g2: "grants c2 = grants c"
    using fr by (simp add: u(1))
  have neg: "amount na \<le> 0"
    using naD(1) am(1) by simp
  from adjust_opportunity_law [OF c3 bo(2) naD(3), unfolded g2, OF wf(1) fo fD(1) neg]
  obtain t where law: "c3 = c2\<lparr>grants := t\<rparr>" "wf_index grant_key t" "\<forall>p\<in>set (rows t). opportunity_ok (snd p)"
    "opportunities c3 = opportunities c2" "0 < amount (fo_current_supply f) + amount na"
    "rows t = upd fi (f\<lparr>fo_current_supply := \<lparr>amount = amount (fo_current_supply f) + amount na, symbol = symbol na\<rparr>\<rparr>)
       (rows (grants c))"
    "\<forall>s. locked c3 s = locked c2 s + (if s = symbol na then amount na else 0)"
    by (elim exE conjE)
  have t: "c3 = c2\<lparr>grants := t\<rparr>" "wf_index grant_key t" "\<forall>p\<in>set (rows t). opportunity_ok (snd p)"
    "opportunities c3 = opportunities c2" "amount (aw_amount a) < amount (fo_current_supply f)"
    "rows t = upd fi (f\<lparr>fo_current_supply :=
       \<lparr>amount = amount (fo_current_supply f) - amount (aw_amount a), symbol = symbol (aw_amount a)\<rparr>\<rparr>) (rows (grants c))"
    and lock: "\<forall>s. locked c3 s = locked c2 s + (if s = symbol (aw_amount a) then - amount (aw_amount a) else 0)"
    using law naD(1,2) by simp_all
  obtain t' where t': "c' = c3\<lparr>awards := t'\<rparr>" "wf_index award_key t'"
    "map award_strip (rows t') = map award_strip (rows (awards c))"
    using award_status_law [OF c4] wf(3) fr by (auto simp: t(1) u(1))
  have c': "balances c' = b" "locked c' s = locked c3 s" "contributions c' = contributions c" "assets c' = assets c" for s
    by (simp_all add: t'(1) t(1) u(1) fr)
  have "locked c2 s = locked c s" for s
    by (simp add: u(1) fr)
  then have circ: "circulating c' s = circulating c s" for s
    using held2 [of s] lock by (simp add: circulating_def escrowed_def held_def c' u(1))
  have bo': "balances_ok L c'"
    using pay by (simp add: balances_ok_def c' u(1))
  have "awards_ok L c'"
  proof (rule awards_ok_keep [OF ok])
    show "grants_ok L c'"
      using supply_ok_keep [OF _ bo' c'(4) circ] ok t(2,3) by (simp add: awards_ok_def grants_ok_def t'(1) t(1) u(1) fr)
    show "opportunities c \<subseteq> opportunities c'"
      using t(4) g2 by (simp add: opportunities_def t'(1))
  qed (use ok t'(2,3) u(2,3) in \<open>simp_all add: t'(1) t(1) u(1) fr awards_ok_def\<close>)
  moreover have "spendable c' w s = spendable c w s +
      (if s = symbol (aw_amount a) then award_share c a (rg_creator uni) w else 0)" for w s
    using pay [of s w] adj(2) [of w s] fee'(2,3) aD(2) sum_share_in [OF syms, of w s]
    by (simp add: award_share_def get_award_recipients_by_award_def spendable_def c' u(1))
  ultimately show ?thesis
    using circ aD a(2) fD f(2) uni t(5,6)
    by (intro conjI exI [of _ ai] exI [of _ a] exI [of _ uni] exI [of _ fi] exI [of _ f])
      (simp_all add: get_research_group_def t'(1) t(1) ok_iff)
qed

section \<open>Rejecting\<close>

lemma cancel_recipients_law:
  assumes "foldE (\<lambda>p. update_award_recipient_status (fst p) st) ps c = Inr c'"
    and "wf_index award_recipient_key (award_recipients c)"
  shows "\<exists>u. c' = c\<lparr>award_recipients := u\<rparr> \<and> wf_index award_recipient_key u \<and>
    map recipient_strip (rows u) = map recipient_strip (rows (award_recipients c))"
  using assms
proof (induction ps arbitrary: c)
  case Nil
  then show ?case
    by (intro exI [of _ "award_recipients c"]) simp
next
  case (Cons p ps)
  obtain c1 where c1: "update_award_recipient_status (fst p) st c = Inr c1"
    "foldE (\<lambda>p. update_award_recipient_status (fst p) st) ps c1 = Inr c'"
    using Cons.prems(1) by (auto simp: ok_iff)
  obtain u where u: "c1 = c\<lparr>award_recipients := u\<rparr>" "wf_index award_recipient_key u"
    "map recipient_strip (rows u) = map recipient_strip (rows (award_recipients c))"
    using recipient_status_law [OF c1(1) Cons.prems(2)] by blast
  then show ?case
    using Cons.IH [OF c1(2)] by simp
qed

lemma reject_award_D:
  assumes "reject_award_apply op c = Inr c'" "wf_index award_recipient_key (award_recipients c)" "wf_index award_key (awards c)"
  shows "\<exists>t u. c' = c\<lparr>award_recipients := u, awards := t\<rparr> \<and> wf_index award_recipient_key u \<and> wf_index award_key t \<and>
    map recipient_strip (rows u) = map recipient_strip (rows (award_recipients c)) \<and>
    map award_strip (rows t) = map award_strip (rows (awards c))"
proof -
  obtain ai c1 and ps :: "(nat \<times> award_recipient_object) list" where
    c1: "foldE (\<lambda>p. update_award_recipient_status (fst p) recipient_canceled) ps c = Inr c1"
    and c2: "update_award_status ai award_rejected c1 = Inr c'"
    using assms(1) by (simp add: reject_award_apply_def ok_iff split: prod.splits) blast
  obtain u where u: "c1 = c\<lparr>award_recipients := u\<rparr>" "wf_index award_recipient_key u"
    "map recipient_strip (rows u) = map recipient_strip (rows (award_recipients c))"
    using cancel_recipients_law [OF c1 assms(2)] by blast
  then show ?thesis
    using award_status_law [OF c2] assms(3) by auto
qed

lemma awards_ok_status:
  assumes "awards_ok L c" and c': "c' = c\<lparr>award_recipients := u, awards := t, award_withdrawals := x\<rparr>"
    and "wf_index award_recipient_key u" "wf_index award_key t" "wf_index withdrawal_key x"
    and "map recipient_strip (rows u) = map recipient_strip (rows (award_recipients c))"
    and "map award_strip (rows t) = map award_strip (rows (awards c))"
  shows "awards_ok L c' \<and> circulating c' s = circulating c s"
proof -
  have "grants_ok L c'"
    using assms(1) by (simp add: awards_ok_def grants_ok_def supply_ok_def balances_ok_def circulating_def held_def escrowed_def c')
  then have "awards_ok L c'"
    by (rule awards_ok_keep [OF assms(1)]) (simp_all add: assms(3-7) c' opportunities_def)
  then show ?thesis
    by (simp add: circulating_def held_def escrowed_def c')
qed

end
