(* ===== verification/Award_Withdrawals.thy ===== *)
theory Award_Withdrawals
  imports Award_Decisions
begin

text \<open>
  Withdrawing from an award: a recipient requests a payment, the request is certified, approved
  and paid, or rejected. Validators in \<open>libraries/protocol/operations/\<close>, evaluators in
  \<open>libraries/chain/deip_evaluator.cpp\<close>. The four operations that move a request on have the same
  fields: the numbers of the award, of the subaward (the award itself when it is absent) and of
  the payment, and the account that signs.
\<close>

definition DEIP_USD_SYMBOL :: "64 word" where
  "DEIP_USD_SYMBOL = 2 + 0x55 * 2 ^ 8 + 0x53 * 2 ^ 16 + 0x44 * 2 ^ 24"

section \<open>Requesting\<close>

record create_award_withdrawal_request_operation =
  wq_payment_number :: string
  wq_award_number :: string
  wq_subaward_number :: "string option"
  wq_requester :: string
  wq_amount :: asset
  wq_description :: string
  wq_attachment :: string

definition create_award_withdrawal_request_validate ::
  "fc_lib \<Rightarrow> create_award_withdrawal_request_operation \<Rightarrow> unit result" where
  "create_award_withdrawal_request_validate L op =
     bindE (validate_account_name (wq_requester op)) (\<lambda>_.
     require (amount (wq_amount op) > 0) Bad_amount
    (require (length (wq_description op) > 0) Bad_size
    (require (is_utf8 L (wq_description op)) Bad_text
    (require (is_utf8 L (wq_attachment op)) Bad_text (Inr ())))))"

definition subaward_or_award :: "string \<Rightarrow> string option \<Rightarrow> string" where
  "subaward_or_award number subaward = (case subaward of Some s \<Rightarrow> s | None \<Rightarrow> number)"

definition create_award_withdrawal_request_apply ::
  "fc_lib \<Rightarrow> create_award_withdrawal_request_operation \<Rightarrow> chain \<Rightarrow> chain result" where
  "create_award_withdrawal_request_apply L op c =
     (let number = wq_award_number op; subaward = subaward_or_award number (wq_subaward_number op) in
      require (account_exists (wq_requester op) c) Not_found
     (require (award_exists number c) Not_found
       (bindE (get_award number c) (\<lambda>(ai, award).
        require (symbol (wq_amount op) = symbol (aw_amount award)) Wrong_symbol
       (require (aw_status award = award_approved) Bad_status
       (require (award_recipient_exists number subaward c) Not_found
         (bindE (get_award_recipient number subaward c) (\<lambda>(ri, recipient).
          require (ar_awardee recipient = wq_requester op) Bad_member
         (require (symbol (wq_amount op) = symbol (ar_total_amount recipient)) Wrong_symbol
           (bindE (asset_minus L (ar_total_amount recipient) (ar_total_expenses recipient)) (\<lambda>available.
            bindE (asset_ge available (wq_amount op)) (\<lambda>ge.
            require ge Insufficient_funds
             (create_award_withdrawal_request (wq_payment_number op) number subaward (wq_requester op) (wq_amount op)
                (wq_description op) (head_block_time c) (wq_attachment op) c)))))))))))))"

section \<open>Certifying, approving and rejecting\<close>

record withdrawal_operation =
  wo_payment_number :: string
  wo_award_number :: string
  wo_subaward_number :: "string option"
  wo_actor :: string

definition withdrawal_operation_validate :: "withdrawal_operation \<Rightarrow> unit result" where
  "withdrawal_operation_validate op = validate_account_name (wo_actor op)"

text \<open>How each of the four evaluators begins: it finds the request and the recipient it is of.\<close>

definition open_withdrawal ::
  "withdrawal_operation \<Rightarrow> chain \<Rightarrow> ((nat \<times> award_withdrawal_request_object) \<times> (nat \<times> award_recipient_object)) result" where
  "open_withdrawal op c =
     require (account_exists (wo_actor op) c) Not_found
    (require (award_withdrawal_request_exists (wo_award_number op) (wo_payment_number op) c) Not_found
      (bindE (get_award_withdrawal_request (wo_award_number op) (wo_payment_number op) c) (\<lambda>(wi, withdrawal).
       bindE (get_award_recipient (wo_award_number op) (subaward_or_award (wo_award_number op) (wo_subaward_number op)) c) (\<lambda>(ri, recipient).
       require (ar_awardee recipient = wr_requester withdrawal) Bad_member
        (Inr ((wi, withdrawal), (ri, recipient)))))))"

definition certify_award_withdrawal_request_apply :: "withdrawal_operation \<Rightarrow> chain \<Rightarrow> chain result" where
  "certify_award_withdrawal_request_apply op c =
     bindE (open_withdrawal op c) (\<lambda>((wi, withdrawal), (ri, recipient)).
     require (wr_status withdrawal = withdrawal_pending) Bad_status
      (bindE (get_award (wo_award_number op) c) (\<lambda>_.
         update_award_withdrawal_request wi withdrawal_certified c)))"

definition approve_award_withdrawal_request_apply :: "withdrawal_operation \<Rightarrow> chain \<Rightarrow> chain result" where
  "approve_award_withdrawal_request_apply op c =
     bindE (open_withdrawal op c) (\<lambda>((wi, withdrawal), (ri, recipient)).
     require (wr_status withdrawal = withdrawal_certified) Bad_status
      (bindE (get_funding_opportunity (ar_funding_opportunity_number recipient) c) (\<lambda>_.
         update_award_withdrawal_request wi withdrawal_approved c)))"

definition reject_award_withdrawal_request_apply :: "withdrawal_operation \<Rightarrow> chain \<Rightarrow> chain result" where
  "reject_award_withdrawal_request_apply op c =
     bindE (open_withdrawal op c) (\<lambda>((wi, withdrawal), (ri, recipient)).
     require (wr_status withdrawal = withdrawal_pending \<or> wr_status withdrawal = withdrawal_certified) Bad_status
      (bindE (get_award (wo_award_number op) c) (\<lambda>_.
       bindE (get_funding_opportunity (ar_funding_opportunity_number recipient) c) (\<lambda>_.
         update_award_withdrawal_request wi withdrawal_rejected c))))"

section \<open>Paying\<close>

definition pay_award_withdrawal_request_apply :: "fc_lib \<Rightarrow> withdrawal_operation \<Rightarrow> chain \<Rightarrow> chain result" where
  "pay_award_withdrawal_request_apply L op c =
     bindE (open_withdrawal op c) (\<lambda>((wi, withdrawal), (ri, recipient)).
     require (wr_status withdrawal = withdrawal_approved) Bad_status
      (bindE (get_funding_opportunity (ar_funding_opportunity_number recipient) c) (\<lambda>(fi, foa).
       bindE (get_research_group (fo_treasury_id foa) c) (\<lambda>treasury.
       bindE (asset_minus L (ar_total_amount recipient) (ar_total_expenses recipient)) (\<lambda>available.
       bindE (asset_ge available (wr_amount withdrawal)) (\<lambda>ge.
       require ge Insufficient_funds
        (bindE (get_asset_by_symbol (symbol (wr_amount withdrawal)) c) (\<lambda>(gi, grant_asset).
         bindE (adjust_expenses L ri (wr_amount withdrawal) c) (\<lambda>c1.
         bindE (asset_uminus L (wr_amount withdrawal)) (\<lambda>burnt.
         bindE (adjust_asset_current_supply L gi burnt c1) (\<lambda>c2.
         bindE (asset_times_price L (wr_amount withdrawal)
                  \<lparr>price_base = \<lparr>amount = 1, symbol = DEIP_USD_SYMBOL\<rparr>,
                   price_quote = \<lparr>amount = 1, symbol = symbol (wr_amount withdrawal)\<rparr>\<rparr>) (\<lambda>payout.
         bindE (adjust_account_balance L (wr_requester withdrawal) payout c2) (\<lambda>c3.
         bindE (asset_uminus L payout) (\<lambda>charge.
         bindE (adjust_account_balance L (rg_creator treasury) charge c3) (\<lambda>c4.
           update_award_withdrawal_request wi withdrawal_paid c4)))))))))))))))"

section \<open>Runs\<close>

text \<open>The operations on grants and awards as the chain applies them: validated, then evaluated.\<close>

datatype award_event =
    Create_grant create_grant_operation
  | Create_award create_award_operation
  | Approve_award approve_award_operation
  | Reject_award reject_award_operation
  | Request_withdrawal create_award_withdrawal_request_operation
  | Certify_withdrawal withdrawal_operation
  | Approve_withdrawal withdrawal_operation
  | Reject_withdrawal withdrawal_operation
  | Pay_withdrawal withdrawal_operation

fun apply_award_event :: "fc_lib \<Rightarrow> award_event \<Rightarrow> chain \<Rightarrow> chain result" where
  "apply_award_event L (Create_grant op) c = bindE (create_grant_validate L op) (\<lambda>_. create_grant_apply L op c)"
| "apply_award_event L (Create_award op) c = bindE (create_award_validate L op) (\<lambda>_. create_award_apply L op c)"
| "apply_award_event L (Approve_award op) c = bindE (approve_award_validate op) (\<lambda>_. approve_award_apply L op c)"
| "apply_award_event L (Reject_award op) c = bindE (reject_award_validate op) (\<lambda>_. reject_award_apply op c)"
| "apply_award_event L (Request_withdrawal op) c =
     bindE (create_award_withdrawal_request_validate L op) (\<lambda>_. create_award_withdrawal_request_apply L op c)"
| "apply_award_event L (Certify_withdrawal op) c =
     bindE (withdrawal_operation_validate op) (\<lambda>_. certify_award_withdrawal_request_apply op c)"
| "apply_award_event L (Approve_withdrawal op) c =
     bindE (withdrawal_operation_validate op) (\<lambda>_. approve_award_withdrawal_request_apply op c)"
| "apply_award_event L (Reject_withdrawal op) c =
     bindE (withdrawal_operation_validate op) (\<lambda>_. reject_award_withdrawal_request_apply op c)"
| "apply_award_event L (Pay_withdrawal op) c =
     bindE (withdrawal_operation_validate op) (\<lambda>_. pay_award_withdrawal_request_apply L op c)"

text \<open>Amounts are \<open>share_type\<close>: 64 bits.\<close>

fun event_amounts :: "award_event \<Rightarrow> int list" where
  "event_amounts (Create_grant op) = [amount (cg_amount op)]"
| "event_amounts (Create_award op) = amount (cr_award op) # map (\<lambda>s. amount (sa_subaward s)) (cr_subawardees op)"
| "event_amounts (Request_withdrawal op) = [amount (wq_amount op)]"
| "event_amounts _ = []"

definition run_award_events :: "fc_lib \<Rightarrow> award_event list \<Rightarrow> chain \<Rightarrow> chain result" where
  "run_award_events L = foldE (apply_award_event L)"

fun is_payment :: "award_event \<Rightarrow> bool" where
  "is_payment (Pay_withdrawal op) = True"
| "is_payment _ = False"

section \<open>What the operations do to the requests\<close>

lemma open_withdrawal_D:
  assumes "open_withdrawal op c = Inr ((wi, w), (ri, r))"
  shows "(wi, w) \<in> set (rows (award_withdrawals c)) \<and> (ri, r) \<in> set (rows (award_recipients c)) \<and>
    wr_award_number w = wo_award_number op \<and> wr_payment_number w = wo_payment_number op \<and>
    ar_award_number r = wo_award_number op \<and> ar_awardee r = wr_requester w"
  using assms
  by (auto simp: open_withdrawal_def get_award_withdrawal_request_def find_withdrawal_def get_award_recipient_def
      find_award_recipient_def ok_iff split: prod.splits dest!: find_row_Some)

lemma update_withdrawal_law:
  assumes "update_award_withdrawal_request i st c = Inr c'" "wf_index withdrawal_key (award_withdrawals c)"
    and "(i, w) \<in> set (rows (award_withdrawals c))"
  shows "\<exists>x. c' = c\<lparr>award_withdrawals := x\<rparr> \<and> wf_index withdrawal_key x \<and>
    rows x = upd i (w\<lparr>wr_status := st\<rparr>) (rows (award_withdrawals c))"
proof -
  obtain x where x: "modify withdrawal_key i (\<lambda>w. w\<lparr>wr_status := st\<rparr>) (award_withdrawals c) = Inr x"
    "c' = c\<lparr>award_withdrawals := x\<rparr>"
    using assms(1) by (auto simp: update_award_withdrawal_request_def set_award_withdrawals_def ok_iff)
  then show ?thesis
    using cb.rows_modify_mem [OF assms(2) x(1) assms(3)] cb.wf_modify [OF symp_award_keys(3) assms(2) x(1)] by blast
qed

lemma create_request_law:
  assumes "create_award_withdrawal_request_apply L op c = Inr c'" "wf_index withdrawal_key (award_withdrawals c)"
  shows "\<exists>x i w. c' = c\<lparr>award_withdrawals := x\<rparr> \<and> wf_index withdrawal_key x \<and>
    rows x = rows (award_withdrawals c) @ [(i, w)] \<and> wr_status w = withdrawal_pending \<and>
    wr_amount w = wq_amount op \<and> wr_requester w = wq_requester op \<and> wr_award_number w = wq_award_number op \<and>
    award_exists (wq_award_number op) c"
proof -
  obtain s where cr: "create_award_withdrawal_request (wq_payment_number op) (wq_award_number op) s (wq_requester op)
      (wq_amount op) (wq_description op) (head_block_time c) (wq_attachment op) c = Inr c'"
    and ex: "award_exists (wq_award_number op) c"
    using assms(1) by (simp add: create_award_withdrawal_request_apply_def Let_def ok_iff split: prod.splits) blast
  then obtain i w x where e: "emplace withdrawal_key w (award_withdrawals c) = Inr (i, x)"
    "c' = c\<lparr>award_withdrawals := x\<rparr>" "wr_status w = withdrawal_pending" "wr_amount w = wq_amount op"
    "wr_requester w = wq_requester op" "wr_award_number w = wq_award_number op"
    by (auto simp: create_award_withdrawal_request_def set_award_withdrawals_def ok_iff)
  then show ?thesis
    using cb.emplace_law [OF assms(2) e(1)] cb.wf_emplace [OF symp_award_keys(3) assms(2) e(1)] ex by blast
qed

lemma adjust_frame: "adjust_account_balance L w d c = Inr c' \<Longrightarrow> \<exists>b. c' = c\<lparr>balances := b\<rparr>"
  by (auto simp: adjust_account_balance_def create_account_balance_def set_balances_def ok_iff Let_def
      split: if_splits prod.splits)

lemma adjust_supply_frame:
  "adjust_asset_current_supply L i d c = Inr c' \<Longrightarrow> \<exists>t. c' = c\<lparr>assets := t\<rparr>"
  by (auto simp: adjust_asset_current_supply_def set_assets_def ok_iff)

lemma create_opportunity_frame:
  assumes "create_opportunity L grantor a f c = Inr c'"
  shows "\<exists>b t. c' = c\<lparr>balances := b, grants := t\<rparr> \<and>
    (wf_index grant_key (grants c) \<longrightarrow> (\<exists>xs. rows t = rows (grants c) @ xs))"
proof -
  obtain na c1 i t where c1: "adjust_account_balance L grantor na c = Inr c1"
    and t: "emplace grant_key (f c1) (grants c1) = Inr (i, t)" "c' = c1\<lparr>grants := t\<rparr>"
    using assms(1) by (auto simp: create_opportunity_def set_grants_def ok_iff split: prod.splits)
  obtain b where "c1 = c\<lparr>balances := b\<rparr>"
    using adjust_frame [OF c1] by blast
  then show ?thesis
    using t cb.emplace_law [of grant_key "grants c" "f c1" i t] by (auto intro!: exI [of _ b])
qed

lemma create_supply_frame:
  assumes "create_discipline_supply L grantor a st en target ext hash info c = Inr c'"
  shows "\<exists>b d. c' = c\<lparr>balances := b, discipline_supplies := d\<rparr>"
proof -
  obtain na c1 d where c1: "adjust_account_balance L grantor na c = Inr c1"
    and d: "c' = c1\<lparr>discipline_supplies := d\<rparr>"
    using assms by (auto simp: create_discipline_supply_def Let_def ok_iff split: prod.splits)
  then show ?thesis
    using adjust_frame [OF c1] by auto
qed

lemma create_grant_frame:
  assumes "create_grant_apply L op c = Inr c'"
  shows "\<exists>b t d. c' = c\<lparr>balances := b, grants := t, discipline_supplies := d\<rparr> \<and>
    (wf_index grant_key (grants c) \<longrightarrow> (\<exists>xs. rows t = rows (grants c) @ xs))"
proof -
  obtain targets where d: "distribute_grant L (cg_distribution_model op) op targets c = Inr c'"
    using assms(1) by (auto simp: create_grant_apply_def ok_iff split: prod.splits)
  show ?thesis
  proof (cases "cg_distribution_model op")
    case (application_window w)
    then obtain f where "create_opportunity L (cg_grantor op) (cg_amount op) f c = Inr c'"
      using d by (auto simp: create_grant_with_eci_evaluation_distribution_def ok_iff split: prod.splits)
    from create_opportunity_frame [OF this] obtain b t where
      "c' = c\<lparr>balances := b, grants := t, discipline_supplies := discipline_supplies c\<rparr>"
      "wf_index grant_key (grants c) \<longrightarrow> (\<exists>xs. rows t = rows (grants c) @ xs)"
      by auto
    then show ?thesis
      by blast
  next
    case (opportunity_announcement k)
    then obtain f where "create_opportunity L (cg_grantor op) (cg_amount op) f c = Inr c'"
      using d by (auto simp: create_grant_with_officer_evaluation_distribution_def ok_iff split: prod.splits)
    from create_opportunity_frame [OF this] obtain b t where
      "c' = c\<lparr>balances := b, grants := t, discipline_supplies := discipline_supplies c\<rparr>"
      "wf_index grant_key (grants c) \<longrightarrow> (\<exists>xs. rows t = rows (grants c) @ xs)"
      by auto
    then show ?thesis
      by blast
  next
    case (supply_announcement s)
    with d create_supply_frame obtain b x where
      "c' = c\<lparr>balances := b, grants := grants c, discipline_supplies := x\<rparr>"
      by fastforce
    then show ?thesis
      by (intro exI [of _ b] exI [of _ "grants c"] exI [of _ x]) simp
  qed
qed

end
