(* ===== verification/Award_Runs.thy ===== *)
theory Award_Runs
  imports Award_Withdrawals
begin

text \<open>
  Runs of the operations on grants and awards. Every operation but the payment of a withdrawal
  keeps the books of the awards and the supply of every asset; every operation, payments
  included, keeps the account of what each recipient was paid.
\<close>

section \<open>Without payments\<close>

text \<open>How a withdrawal request moves on.\<close>

inductive withdrawal_edge :: "withdrawal_status \<Rightarrow> withdrawal_status \<Rightarrow> bool" where
  certified: "withdrawal_edge withdrawal_pending withdrawal_certified"
| approved: "withdrawal_edge withdrawal_certified withdrawal_approved"
| rejected: "withdrawal_edge withdrawal_pending withdrawal_rejected"
| rejected_late: "withdrawal_edge withdrawal_certified withdrawal_rejected"
| paid: "withdrawal_edge withdrawal_approved withdrawal_paid"

inductive_simps withdrawal_edge_from:
  "withdrawal_edge withdrawal_pending st" "withdrawal_edge withdrawal_certified st"
  "withdrawal_edge withdrawal_approved st" "withdrawal_edge withdrawal_paid st"
  "withdrawal_edge withdrawal_rejected st"

definition moved_on :: "withdrawal_operation \<Rightarrow> withdrawal_status \<Rightarrow> chain \<Rightarrow> chain \<Rightarrow> bool" where
  "moved_on op st c c' \<longleftrightarrow> (\<exists>wi w x. (wi, w) \<in> set (rows (award_withdrawals c)) \<and>
     wr_award_number w = wo_award_number op \<and> wr_payment_number w = wo_payment_number op \<and>
     withdrawal_edge (wr_status w) st \<and> c' = c\<lparr>award_withdrawals := x\<rparr> \<and> wf_index withdrawal_key x \<and>
     rows x = upd wi (w\<lparr>wr_status := st\<rparr>) (rows (award_withdrawals c)))"

lemma moved_onI:
  assumes "open_withdrawal op c = Inr ((wi, w), (ri, r))" "update_award_withdrawal_request wi st c = Inr c'"
    and "withdrawal_edge (wr_status w) st" "wf_index withdrawal_key (award_withdrawals c)"
  shows "moved_on op st c c'"
proof -
  note o = open_withdrawal_D [OF assms(1)]
  then show ?thesis
    using update_withdrawal_law [OF assms(2,4), of w] assms(3) unfolding moved_on_def by blast
qed

lemma certify_D:
  "certify_award_withdrawal_request_apply op c = Inr c' \<Longrightarrow> wf_index withdrawal_key (award_withdrawals c) \<Longrightarrow>
   moved_on op withdrawal_certified c c'"
  by (auto simp: certify_award_withdrawal_request_apply_def ok_iff withdrawal_edge_from
      intro!: moved_onI split: prod.splits)

lemma approve_D:
  "approve_award_withdrawal_request_apply op c = Inr c' \<Longrightarrow> wf_index withdrawal_key (award_withdrawals c) \<Longrightarrow>
   moved_on op withdrawal_approved c c'"
  by (auto simp: approve_award_withdrawal_request_apply_def ok_iff withdrawal_edge_from
      intro!: moved_onI split: prod.splits)

lemma reject_D:
  "reject_award_withdrawal_request_apply op c = Inr c' \<Longrightarrow> wf_index withdrawal_key (award_withdrawals c) \<Longrightarrow>
   moved_on op withdrawal_rejected c c'"
  by (auto simp: reject_award_withdrawal_request_apply_def ok_iff withdrawal_edge_from
      intro!: moved_onI split: prod.splits)

lemma awards_ok_withdrawals:
  assumes "awards_ok L c" "c' = c\<lparr>award_withdrawals := x\<rparr>" "wf_index withdrawal_key x"
  shows "awards_ok L c' \<and> circulating c' s = circulating c s"
  by (rule awards_ok_status [where u = "award_recipients c" and t = "awards c" and x = x])
    (use assms in \<open>simp_all add: awards_ok_def\<close>)

lemma awards_ok_moved: "awards_ok L c \<Longrightarrow> moved_on op st c c' \<Longrightarrow> awards_ok L c' \<and> circulating c' s = circulating c s"
  unfolding moved_on_def using awards_ok_withdrawals by blast

lemma grant_event_law:
  assumes "create_grant_apply L op c = Inr c'" "create_grant_validate L op = Inr ()" "awards_ok L c"
    and "int64 (amount (cg_amount op))"
  shows "awards_ok L c' \<and> circulating c' s = circulating c s"
proof -
  have g: "grants_ok L c" "wf_index grant_key (grants c)"
    using assms(3) by (auto simp: awards_ok_def grants_ok_def)
  have law: "grants_ok L c'" "circulating c' s = circulating c s"
    using create_grant_law [OF assms(1,2) g(1) assms(4)] by (auto simp: paid_in_def)
  obtain b t d xs where c': "c' = c\<lparr>balances := b, grants := t, discipline_supplies := d\<rparr>" "rows t = rows (grants c) @ xs"
    using create_grant_frame [OF assms(1)] g(2) by blast
  have "awards_ok L c'"
    by (rule awards_ok_keep [OF assms(3) law(1)])
      (use assms(3) in \<open>auto simp: c' opportunities_def awards_ok_def\<close>)
  then show ?thesis
    using law(2) by blast
qed

lemma award_event_law:
  assumes "apply_award_event L e c = Inr c'" "awards_ok L c" "\<forall>a\<in>set (event_amounts e). int64 a" "\<not> is_payment e"
  shows "awards_ok L c' \<and> circulating c' s = circulating c s"
proof -
  have wf: "wf_index withdrawal_key (award_withdrawals c)"
    using assms(2) by (simp add: awards_ok_def)
  show ?thesis
  proof (cases e)
    case (Create_grant op)
    then show ?thesis
      using assms by (intro grant_event_law) (auto simp: ok_iff)
  next
    case (Create_award op)
    then have "create_award_apply L op c = Inr c'" "create_award_validate L op = Inr ()"
      using assms(1) by (auto simp: ok_iff)
    from create_award_law [OF this assms(2)] Create_award assms(3) show ?thesis
      by simp
  next
    case (Approve_award op)
    then have "approve_award_apply L op c = Inr c'"
      using assms(1) by (auto simp: ok_iff)
    from approve_award_law [OF this assms(2)] show ?thesis
      by blast
  next
    case (Reject_award op)
    then have "reject_award_apply op c = Inr c'" "wf_index award_recipient_key (award_recipients c)"
      "wf_index award_key (awards c)" "wf_index withdrawal_key (award_withdrawals c)"
      using assms by (auto simp: ok_iff awards_ok_def)
    note r = this
    obtain t u where u: "c' = c\<lparr>award_recipients := u, awards := t\<rparr>" "wf_index award_recipient_key u" "wf_index award_key t"
      "map recipient_strip (rows u) = map recipient_strip (rows (award_recipients c))"
      "map award_strip (rows t) = map award_strip (rows (awards c))"
      using reject_award_D [OF r(1-3)] by blast
    show ?thesis
      by (rule awards_ok_status [OF assms(2) _ u(2,3) r(4) u(4,5)]) (simp add: u(1))
  next
    case (Request_withdrawal op)
    then have "create_award_withdrawal_request_apply L op c = Inr c'" "wf_index withdrawal_key (award_withdrawals c)"
      using assms by (auto simp: ok_iff awards_ok_def)
    from create_request_law [OF this] show ?thesis
      using awards_ok_withdrawals [OF assms(2)] by blast
  next
    case (Certify_withdrawal op)
    then have "certify_award_withdrawal_request_apply op c = Inr c'"
      using assms(1) by (auto simp: ok_iff)
    then show ?thesis
      by (rule awards_ok_moved [OF assms(2) certify_D [OF _ wf]])
  next
    case (Approve_withdrawal op)
    then have "approve_award_withdrawal_request_apply op c = Inr c'"
      using assms(1) by (auto simp: ok_iff)
    then show ?thesis
      by (rule awards_ok_moved [OF assms(2) approve_D [OF _ wf]])
  next
    case (Reject_withdrawal op)
    then have "reject_award_withdrawal_request_apply op c = Inr c'"
      using assms(1) by (auto simp: ok_iff)
    then show ?thesis
      by (rule awards_ok_moved [OF assms(2) reject_D [OF _ wf]])
  next
    case (Pay_withdrawal op)
    then show ?thesis
      using assms(4) by simp
  qed
qed

lemma award_run_law:
  assumes "run_award_events L es c = Inr c'" "awards_ok L c"
    and "\<forall>e\<in>set es. \<not> is_payment e \<and> (\<forall>a\<in>set (event_amounts e). int64 a)"
  shows "awards_ok L c' \<and> circulating c' s = circulating c s"
  using assms unfolding run_award_events_def
proof (induction es arbitrary: c)
  case (Cons e es)
  then obtain c1 where c1: "apply_award_event L e c = Inr c1" "foldE (apply_award_event L) es c1 = Inr c'"
    by (auto simp: ok_iff)
  show ?case
    using award_event_law [OF c1(1) Cons.prems(2)] Cons.IH [OF c1(2)] Cons.prems(3) by simp
qed simp

section \<open>What the recipients were paid\<close>

definition paid_out :: "string \<Rightarrow> string \<Rightarrow> award_withdrawal_request_object \<Rightarrow> int" where
  "paid_out n v w = (if wr_status w = withdrawal_paid \<and> wr_award_number w = n \<and> wr_requester w = v
     then amount (wr_amount w) else 0)"

definition paid_to :: "string \<Rightarrow> string \<Rightarrow> chain \<Rightarrow> int" where
  "paid_to n v c = sum_rows (paid_out n v) (rows (award_withdrawals c))"

definition has_award :: "chain \<Rightarrow> string \<Rightarrow> bool" where
  "has_award c n \<longleftrightarrow> n \<in> (\<lambda>p. aw_award_number (snd p)) ` set (rows (awards c))"

definition share_of_award :: "nat \<times> award_recipient_object \<Rightarrow> string \<times> string" where
  "share_of_award p = (ar_award_number (snd p), ar_awardee (snd p))"

definition payments_ok :: "chain \<Rightarrow> bool" where
  "payments_ok c \<longleftrightarrow> wf_index award_key (awards c) \<and> wf_index award_recipient_key (award_recipients c) \<and>
     wf_index withdrawal_key (award_withdrawals c) \<and> distinct (map share_of_award (rows (award_recipients c))) \<and>
     (\<forall>p\<in>set (rows (award_recipients c)). recipient_ok (snd p) \<and> has_award c (ar_award_number (snd p)) \<and>
        amount (ar_total_expenses (snd p)) = paid_to (ar_award_number (snd p)) (ar_awardee (snd p)) c) \<and>
     (\<forall>p\<in>set (rows (award_withdrawals c)). 0 < amount (wr_amount (snd p)) \<and> int64 (amount (wr_amount (snd p))) \<and>
        has_award c (wr_award_number (snd p)))"

lemma payments_ok_status:
  assumes ok: "payments_ok c" and x: "award_withdrawals c' = award_withdrawals c"
    and wf: "wf_index award_key (awards c')" "wf_index award_recipient_key (award_recipients c')"
    and t: "map award_strip (rows (awards c')) = map award_strip (rows (awards c))"
    and u: "map recipient_strip (rows (award_recipients c')) = map recipient_strip (rows (award_recipients c))"
  shows "payments_ok c'"
proof -
  have "map (\<lambda>p. aw_award_number (snd p)) ps = map (\<lambda>p. aw_award_number (snd p)) (map award_strip ps)" for ps
    by (simp add: award_strip_def)
  then have "map (\<lambda>p. aw_award_number (snd p)) (rows (awards c')) = map (\<lambda>p. aw_award_number (snd p)) (rows (awards c))"
    using t by metis
  then have h: "has_award c' n \<longleftrightarrow> has_award c n" for n
    unfolding has_award_def by (metis list.set_map)
  have p: "paid_to n v c' = paid_to n v c" for n v
    by (simp add: paid_to_def x)
  have "map share_of_award ps = map share_of_award (map recipient_strip ps)" for ps
    by (simp add: share_of_award_def recipient_strip_def)
  then have "map share_of_award (rows (award_recipients c')) = map share_of_award (rows (award_recipients c))"
    using u by metis
  moreover have "\<forall>p\<in>set (rows (award_recipients c')). recipient_ok (snd p) \<and> has_award c (ar_award_number (snd p)) \<and>
        amount (ar_total_expenses (snd p)) = paid_to (ar_award_number (snd p)) (ar_awardee (snd p)) c"
  proof (rule strip_all [OF u [symmetric]])
    show "\<forall>p\<in>set (rows (award_recipients c)). recipient_ok (snd p) \<and> has_award c (ar_award_number (snd p)) \<and>
        amount (ar_total_expenses (snd p)) = paid_to (ar_award_number (snd p)) (ar_awardee (snd p)) c"
      using ok by (simp add: payments_ok_def)
  qed (simp add: recipient_strip_def recipient_ok_def)
  ultimately show ?thesis
    using ok wf by (simp add: payments_ok_def h p x)
qed

text \<open>A request that moves on, short of payment.\<close>

lemma all_upd: "\<forall>p\<in>set xs. P (snd p) \<Longrightarrow> P v \<Longrightarrow> \<forall>p\<in>set (upd i v xs). P (snd p)"
  by (auto dest: set_upd)

lemma payments_ok_request:
  assumes ok: "payments_ok c" and c': "c' = c\<lparr>award_withdrawals := x\<rparr>" "wf_index withdrawal_key x"
    and same: "\<And>n v. sum_rows (paid_out n v) (rows x) = paid_to n v c"
    and all: "\<forall>p\<in>set (rows x). 0 < amount (wr_amount (snd p)) \<and> int64 (amount (wr_amount (snd p))) \<and>
        has_award c (wr_award_number (snd p))"
  shows "payments_ok c'"
  using ok c'(2) same all by (simp add: payments_ok_def c'(1) paid_to_def has_award_def)

lemma payments_ok_moved:
  assumes ok: "payments_ok c" and m: "moved_on op st c c'" and st: "st \<noteq> withdrawal_paid"
  shows "payments_ok c'"
proof -
  obtain wi w x where w: "(wi, w) \<in> set (rows (award_withdrawals c))" "withdrawal_edge (wr_status w) st"
    "c' = c\<lparr>award_withdrawals := x\<rparr>" "wf_index withdrawal_key x"
    "rows x = upd wi (w\<lparr>wr_status := st\<rparr>) (rows (award_withdrawals c))"
    using m unfolding moved_on_def by blast
  have wf: "wf_index withdrawal_key (award_withdrawals c)"
    using ok by (simp add: payments_ok_def)
  have "wr_status w \<noteq> withdrawal_paid"
    using w(2) by (auto simp: withdrawal_edge_from)
  then have "sum_rows (paid_out n v) (rows x) = paid_to n v c" for n v
    using sum_rows_upd [OF cb.rows_sorted [OF wf], of wi w] cb.mem_map_of [OF wf] w(1) st
    by (simp add: w(5) paid_to_def paid_out_def)
  moreover have "\<forall>p\<in>set (rows x). 0 < amount (wr_amount (snd p)) \<and> int64 (amount (wr_amount (snd p))) \<and>
      has_award c (wr_award_number (snd p))"
    unfolding w(5) by (rule all_upd) (use ok w(1) in \<open>auto simp: payments_ok_def\<close>)
  ultimately show ?thesis
    by (rule payments_ok_request [OF ok w(3,4)])
qed

end
