(* ===== verification/Award_Payments.thy ===== *)
theory Award_Payments
  imports Award_Runs
begin

text \<open>
  Payments of withdrawals: what a payment does to the books, and the account every run keeps of
  what each recipient was paid.
\<close>

section \<open>A payment\<close>

lemma scale_int64: "scale L v to by = Inr a \<Longrightarrow> int64 (amount a)"
  using sint_ge [where 'a = 64] sint_lt [where 'a = 64] by (auto simp: scale_def int64_def ok_iff)

lemma times_price_int64: "asset_times_price L a p = Inr b \<Longrightarrow> int64 (amount b)"
  by (auto simp: asset_times_price_def ok_iff dest: scale_int64 split: if_splits)

lemma sym_bytes_USD: "sym_bytes DEIP_USD_SYMBOL = [2, 85, 83, 68, 0, 0, 0, 0]"
proof -
  have eq: "DEIP_USD_SYMBOL = of_bytes [2, 85, 83, 68, 0, 0, 0, 0]"
    by (simp add: DEIP_USD_SYMBOL_def of_bytes_def)
  show ?thesis
    unfolding eq by (rule sym_of_bytes) simp_all
qed

lemma symbol_name_USD: "symbol_name DEIP_USD_SYMBOL = Inr ''USD''"
proof -
  have "map char_of [85, 83, 68 :: nat] = ''USD''"
    by code_simp
  then show ?thesis
    by (simp add: symbol_name_def sym_bytes_USD)
qed

text \<open>The payout is the same amount in mock dollars.\<close>

lemma usd_payout:
  assumes "u128_ok L" "0 \<le> amount a" "int64 (amount a)" "symbol_name (symbol a) = Inr n" "n \<noteq> ''USD''"
  shows "asset_times_price L a \<lparr>price_base = \<lparr>amount = 1, symbol = DEIP_USD_SYMBOL\<rparr>,
      price_quote = \<lparr>amount = 1, symbol = symbol a\<rparr>\<rparr> = Inr \<lparr>amount = amount a, symbol = DEIP_USD_SYMBOL\<rparr>"
  using assms scale_floor [OF assms(1-3), of "\<lparr>amount = 1, symbol = DEIP_USD_SYMBOL\<rparr>" 1]
  by (simp add: asset_times_price_def symbol_name_USD int64_iff)

lemma adjust_expenses_D:
  assumes "adjust_expenses L ri d c = Inr c'" "safe_ok L" "wf_index award_recipient_key (award_recipients c)"
    and "(ri, r) \<in> set (rows (award_recipients c))" "int64 (amount (ar_total_expenses r))" "int64 (amount d)"
  shows "\<exists>u. c' = c\<lparr>award_recipients := u\<rparr> \<and> wf_index award_recipient_key u \<and>
    symbol d = symbol (ar_total_expenses r) \<and>
    rows u = upd ri (r\<lparr>ar_total_expenses :=
      \<lparr>amount = amount (ar_total_expenses r) + amount d, symbol = symbol (ar_total_expenses r)\<rparr>\<rparr>) (rows (award_recipients c))"
proof -
  have "lookup (award_recipients c) ri = Some r"
    using cb.mem_map_of [OF assms(3)] assms(4) by (simp add: lookup_def)
  then obtain e u where e: "asset_plus L (ar_total_expenses r) d = Inr e"
    "modify award_recipient_key ri (\<lambda>r. r\<lparr>ar_total_expenses := e\<rparr>) (award_recipients c) = Inr u"
    "c' = c\<lparr>award_recipients := u\<rparr>"
    using assms(1) by (auto simp: adjust_expenses_def get_award_recipient_by_id_def set_award_recipients_def ok_iff)
  then show ?thesis
    using plus_D [OF e(1) assms(2,5,6)] cb.rows_modify_mem [OF assms(3) e(2) assms(4)]
      cb.wf_modify [OF symp_award_keys(2) assms(3) e(2)] by auto
qed

lemma pay_D:
  assumes "pay_award_withdrawal_request_apply L op c = Inr c'"
  obtains wi w ri r fi f uni available ge gi ga c1 burnt c2 payout c3 charge c4 where
    "open_withdrawal op c = Inr ((wi, w), (ri, r))" "wr_status w = withdrawal_approved"
    "get_funding_opportunity (ar_funding_opportunity_number r) c = Inr (fi, f)"
    "get_research_group (fo_treasury_id f) c = Inr uni"
    "asset_minus L (ar_total_amount r) (ar_total_expenses r) = Inr available"
    "asset_ge available (wr_amount w) = Inr ge" "ge"
    "get_asset_by_symbol (symbol (wr_amount w)) c = Inr (gi, ga)"
    "adjust_expenses L ri (wr_amount w) c = Inr c1"
    "asset_uminus L (wr_amount w) = Inr burnt" "adjust_asset_current_supply L gi burnt c1 = Inr c2"
    "asset_times_price L (wr_amount w) \<lparr>price_base = \<lparr>amount = 1, symbol = DEIP_USD_SYMBOL\<rparr>,
       price_quote = \<lparr>amount = 1, symbol = symbol (wr_amount w)\<rparr>\<rparr> = Inr payout"
    "adjust_account_balance L (wr_requester w) payout c2 = Inr c3"
    "asset_uminus L payout = Inr charge" "adjust_account_balance L (rg_creator uni) charge c3 = Inr c4"
    "update_award_withdrawal_request wi withdrawal_paid c4 = Inr c'"
  using assms
  by (simp add: pay_award_withdrawal_request_apply_def ok_iff split: prod.splits)
    (elim exE conjE, rule that; assumption)

lemma pay_books:
  assumes ap: "pay_award_withdrawal_request_apply L op c = Inr c'" and L: "safe_ok L"
    and wf: "wf_index award_recipient_key (award_recipients c)" "wf_index withdrawal_key (award_withdrawals c)"
    and ok: "\<forall>p\<in>set (rows (award_recipients c)). recipient_ok (snd p)"
      "\<forall>p\<in>set (rows (award_withdrawals c)). 0 < amount (wr_amount (snd p)) \<and> int64 (amount (wr_amount (snd p)))"
  shows "awards c' = awards c \<and> wf_index award_recipient_key (award_recipients c') \<and>
    wf_index withdrawal_key (award_withdrawals c') \<and>
    (\<exists>wi w ri r. (wi, w) \<in> set (rows (award_withdrawals c)) \<and> (ri, r) \<in> set (rows (award_recipients c)) \<and>
       wr_award_number w = wo_award_number op \<and> wr_payment_number w = wo_payment_number op \<and>
       ar_award_number r = wr_award_number w \<and> ar_awardee r = wr_requester w \<and> wr_status w = withdrawal_approved \<and>
       amount (ar_total_expenses r) + amount (wr_amount w) \<le> amount (ar_total_amount r) \<and>
       rows (award_withdrawals c') = upd wi (w\<lparr>wr_status := withdrawal_paid\<rparr>) (rows (award_withdrawals c)) \<and>
       rows (award_recipients c') = upd ri (r\<lparr>ar_total_expenses :=
         \<lparr>amount = amount (ar_total_expenses r) + amount (wr_amount w), symbol = symbol (ar_total_expenses r)\<rparr>\<rparr>)
         (rows (award_recipients c)))"
proof -
  obtain wi w ri r available ge gi c1 burnt c2 payout c3 charge c4 and uni :: research_group_object where
    o: "open_withdrawal op c = Inr ((wi, w), (ri, r))" "wr_status w = withdrawal_approved"
    and av: "asset_minus L (ar_total_amount r) (ar_total_expenses r) = Inr available"
      "asset_ge available (wr_amount w) = Inr ge" "ge"
    and c1: "adjust_expenses L ri (wr_amount w) c = Inr c1"
    and c2: "adjust_asset_current_supply L gi burnt c1 = Inr c2"
    and c3: "adjust_account_balance L (wr_requester w) payout c2 = Inr c3"
    and c4: "adjust_account_balance L (rg_creator uni) charge c3 = Inr c4"
    and c5: "update_award_withdrawal_request wi withdrawal_paid c4 = Inr c'"
    by (rule pay_D [OF ap])
  note m = open_withdrawal_D [OF o(1)]
  have wi: "(wi, w) \<in> set (rows (award_withdrawals c))" and ri: "(ri, r) \<in> set (rows (award_recipients c))"
    using m by auto
  have r: "recipient_ok r" and w: "0 < amount (wr_amount w)" "int64 (amount (wr_amount w))"
    using ok wi ri by auto
  then have i: "int64 (amount (ar_total_amount r))" "int64 (amount (ar_total_expenses r))"
    by (auto simp: recipient_ok_def int64_iff)
  have le: "amount (ar_total_expenses r) + amount (wr_amount w) \<le> amount (ar_total_amount r)"
    using minus_D [OF av(1) L i] ge_D [OF av(2)] av(3) by auto
  obtain u where u: "c1 = c\<lparr>award_recipients := u\<rparr>" "wf_index award_recipient_key u"
    "rows u = upd ri (r\<lparr>ar_total_expenses :=
      \<lparr>amount = amount (ar_total_expenses r) + amount (wr_amount w), symbol = symbol (ar_total_expenses r)\<rparr>\<rparr>)
      (rows (award_recipients c))"
    using adjust_expenses_D [OF c1 L wf(1) ri i(2) w(2)] by blast
  obtain t b1 b2 where t: "c2 = c1\<lparr>assets := t\<rparr>" "c3 = c2\<lparr>balances := b1\<rparr>" "c4 = c3\<lparr>balances := b2\<rparr>"
    using adjust_supply_frame [OF c2] adjust_frame [OF c3] adjust_frame [OF c4] by blast
  have c4': "award_withdrawals c4 = award_withdrawals c" "award_recipients c4 = u" "awards c4 = awards c"
    by (simp_all add: t u(1))
  obtain x where x: "c' = c4\<lparr>award_withdrawals := x\<rparr>" "wf_index withdrawal_key x"
    "rows x = upd wi (w\<lparr>wr_status := withdrawal_paid\<rparr>) (rows (award_withdrawals c))"
    using update_withdrawal_law [OF c5, of w] wf(2) wi by (auto simp: c4')
  have "awards c' = awards c" "award_recipients c' = u" "award_withdrawals c' = x"
    by (simp_all add: x(1) c4')
  then show ?thesis
    using wi ri m o(2) le u(2,3) x(2,3)
    by (intro conjI exI [of _ wi] exI [of _ w] exI [of _ ri] exI [of _ r]) simp_all
qed

lemma payments_ok_pay:
  assumes ap: "pay_award_withdrawal_request_apply L op c = Inr c'" and L: "safe_ok L" and ok: "payments_ok c"
  shows "payments_ok c'"
proof -
  have wf: "wf_index award_recipient_key (award_recipients c)" "wf_index withdrawal_key (award_withdrawals c)"
    and rok: "\<forall>p\<in>set (rows (award_recipients c)). recipient_ok (snd p)"
    and wok: "\<forall>p\<in>set (rows (award_withdrawals c)). 0 < amount (wr_amount (snd p)) \<and> int64 (amount (wr_amount (snd p)))"
    and dist: "distinct (map share_of_award (rows (award_recipients c)))"
    using ok by (auto simp: payments_ok_def)
  obtain wi w ri and r :: award_recipient_object where
    f: "awards c' = awards c" "wf_index award_recipient_key (award_recipients c')" "wf_index withdrawal_key (award_withdrawals c')"
    and wi: "(wi, w) \<in> set (rows (award_withdrawals c))" and ri: "(ri, r) \<in> set (rows (award_recipients c))"
    and who: "ar_award_number r = wr_award_number w" "ar_awardee r = wr_requester w" "wr_status w = withdrawal_approved"
    and le: "amount (ar_total_expenses r) + amount (wr_amount w) \<le> amount (ar_total_amount r)"
    and x: "rows (award_withdrawals c') = upd wi (w\<lparr>wr_status := withdrawal_paid\<rparr>) (rows (award_withdrawals c))"
    and u: "rows (award_recipients c') = upd ri (r\<lparr>ar_total_expenses :=
         \<lparr>amount = amount (ar_total_expenses r) + amount (wr_amount w), symbol = symbol (ar_total_expenses r)\<rparr>\<rparr>)
         (rows (award_recipients c))"
    using pay_books [OF ap L wf rok wok] by blast
  let ?r = "r\<lparr>ar_total_expenses :=
      \<lparr>amount = amount (ar_total_expenses r) + amount (wr_amount w), symbol = symbol (ar_total_expenses r)\<rparr>\<rparr>"
  have mem: "map_of (rows (award_withdrawals c)) wi = Some w" "map_of (rows (award_recipients c)) ri = Some r"
    using cb.mem_map_of [OF wf(2)] cb.mem_map_of [OF wf(1)] wi ri by auto
  have paid: "paid_to n v c' = paid_to n v c + (if n = wr_award_number w \<and> v = wr_requester w then amount (wr_amount w) else 0)" for n v
    using sum_rows_upd [OF cb.rows_sorted [OF wf(2)] mem(1)] who(3) by (simp add: paid_to_def x paid_out_def)
  have h: "has_award c' n \<longleftrightarrow> has_award c n" for n
    by (simp add: has_award_def f(1))
  have shares: "map share_of_award (rows (award_recipients c')) = map share_of_award (rows (award_recipients c))"
    unfolding u by (rule map_upd_same [OF cb.rows_sorted [OF wf(1)] mem(2)]) (simp add: share_of_award_def)
  have w0: "0 < amount (wr_amount w)" "0 \<le> amount (ar_total_expenses r)"
    using wok wi rok ri by (auto simp: recipient_ok_def)
  have old: "recipient_ok (snd p) \<and> has_award c (ar_award_number (snd p)) \<and>
      amount (ar_total_expenses (snd p)) = paid_to (ar_award_number (snd p)) (ar_awardee (snd p)) c"
    if "p \<in> set (rows (award_recipients c))" for p
    using ok that by (auto simp: payments_ok_def)
  have "recipient_ok (snd p) \<and> has_award c' (ar_award_number (snd p)) \<and>
      amount (ar_total_expenses (snd p)) = paid_to (ar_award_number (snd p)) (ar_awardee (snd p)) c'"
    if p: "p \<in> set (rows (award_recipients c'))" for p
  proof (cases "fst p = ri")
    case True
    have "(fst p, snd p) \<in> set (rows (award_recipients c'))"
      using p by simp
    then have "snd p = ?r"
      unfolding cb.mem_map_of [OF f(2)] using True mem(2) by (simp add: u map_of_upd)
    then show ?thesis
      using old [OF ri] le w0 who by (auto simp: recipient_ok_def paid h)
  next
    case False
    then have p': "p \<in> set (rows (award_recipients c))"
      using p set_upd [of "fst p" "snd p"] unfolding u by (metis prod.collapse)
    then have "share_of_award p \<noteq> share_of_award (ri, r)"
      using dist ri False unfolding distinct_map by (metis fst_conv inj_onD)
    then show ?thesis
      using old [OF p'] who by (auto simp: share_of_award_def paid h)
  qed
  moreover have "\<forall>p\<in>set (rows (award_withdrawals c')). 0 < amount (wr_amount (snd p)) \<and>
      int64 (amount (wr_amount (snd p))) \<and> has_award c' (wr_award_number (snd p))"
    unfolding x by (rule all_upd) (use ok wi in \<open>auto simp: payments_ok_def h\<close>)
  ultimately show ?thesis
    using ok f dist by (simp add: payments_ok_def shares)
qed

section \<open>The other operations\<close>

lemma paid_to_none:
  assumes "\<forall>p\<in>set (rows (award_withdrawals c)). wr_award_number (snd p) \<noteq> n"
  shows "paid_to n v c = 0"
proof -
  have "\<forall>p\<in>set xs. wr_award_number (snd p) \<noteq> n \<Longrightarrow> sum_rows (paid_out n v) xs = 0" for xs
    by (induction xs) (auto simp: paid_out_def)
  then show ?thesis
    using assms by (simp add: paid_to_def)
qed

lemma payments_ok_create_award:
  assumes ap: "create_award_apply L op c = Inr c'" and v: "create_award_validate L op = Inr ()" and L: "safe_ok L"
    and ok: "payments_ok c"
    and i: "int64 (amount (cr_award op))" "\<forall>s\<in>set (cr_subawardees op). int64 (amount (sa_subaward s))"
  shows "payments_ok c'"
proof -
  let ?ks = "cr_awardee op # map sa_subawardee (cr_subawardees op)" and ?n = "cr_award_number op"
  have wf: "wf_index award_key (awards c)" "wf_index award_recipient_key (award_recipients c)"
    "wf_index withdrawal_key (award_withdrawals c)"
    using ok by (auto simp: payments_ok_def)
  obtain ai a t u rs m where c': "c' = c\<lparr>awards := t, award_recipients := u\<rparr>" "wf_index award_key t"
    "wf_index award_recipient_key u" "rows t = rows (awards c) @ [(ai, a)]" "rows u = rows (award_recipients c) @ rs"
    "aw_award_number a = ?n" and made: "made_for ?n m ?ks rs"
    and keeps: "\<forall>w\<in>set ?ks. symbol (map_get m w) = symbol (cr_award op) \<and> int64 (amount (map_get m w))"
    and dist: "distinct ?ks"
    by (rule create_award_D [OF ap v L wf(1,2) i])
  have h: "has_award c' n \<longleftrightarrow> n = ?n \<or> has_award c n" for n
    by (auto simp: has_award_def c'(1,4,6))
  have fresh: "\<not> has_award c ?n"
    using award_number_fresh [OF c'(2,4)] by (force simp: has_award_def c'(6))
  have paid: "paid_to n w c' = paid_to n w c" for n w
    by (simp add: paid_to_def c'(1))
  have none: "paid_to ?n w c = 0" for w
    by (rule paid_to_none) (use ok fresh in \<open>auto simp: payments_ok_def\<close>)
  have new: "recipient_ok (snd p) \<and> ar_award_number (snd p) = ?n \<and> amount (ar_total_expenses (snd p)) = 0"
    if p: "p \<in> set rs" for p
  proof -
    have "ar_awardee (snd p) \<in> set ?ks"
      using made p unfolding made_for_def by (metis (no_types, lifting) image_eqI list.set_map)
    then show ?thesis
      using made p keeps by (auto simp: made_for_def recipient_ok_def)
  qed
  have old: "recipient_ok (snd p) \<and> has_award c (ar_award_number (snd p)) \<and>
      amount (ar_total_expenses (snd p)) = paid_to (ar_award_number (snd p)) (ar_awardee (snd p)) c"
    if "p \<in> set (rows (award_recipients c))" for p
    using ok that by (auto simp: payments_ok_def)
  have "map share_of_award rs = map (Pair ?n) (map (\<lambda>p. ar_awardee (snd p)) rs)"
    using new by (simp add: share_of_award_def)
  also have "map (\<lambda>p. ar_awardee (snd p)) rs = ?ks"
    using made by (simp add: made_for_def)
  finally have "map share_of_award rs = map (Pair ?n) ?ks" .
  then have "distinct (map share_of_award rs)" "\<forall>x\<in>set (map share_of_award rs). fst x = ?n"
    using dist by (simp_all only: distinct_map inj_on_def) auto
  moreover have "fst x \<noteq> ?n" if x: "x \<in> set (map share_of_award (rows (award_recipients c)))" for x
  proof -
    obtain p where "p \<in> set (rows (award_recipients c))" "x = share_of_award p"
      using x by auto
    then show ?thesis
      using old [of p] fresh by (auto simp: share_of_award_def)
  qed
  ultimately have "distinct (map share_of_award rs)"
    "set (map share_of_award (rows (award_recipients c))) \<inter> set (map share_of_award rs) = {}"
    by blast+
  then have "distinct (map share_of_award (rows u))"
    using ok by (simp add: payments_ok_def c'(5))
  moreover have "\<forall>p\<in>set (rows u). recipient_ok (snd p) \<and> has_award c' (ar_award_number (snd p)) \<and>
      amount (ar_total_expenses (snd p)) = paid_to (ar_award_number (snd p)) (ar_awardee (snd p)) c'"
    using old new by (auto simp: c'(5) h paid none)
  ultimately show ?thesis
    using ok wf(3) c'(2,3) unfolding payments_ok_def by (simp add: c'(1) h [unfolded c'(1)])
qed

lemma payments_ok_new_request:
  assumes ap: "create_award_withdrawal_request_apply L op c = Inr c'"
    and v: "create_award_withdrawal_request_validate L op = Inr ()" and ok: "payments_ok c"
    and i: "int64 (amount (wq_amount op))"
  shows "payments_ok c'"
proof -
  have wf: "wf_index withdrawal_key (award_withdrawals c)"
    using ok by (simp add: payments_ok_def)
  obtain x i w where w: "c' = c\<lparr>award_withdrawals := x\<rparr>" "wf_index withdrawal_key x"
    "rows x = rows (award_withdrawals c) @ [(i, w)]" "wr_status w = withdrawal_pending"
    "wr_amount w = wq_amount op" "wr_award_number w = wq_award_number op" "award_exists (wq_award_number op) c"
    using create_request_law [OF ap wf] by blast
  have "0 < amount (wq_amount op)"
    using v by (auto simp: create_award_withdrawal_request_validate_def ok_iff)
  moreover have "has_award c (wq_award_number op)"
    using w(7) by (force simp: award_exists_def find_award_def has_award_def dest: find_row_Some)
  ultimately have "\<forall>p\<in>set (rows x). 0 < amount (wr_amount (snd p)) \<and> int64 (amount (wr_amount (snd p))) \<and>
      has_award c (wr_award_number (snd p))"
    using ok assms(4) w(3,5,6) by (auto simp: payments_ok_def)
  then show ?thesis
    by (intro payments_ok_request [OF ok w(1,2)]) (simp_all add: w(3,4) paid_to_def paid_out_def)
qed

lemma approve_award_frame:
  assumes ap: "approve_award_apply L op c = Inr c'"
    and wf: "wf_index award_recipient_key (award_recipients c)" "wf_index award_key (awards c)"
  shows "award_withdrawals c' = award_withdrawals c \<and> wf_index award_key (awards c') \<and>
    wf_index award_recipient_key (award_recipients c') \<and>
    map award_strip (rows (awards c')) = map award_strip (rows (awards c)) \<and>
    map recipient_strip (rows (award_recipients c')) = map recipient_strip (rows (award_recipients c))"
proof -
  have pay: "award_withdrawals d' = award_withdrawals d \<and> awards d' = awards d \<and>
      wf_index award_recipient_key (award_recipients d') \<and>
      map recipient_strip (rows (award_recipients d')) = map recipient_strip (rows (award_recipients d))"
    if "foldE (pay_recipient L) ps d = Inr d'" "wf_index award_recipient_key (award_recipients d)" for ps d d'
    using that
  proof (induction ps arbitrary: d)
    case (Cons p ps)
    obtain d1 d2 where d: "adjust_account_balance L (ar_awardee (snd p)) (ar_total_amount (snd p)) d = Inr d1"
      "update_award_recipient_status (fst p) recipient_confirmed d1 = Inr d2" "foldE (pay_recipient L) ps d2 = Inr d'"
      using Cons.prems(1) by (auto simp: pay_recipient_def [of L p] ok_iff)
    obtain b where b: "d1 = d\<lparr>balances := b\<rparr>"
      using adjust_frame [OF d(1)] by blast
    obtain u where "d2 = d1\<lparr>award_recipients := u\<rparr>" "wf_index award_recipient_key u"
      "map recipient_strip (rows u) = map recipient_strip (rows (award_recipients d))"
      using recipient_status_law [OF d(2)] Cons.prems(2) by (auto simp: b)
    then show ?case
      using Cons.IH [OF d(3)] by (simp add: b)
  qed simp
  obtain w fee c1 ps c2 fi na c3 ai where c1: "adjust_account_balance L w fee c = Inr c1"
    and c2: "foldE (pay_recipient L) ps c1 = Inr c2" and c3: "adjust_funding_opportunity_supply L fi na c2 = Inr c3"
    and c4: "update_award_status ai award_approved c3 = Inr c'"
    using ap by (simp add: approve_award_apply_def ok_iff split: prod.splits) (elim exE conjE, rule that; assumption)
  obtain b t where b: "c1 = c\<lparr>balances := b\<rparr>" "c3 = c2\<lparr>grants := t\<rparr>"
    using adjust_frame [OF c1] c3 by (auto simp: adjust_funding_opportunity_supply_def set_grants_def ok_iff)
  have p: "award_withdrawals c2 = award_withdrawals c" "awards c2 = awards c" "wf_index award_recipient_key (award_recipients c2)"
    "map recipient_strip (rows (award_recipients c2)) = map recipient_strip (rows (award_recipients c))"
    using pay [OF c2] wf(1) by (simp_all add: b(1))
  obtain t' where "c' = c3\<lparr>awards := t'\<rparr>" "wf_index award_key t'" "map award_strip (rows t') = map award_strip (rows (awards c))"
    using award_status_law [OF c4] wf(2) p(2) by (auto simp: b(2))
  then show ?thesis
    using p by (simp add: b(2))
qed

section \<open>Runs\<close>

lemma payments_event_law:
  assumes ap: "apply_award_event L e c = Inr c'" and L: "safe_ok L"
    and ok: "payments_ok c" and i: "\<forall>a\<in>set (event_amounts e). int64 a"
  shows "payments_ok c'"
proof -
  have wf: "wf_index award_key (awards c)" "wf_index award_recipient_key (award_recipients c)"
    "wf_index withdrawal_key (award_withdrawals c)"
    using ok by (auto simp: payments_ok_def)
  show ?thesis
  proof (cases e)
    case (Create_grant op)
    then have "create_grant_apply L op c = Inr c'"
      using ap by (auto simp: ok_iff)
    from create_grant_frame [OF this] show ?thesis
      using ok by (intro payments_ok_status [OF ok]) (auto simp: wf)
  next
    case (Create_award op)
    then have "create_award_apply L op c = Inr c'" "create_award_validate L op = Inr ()"
      using ap by (auto simp: ok_iff)
    then show ?thesis
      by (rule payments_ok_create_award [OF _ _ L ok]) (use i Create_award in auto)
  next
    case (Approve_award op)
    then have "approve_award_apply L op c = Inr c'"
      using ap by (auto simp: ok_iff)
    from approve_award_frame [OF this wf(2,1)] show ?thesis
      by (intro payments_ok_status [OF ok]) simp_all
  next
    case (Reject_award op)
    then have "reject_award_apply op c = Inr c'"
      using ap by (auto simp: ok_iff)
    from reject_award_D [OF this wf(2,1)] show ?thesis
      by (intro payments_ok_status [OF ok]) auto
  next
    case (Request_withdrawal op)
    then have "create_award_withdrawal_request_apply L op c = Inr c'" "create_award_withdrawal_request_validate L op = Inr ()"
      using ap by (auto simp: ok_iff)
    then show ?thesis
      by (rule payments_ok_new_request [OF _ _ ok]) (use i Request_withdrawal in simp)
  next
    case (Certify_withdrawal op)
    then have "certify_award_withdrawal_request_apply op c = Inr c'"
      using ap by (auto simp: ok_iff)
    then show ?thesis
      by (intro payments_ok_moved [OF ok certify_D [OF _ wf(3)]]) simp_all
  next
    case (Approve_withdrawal op)
    then have "approve_award_withdrawal_request_apply op c = Inr c'"
      using ap by (auto simp: ok_iff)
    then show ?thesis
      by (intro payments_ok_moved [OF ok approve_D [OF _ wf(3)]]) simp_all
  next
    case (Reject_withdrawal op)
    then have "reject_award_withdrawal_request_apply op c = Inr c'"
      using ap by (auto simp: ok_iff)
    then show ?thesis
      by (intro payments_ok_moved [OF ok reject_D [OF _ wf(3)]]) simp_all
  next
    case (Pay_withdrawal op)
    then have "pay_award_withdrawal_request_apply L op c = Inr c'"
      using ap by (auto simp: ok_iff)
    then show ?thesis
      by (rule payments_ok_pay [OF _ L ok])
  qed
qed

lemma payments_run_law:
  assumes "run_award_events L es c = Inr c'" "safe_ok L" "payments_ok c"
    and "\<forall>e\<in>set es. \<forall>a\<in>set (event_amounts e). int64 a"
  shows "payments_ok c'"
  using assms(1,3,4) unfolding run_award_events_def
proof (induction es arbitrary: c)
  case (Cons e es)
  then obtain c1 where c1: "apply_award_event L e c = Inr c1" "foldE (apply_award_event L) es c1 = Inr c'"
    by (auto simp: ok_iff)
  show ?case
    using payments_event_law [OF c1(1) assms(2) Cons.prems(2)] Cons.IH [OF c1(2)] Cons.prems(3) by simp
qed simp

end
