(* ===== verification/Award_Properties.thy ===== *)
theory Award_Properties
  imports Award_Payments
begin

text \<open>
  The properties of grants and awards, with the chains their witnesses run on.
\<close>

section \<open>A chain with a funding opportunity\<close>

definition univ_account :: string where
  "univ_account = replicate 40 CHR ''2''"

definition research_account :: string where
  "research_account = replicate 40 CHR ''3''"

lemma award_names [simp]:
  "validate_160_bits_hexadecimal_string univ_account = Inr ()"
  "validate_160_bits_hexadecimal_string research_account = Inr ()"
  "univ_account \<noteq> group_account" "group_account \<noteq> univ_account"
proof -
  show "validate_160_bits_hexadecimal_string univ_account = Inr ()"
    "validate_160_bits_hexadecimal_string research_account = Inr ()"
    by (simp_all add: validate_160_bits_hexadecimal_string_def validate_hex_def univ_account_def research_account_def
        isxdigit_def isdigit_def list_all_iff)
  have "hd univ_account \<noteq> hd group_account"
    by (simp add: univ_account_def group_account_def)
  then show "univ_account \<noteq> group_account" "group_account \<noteq> univ_account"
    by auto
qed

lemma valid_award_names [simp]: "is_valid_account_name ''carol''" "is_valid_account_name ''dave''"
proof -
  have "islower CHR ''a''" "islower CHR ''c''" "islower CHR ''r''" "islower CHR ''o''" "islower CHR ''l''"
    "islower CHR ''d''" "islower CHR ''v''" "islower CHR ''e''"
    by (simp_all add: islower_def)
  then show "is_valid_account_name ''carol''" "is_valid_account_name ''dave''"
    unfolding is_valid_account_name_def
    by (simp_all add: DEIP_MIN_ACCOUNT_NAME_LENGTH_def DEIP_MAX_ACCOUNT_NAME_LENGTH_def valid_labels.simps
        find_first_of_def Let_def)
qed

lemma USD_neq [simp]: "DEIP_USD_SYMBOL \<noteq> TOK" "TOK \<noteq> DEIP_USD_SYMBOL" "DEIP_USD_SYMBOL \<noteq> DEIP_SYMBOL" "DEIP_SYMBOL \<noteq> DEIP_USD_SYMBOL"
  by (simp_all add: DEIP_USD_SYMBOL_def TOK_def DEIP_SYMBOL_def)

definition demo_opportunity :: funding_opportunity_object where
  "demo_opportunity = blank_opportunity\<lparr>fo_grantor := ''alice'', fo_number := ''grant'',
     fo_amount := \<lparr>amount = 30, symbol = TOK\<rparr>, fo_current_supply := \<lparr>amount = 30, symbol = TOK\<rparr>,
     fo_officers := [''alice'']\<rparr>"

definition award_chain :: chain where
  "award_chain = empty_chain\<lparr>head_block_time := 100,
     accounts := table [\<lparr>acc_name = ''alice''\<rparr>, \<lparr>acc_name = ''bob''\<rparr>, \<lparr>acc_name = ''carol''\<rparr>, \<lparr>acc_name = ''dave''\<rparr>],
     assets := table [demo_asset DEIP_SYMBOL ''DEIP'' 0, demo_asset TOK ''TOK'' 60, demo_asset DEIP_USD_SYMBOL ''USD'' 50],
     balances := table [demo_balance ''alice'' 10 0, demo_balance ''carol'' 20 0,
       \<lparr>ab_asset_id = 2, ab_symbol = DEIP_USD_SYMBOL, ab_string_symbol = ''USD'', ab_owner = ''alice'',
        ab_amount = 50, ab_frozen_amount = 0, ab_tokenized_research = None\<rparr>],
     research_groups := table [demo_group group_account ''alice'', demo_group univ_account ''dave''],
     group_tokens := table (map (\<lambda>w. \<lparr>rgt_research_group_id = 0, rgt_amount = 2500, rgt_owner = w\<rparr>)
       [''alice'', ''bob'', ''carol'', ''dave'']),
     researches := table [\<lparr>rs_external_id = research_account, rs_research_group_id = 0,
       rs_research_group = group_account, rs_security_tokens = []\<rparr>],
     grants := table [demo_opportunity]\<rparr>"

definition demo_subaward :: "string \<Rightarrow> string \<Rightarrow> string \<Rightarrow> int \<Rightarrow> subawardee" where
  "demo_subaward number w source a = \<lparr>sa_subaward_number = number, sa_subaward = \<lparr>amount = a, symbol = TOK\<rparr>,
     sa_subawardee = w, sa_source = source, sa_research_external_id = research_account\<rparr>"

definition demo_award :: "int \<Rightarrow> subawardee list \<Rightarrow> create_award_operation" where
  "demo_award overhead ss = \<lparr>cr_award_number = ''award'', cr_funding_opportunity_number = ''grant'',
     cr_award = \<lparr>amount = 20, symbol = TOK\<rparr>, cr_awardee = ''bob'', cr_research_external_id = research_account,
     cr_university_external_id = univ_account,
     cr_university_overhead = \<lparr>pc_amount = overhead, pc_decimals = DEIP_PERCENT_DECIMALS\<rparr>,
     cr_subawardees = ss, cr_creator = ''alice''\<rparr>"

lemmas award_chain_defs = award_chain_def demo_defs demo_opportunity_def blank_opportunity_def

lemmas eval_award = run_award_events_def create_award_validate_def validate_account_name_def percent_ge_def percent_le_def
  percent_less_def percent_eq_def DEIP_1_PERCENT_def DEIP_100_PERCENT_def DEIP_PERCENT_DECIMALS_def
  validate_awardees_def validate_subaward_def university_fee_def mul_def sdivide_def asset_plus_def asset_minus_def
  asset_gt_def asset_le_def asset_less_def asset_ge_def asset_uminus_def create_award_apply_def research_exists_def
  research_group_exists_def funding_opportunity_exists_def find_funding_opportunity_def get_funding_opportunity_def
  get_research_group_def is_research_group_member_def find_member_def get_research_group_by_account_def get_research_def
  split_award_def map_get_def create_award_def set_awards_def create_award_recipient_def set_award_recipients_def
  create_subaward_def award_key_def award_recipient_key_def
  approve_award_validate_def approve_award_apply_def award_exists_def find_award_def get_award_def
  get_award_recipients_by_award_def pay_recipient_def update_award_recipient_status_def update_award_status_def
  adjust_funding_opportunity_supply_def get_funding_opportunity_by_id_def set_grants_def grant_key_def

lemma award_chain_ok: "awards_ok fc_ref award_chain"
  by (simp add: awards_ok_def grants_ok_def supply_ok_def balances_ok_def balance_ok_def wf_index_def wf_rows_def asset_ok_def
      circulating_def held_def holding_def escrowed_def locked_def opportunity_ok_def award_chain_defs int64_iff
      balance_key_def asset_key_def grant_key_def)

lemmas eval_withdrawal = create_award_withdrawal_request_validate_def create_award_withdrawal_request_apply_def
  create_award_withdrawal_request_def set_award_withdrawals_def withdrawal_key_def subaward_or_award_def
  award_recipient_exists_def find_award_recipient_def get_award_recipient_def withdrawal_operation_validate_def
  open_withdrawal_def award_withdrawal_request_exists_def find_withdrawal_def get_award_withdrawal_request_def
  certify_award_withdrawal_request_apply_def approve_award_withdrawal_request_apply_def
  pay_award_withdrawal_request_apply_def update_award_withdrawal_request_def adjust_expenses_def
  get_award_recipient_by_id_def

definition demo_request :: "int \<Rightarrow> create_award_withdrawal_request_operation" where
  "demo_request a = \<lparr>wq_payment_number = ''p1'', wq_award_number = ''award'', wq_subaward_number = None,
     wq_requester = ''bob'', wq_amount = \<lparr>amount = a, symbol = TOK\<rparr>, wq_description = ''books'', wq_attachment = []\<rparr>"

definition demo_move :: "string \<Rightarrow> withdrawal_operation" where
  "demo_move actor = \<lparr>wo_payment_number = ''p1'', wo_award_number = ''award'', wo_subaward_number = None, wo_actor = actor\<rparr>"

lemma is_utf8_books: "is_utf8 fc_ref ''books''" "is_utf8 fc_ref []"
  by (simp_all add: fc_ref_def)

section \<open>What a payment does to the supply\<close>

lemma pay_supply_law:
  assumes ap: "pay_award_withdrawal_request_apply L op c = Inr c'" and ok: "supply_ok L c" "payments_ok c"
  shows "\<exists>wi w aid a. (wi, w) \<in> set (rows (award_withdrawals c)) \<and> wr_award_number w = wo_award_number op \<and>
    wr_payment_number w = wo_payment_number op \<and> 0 < amount (wr_amount w) \<and>
    (aid, a) \<in> set (rows (assets c)) \<and> as_symbol a = symbol (wr_amount w) \<and>
    wf_index asset_key (assets c') \<and>
    rows (assets c') = upd aid (a\<lparr>as_current_supply := as_current_supply a - amount (wr_amount w)\<rparr>) (rows (assets c)) \<and>
    (\<forall>s. circulating c' s = circulating c s)"
proof -
  have bo: "balances_ok L c" "safe_ok L" and as: "wf_index asset_key (assets c)" "\<forall>p\<in>set (rows (assets c)). asset_ok (snd p)"
    using ok(1) by (auto simp: supply_ok_def balances_ok_def)
  obtain wi w ri and r :: award_recipient_object and gi ga c1 burnt c2 payout c3 charge c4 and uni :: research_group_object where
    o: "open_withdrawal op c = Inr ((wi, w), (ri, r))"
    and g: "get_asset_by_symbol (symbol (wr_amount w)) c = Inr (gi, ga)"
    and c1: "adjust_expenses L ri (wr_amount w) c = Inr c1"
    and b: "asset_uminus L (wr_amount w) = Inr burnt"
    and c2: "adjust_asset_current_supply L gi burnt c1 = Inr c2"
    and p: "asset_times_price L (wr_amount w) \<lparr>price_base = \<lparr>amount = 1, symbol = DEIP_USD_SYMBOL\<rparr>,
       price_quote = \<lparr>amount = 1, symbol = symbol (wr_amount w)\<rparr>\<rparr> = Inr payout"
    and c3: "adjust_account_balance L (wr_requester w) payout c2 = Inr c3"
    and ch: "asset_uminus L payout = Inr charge"
    and c4: "adjust_account_balance L (rg_creator uni) charge c3 = Inr c4"
    and c5: "update_award_withdrawal_request wi withdrawal_paid c4 = Inr c'"
    by (rule pay_D [OF ap])
  note m = open_withdrawal_D [OF o]
  have w: "0 < amount (wr_amount w)" "int64 (amount (wr_amount w))"
    using ok(2) m by (auto simp: payments_ok_def)
  note bD = uminus_D [OF b bo(2) w(2)]
  have bi: "int64 (amount burnt)"
    using bD by blast
  obtain u where u: "c1 = c\<lparr>award_recipients := u\<rparr>"
    using c1 by (auto simp: adjust_expenses_def set_award_recipients_def ok_iff)
  obtain a t where t: "(gi, a) \<in> set (rows (assets c1))" "c2 = c1\<lparr>assets := t\<rparr>"
    "rows t = upd gi (a\<lparr>as_current_supply := as_current_supply a + amount burnt\<rparr>) (rows (assets c1))"
    "wf_index asset_key t"
    by (rule supply_law [OF c2 bo(2) bi]) (use as in \<open>auto simp: u\<close>)
  have a: "(gi, a) \<in> set (rows (assets c))" "as_symbol a = symbol (wr_amount w)"
    using t(1) get_asset_D [OF g] cb.mem_map_of [OF as(1)] by (auto simp: u)
  have pi: "int64 (amount payout)"
    by (rule times_price_int64 [OF p])
  note chD = uminus_D [OF ch bo(2) pi]
  have ci: "int64 (amount charge)"
    using chD by blast
  have b2: "balances_ok L c2"
    using bo(1) by (simp add: t(2) u balances_ok_def)
  have sums: "symbol payout = symbol charge" "amount payout = - amount charge"
    using chD by simp_all
  note mv = lg.move [OF b2 ci pi sums c3 c4]
  have "but_balances c4 = but_balances c2"
    using mv by blast
  note fr = but_balances_fields [OF this]
  obtain x where x: "c' = c4\<lparr>award_withdrawals := x\<rparr>"
    using c5 by (auto simp: update_award_withdrawal_request_def set_award_withdrawals_def ok_iff)
  have "circulating c' s = circulating c s" for s
    using mv [of s] fr by (simp add: x circulating_def held_def escrowed_def t(2) u)
  moreover have "assets c' = t"
    by (simp add: x fr t(2))
  moreover have "rows t = upd gi (a\<lparr>as_current_supply := as_current_supply a - amount (wr_amount w)\<rparr>) (rows (assets c))"
    using t(3) bD by (simp add: u)
  ultimately show ?thesis
    using m w(1) a t(4) by blast
qed

lemma burnt_supply:
  assumes ok: "supply_ok L c" and a: "(aid, a) \<in> set (rows (assets c))" and d: "0 < d"
    and c': "wf_index asset_key (assets c')" "rows (assets c') = upd aid (a\<lparr>as_current_supply := as_current_supply a - d\<rparr>) (rows (assets c))"
    and circ: "\<forall>s. circulating c' s = circulating c s"
  shows "\<not> supply_ok L c'"
proof
  assume ok': "supply_ok L c'"
  have wf: "wf_index asset_key (assets c)"
    using ok by (simp add: supply_ok_def)
  have "(aid, a\<lparr>as_current_supply := as_current_supply a - d\<rparr>) \<in> set (rows (assets c'))"
    unfolding cb.mem_map_of [OF c'(1)] using a by (simp add: c'(2) map_of_upd cb.mem_map_of [OF wf])
  then have "circulating c' (as_symbol a) = as_current_supply a - d"
    using ok' by (force simp: supply_ok_def)
  moreover have "circulating c (as_symbol a) = as_current_supply a"
    using ok a by (auto simp: supply_ok_def)
  ultimately show False
    using circ d by simp
qed

section \<open>How requests move on\<close>

definition withdrawals_evolve :: "chain \<Rightarrow> chain \<Rightarrow> bool" where
  "withdrawals_evolve c c' \<longleftrightarrow> (\<forall>i w. (i, w) \<in> set (rows (award_withdrawals c)) \<longrightarrow>
     (\<exists>st. withdrawal_edge\<^sup>*\<^sup>* (wr_status w) st \<and> (i, w\<lparr>wr_status := st\<rparr>) \<in> set (rows (award_withdrawals c'))))"

lemma evolve_refl: "award_withdrawals c' = award_withdrawals c \<Longrightarrow> withdrawals_evolve c c'"
  by (auto simp: withdrawals_evolve_def intro!: exI [of _ "wr_status _"])

lemma evolve_trans: "withdrawals_evolve c c1 \<Longrightarrow> withdrawals_evolve c1 c' \<Longrightarrow> withdrawals_evolve c c'"
  unfolding withdrawals_evolve_def
proof (intro allI impI)
  fix i w
  assume 1: "\<forall>i w. (i, w) \<in> set (rows (award_withdrawals c)) \<longrightarrow>
     (\<exists>st. withdrawal_edge\<^sup>*\<^sup>* (wr_status w) st \<and> (i, w\<lparr>wr_status := st\<rparr>) \<in> set (rows (award_withdrawals c1)))"
    and 2: "\<forall>i w. (i, w) \<in> set (rows (award_withdrawals c1)) \<longrightarrow>
     (\<exists>st. withdrawal_edge\<^sup>*\<^sup>* (wr_status w) st \<and> (i, w\<lparr>wr_status := st\<rparr>) \<in> set (rows (award_withdrawals c')))"
    and w: "(i, w) \<in> set (rows (award_withdrawals c))"
  obtain st where st: "withdrawal_edge\<^sup>*\<^sup>* (wr_status w) st" "(i, w\<lparr>wr_status := st\<rparr>) \<in> set (rows (award_withdrawals c1))"
    using 1 w by blast
  obtain st' where "withdrawal_edge\<^sup>*\<^sup>* st st'" "(i, w\<lparr>wr_status := st'\<rparr>) \<in> set (rows (award_withdrawals c'))"
    using 2 st(2) by fastforce
  then show "\<exists>st. withdrawal_edge\<^sup>*\<^sup>* (wr_status w) st \<and> (i, w\<lparr>wr_status := st\<rparr>) \<in> set (rows (award_withdrawals c'))"
    using st(1) by (blast intro: rtranclp_trans)
qed

lemma evolve_upd:
  assumes "wf_index withdrawal_key (award_withdrawals c)" "(wi, w) \<in> set (rows (award_withdrawals c))"
    and "withdrawal_edge (wr_status w) st" "wf_index withdrawal_key (award_withdrawals c')"
    and "rows (award_withdrawals c') = upd wi (w\<lparr>wr_status := st\<rparr>) (rows (award_withdrawals c))"
  shows "withdrawals_evolve c c'"
  unfolding withdrawals_evolve_def
proof (intro allI impI)
  fix i v
  assume v: "(i, v) \<in> set (rows (award_withdrawals c))"
  have mem: "(j, x) \<in> set (rows (award_withdrawals c')) \<longleftrightarrow>
      map_of (upd wi (w\<lparr>wr_status := st\<rparr>) (rows (award_withdrawals c))) j = Some x" for j x
    using cb.mem_map_of [OF assms(4), of j x] by (simp only: assms(5))
  have eq: "map_of (rows (award_withdrawals c)) i = Some v" "map_of (rows (award_withdrawals c)) wi = Some w"
    using v assms(2) cb.mem_map_of [OF assms(1)] by simp_all
  show "\<exists>st. withdrawal_edge\<^sup>*\<^sup>* (wr_status v) st \<and> (i, v\<lparr>wr_status := st\<rparr>) \<in> set (rows (award_withdrawals c'))"
  proof (cases "i = wi")
    case True
    then have "withdrawal_edge\<^sup>*\<^sup>* (wr_status v) st \<and> (i, v\<lparr>wr_status := st\<rparr>) \<in> set (rows (award_withdrawals c'))"
      unfolding mem using eq assms(3) by (auto simp: map_of_upd)
    then show ?thesis
      by blast
  next
    case False
    then have "(i, v\<lparr>wr_status := wr_status v\<rparr>) \<in> set (rows (award_withdrawals c'))"
      unfolding mem using eq by (simp add: map_of_upd)
    then show ?thesis
      by blast
  qed
qed

lemma evolve_moved:
  assumes "moved_on op st c c'" "wf_index withdrawal_key (award_withdrawals c)"
  shows "withdrawals_evolve c c'"
proof -
  obtain wi w x where "(wi, w) \<in> set (rows (award_withdrawals c))" "withdrawal_edge (wr_status w) st"
    "c' = c\<lparr>award_withdrawals := x\<rparr>" "wf_index withdrawal_key x"
    "rows x = upd wi (w\<lparr>wr_status := st\<rparr>) (rows (award_withdrawals c))"
    using assms(1) unfolding moved_on_def by blast
  then show ?thesis
    by (intro evolve_upd [OF assms(2)]) simp_all
qed

lemma create_award_withdrawals:
  assumes "create_award_apply L op c = Inr c'"
  shows "award_withdrawals c' = award_withdrawals c"
proof -
  have sub: "foldE (create_subaward op m) ss d = Inr d' \<Longrightarrow> award_withdrawals d' = award_withdrawals d" for m ss d d'
  proof (induction ss arbitrary: d)
    case (Cons s ss)
    then obtain d1 where d1: "create_subaward op m s d = Inr d1" "foldE (create_subaward op m) ss d1 = Inr d'"
      by (auto simp: ok_iff)
    have "award_withdrawals d1 = award_withdrawals d"
      using d1(1)
      by (auto simp: create_subaward_def create_award_recipient_def set_award_recipients_def ok_iff split: prod.splits)
    then show ?case
      using Cons.IH [OF d1(2)] by simp
  qed simp
  show ?thesis
    using assms
    by (auto simp: create_award_apply_def ok_iff create_award_def set_awards_def create_award_recipient_def
        set_award_recipients_def split: prod.splits dest!: sub)
qed

lemma evolve_event:
  assumes ap: "apply_award_event L e c = Inr c'" and L: "safe_ok L" and ok: "payments_ok c"
  shows "withdrawals_evolve c c'"
proof -
  have wf: "wf_index award_key (awards c)" "wf_index award_recipient_key (award_recipients c)"
    "wf_index withdrawal_key (award_withdrawals c)" "\<forall>p\<in>set (rows (award_recipients c)). recipient_ok (snd p)"
    "\<forall>p\<in>set (rows (award_withdrawals c)). 0 < amount (wr_amount (snd p)) \<and> int64 (amount (wr_amount (snd p)))"
    using ok by (auto simp: payments_ok_def)
  show ?thesis
  proof (cases e)
    case (Create_grant op)
    then have "create_grant_apply L op c = Inr c'"
      using ap by (auto simp: ok_iff)
    from create_grant_frame [OF this] show ?thesis
      by (auto intro: evolve_refl)
  next
    case (Create_award op)
    then have "create_award_apply L op c = Inr c'"
      using ap by (auto simp: ok_iff)
    from create_award_withdrawals [OF this] show ?thesis
      by (rule evolve_refl)
  next
    case (Approve_award op)
    then have "approve_award_apply L op c = Inr c'"
      using ap by (auto simp: ok_iff)
    from approve_award_frame [OF this wf(2,1)] show ?thesis
      by (simp add: evolve_refl)
  next
    case (Reject_award op)
    then have "reject_award_apply op c = Inr c'"
      using ap by (auto simp: ok_iff)
    from reject_award_D [OF this wf(2,1)] show ?thesis
      by (auto intro: evolve_refl)
  next
    case (Request_withdrawal op)
    then have "create_award_withdrawal_request_apply L op c = Inr c'"
      using ap by (auto simp: ok_iff)
    from create_request_law [OF this wf(3)] obtain x i w where
      "c' = c\<lparr>award_withdrawals := x\<rparr>" "rows x = rows (award_withdrawals c) @ [(i, w)]"
      by blast
    then show ?thesis
      unfolding withdrawals_evolve_def by (auto intro: exI [of _ "wr_status _"])
  next
    case (Certify_withdrawal op)
    then have "certify_award_withdrawal_request_apply op c = Inr c'"
      using ap by (auto simp: ok_iff)
    from certify_D [OF this wf(3)] show ?thesis
      using wf(3) by (rule evolve_moved)
  next
    case (Approve_withdrawal op)
    then have "approve_award_withdrawal_request_apply op c = Inr c'"
      using ap by (auto simp: ok_iff)
    from approve_D [OF this wf(3)] show ?thesis
      using wf(3) by (rule evolve_moved)
  next
    case (Reject_withdrawal op)
    then have "reject_award_withdrawal_request_apply op c = Inr c'"
      using ap by (auto simp: ok_iff)
    from reject_D [OF this wf(3)] show ?thesis
      using wf(3) by (rule evolve_moved)
  next
    case (Pay_withdrawal op)
    then have "pay_award_withdrawal_request_apply L op c = Inr c'"
      using ap by (auto simp: ok_iff)
    from pay_books [OF this L wf(2-5)] obtain wi w where
      "(wi, w) \<in> set (rows (award_withdrawals c))" "wr_status w = withdrawal_approved"
      "wf_index withdrawal_key (award_withdrawals c')"
      "rows (award_withdrawals c') = upd wi (w\<lparr>wr_status := withdrawal_paid\<rparr>) (rows (award_withdrawals c))"
      by blast
    then show ?thesis
      by (intro evolve_upd [OF wf(3)]) (simp_all add: withdrawal_edge_from)
  qed
qed

lemma evolve_run:
  assumes "run_award_events L es c = Inr c'" "safe_ok L" "payments_ok c"
    and "\<forall>e\<in>set es. \<forall>a\<in>set (event_amounts e). int64 a"
  shows "withdrawals_evolve c c'"
  using assms(1,3,4) unfolding run_award_events_def
proof (induction es arbitrary: c)
  case Nil
  then show ?case
    by (simp add: evolve_refl)
next
  case (Cons e es)
  then obtain c1 where c1: "apply_award_event L e c = Inr c1" "foldE (apply_award_event L) es c1 = Inr c'"
    by (auto simp: ok_iff)
  have "payments_ok c1"
    using payments_event_law [OF c1(1) assms(2) Cons.prems(2)] Cons.prems(3) by simp
  then show ?case
    using evolve_event [OF c1(1) assms(2) Cons.prems(2)] Cons.IH [OF c1(2)] Cons.prems(3) evolve_trans by simp
qed

section \<open>Properties\<close>

lemma symbol_name_TOK: "symbol_name TOK = Inr ''TOK''"
proof -
  have eq: "TOK = of_bytes [2, 84, 79, 75, 0, 0, 0, 0]"
    by (simp add: TOK_def of_bytes_def)
  have "sym_bytes TOK = [2, 84, 79, 75, 0, 0, 0, 0]"
    unfolding eq by (rule sym_of_bytes) simp_all
  moreover have "map char_of [84, 79, 75 :: nat] = ''TOK''"
    by code_simp
  ultimately show ?thesis
    by (simp add: symbol_name_def)
qed

definition demo_approval :: approve_award_operation where
  "demo_approval = \<lparr>aa_award_number = ''award'', aa_approver = ''alice''\<rparr>"

definition demo_events :: "award_event list" where
  "demo_events = [Create_award (demo_award 1000 [demo_subaward ''s1'' ''carol'' ''bob'' 5]), Approve_award demo_approval,
     Request_withdrawal (demo_request 5), Certify_withdrawal (demo_move ''alice''), Approve_withdrawal (demo_move ''alice'')]"

lemmas demo_event_defs = demo_events_def demo_approval_def demo_award_def demo_subaward_def demo_request_def demo_move_def
  is_utf8_books

lemma demo_events_run: "\<exists>c'. run_award_events fc_ref demo_events award_chain = Inr c'"
  by (simp add: eval_award eval_withdrawal eval_store award_chain_defs demo_event_defs)

lemma demo_events_ok: "\<forall>e\<in>set demo_events. \<not> is_payment e \<and> (\<forall>a\<in>set (event_amounts e). int64 a)"
  by (simp add: demo_event_defs int64_iff)

lemma award_chain_payments: "payments_ok award_chain"
  by (simp add: payments_ok_def wf_index_def wf_rows_def award_chain_defs)

lemma fc_ref_ops:
  "safe_add fc_ref x y = checked (x + y)" "safe_sub fc_ref x y = checked (x - y)"
  "safe_mul fc_ref x y = checked (x * y)" "safe_div fc_ref x y = (if y = 0 then None else checked (x sdiv y))"
  "safe_neg fc_ref x = checked (- x)"
  by (simp_all add: fc_ref_def)

lemma demo_rate:
  "asset_times_price fc_ref \<lparr>amount = 5, symbol = TOK\<rparr> \<lparr>price_base = \<lparr>amount = 1, symbol = DEIP_USD_SYMBOL\<rparr>,
     price_quote = \<lparr>amount = 1, symbol = TOK\<rparr>\<rparr> = Inr \<lparr>amount = 5, symbol = DEIP_USD_SYMBOL\<rparr>"
  using usd_payout [of fc_ref "\<lparr>amount = 5, symbol = TOK\<rparr>" "''TOK''"] by (simp add: symbol_name_TOK int64_iff)

definition self_service :: "award_event list" where
  "self_service = [Create_award (demo_award 0 []), Approve_award demo_approval, Request_withdrawal (demo_request 5),
     Certify_withdrawal (demo_move ''bob''), Approve_withdrawal (demo_move ''bob''), Pay_withdrawal (demo_move ''bob'')]"

lemmas eval_run = eval_award eval_withdrawal eval_store award_chain_defs demo_event_defs demo_rate fc_ref_ops

lemma award_approval_runs:
  "\<exists>c1 c'. run_award_events fc_ref (take 1 demo_events) award_chain = Inr c1 \<and>
     approve_award_apply fc_ref demo_approval c1 = Inr c'"
  by (simp add: eval_run del: fc_ref_def)

lemma self_service_runs:
  "\<exists>c1 c'. run_award_events fc_ref (take 5 self_service) award_chain = Inr c1 \<and>
     pay_award_withdrawal_request_apply fc_ref (demo_move ''bob'') c1 = Inr c'"
  "\<exists>c1 w c'. run_award_events fc_ref (take 3 self_service) award_chain = Inr c1 \<and>
     (0, w) \<in> set (rows (award_withdrawals c1)) \<and> run_award_events fc_ref (drop 3 self_service) c1 = Inr c'"
  by (simp_all add: self_service_def eval_run del: fc_ref_def)

lemma self_service_ok:
  "\<forall>e\<in>set (take 5 self_service). \<not> is_payment e \<and> (\<forall>a\<in>set (event_amounts e). int64 a)"
  "\<forall>e\<in>set self_service. \<forall>a\<in>set (event_amounts e). int64 a"
  by (simp_all add: self_service_def demo_event_defs int64_iff)

text \<open>
  C29. Whatever grants, awards and withdrawal requests are created, approved, certified or
  rejected, in any order, short of paying a withdrawal: supplies account for every token, and every
  award is still split exactly among its recipients and the university, in one symbol.
\<close>

theorem award_books_kept:
  assumes "awards_ok L c" "run_award_events L es c = Inr c'"
    and "\<forall>e\<in>set es. \<not> is_payment e \<and> (\<forall>a\<in>set (event_amounts e). int64 a)"
  shows "awards_ok L c' \<and> (\<forall>s. circulating c' s = circulating c s) \<and>
    (\<forall>p\<in>set (rows (awards c')).
       award_total (aw_award_number (snd p)) c' + award_fee (snd p) = amount (aw_amount (snd p)))"
proof -
  have "awards_ok L c'" "\<forall>s. circulating c' s = circulating c s"
    using award_run_law [OF assms(2,1,3)] by blast+
  then show ?thesis
    by (auto simp: awards_ok_def award_ok_def)
qed

lemma award_books_kept_witness:
  "\<exists>c'. run_award_events fc_ref demo_events award_chain = Inr c' \<and> awards_ok fc_ref c'"
proof -
  obtain c' where c': "run_award_events fc_ref demo_events award_chain = Inr c'"
    using demo_events_run by blast
  then show ?thesis
    using award_books_kept [OF award_chain_ok c' demo_events_ok] by blast
qed

text \<open>
  C30. Approving an award, by a program officer, pays its parts exactly: the fee to the creator of
  the university, to each recipient the part recorded for it, and the whole leaves the funding
  opportunity, which must keep a positive rest.
\<close>

theorem approval_pays_the_parts:
  assumes "awards_ok L c" "approve_award_apply L op c = Inr c'"
  shows "\<exists>ai a uni fi f. (ai, a) \<in> set (rows (awards c)) \<and> aw_award_number a = aa_award_number op \<and>
    aw_status a = award_pending \<and> lookup (research_groups c) (aw_university_id a) = Some uni \<and>
    (fi, f) \<in> set (rows (grants c)) \<and> fo_number f = aw_funding_opportunity_number a \<and> aa_approver op \<in> set (fo_officers f) \<and>
    amount (aw_amount a) < amount (fo_current_supply f) \<and>
    rows (grants c') = upd fi (f\<lparr>fo_current_supply :=
      \<lparr>amount = amount (fo_current_supply f) - amount (aw_amount a), symbol = symbol (aw_amount a)\<rparr>\<rparr>) (rows (grants c)) \<and>
    (\<forall>w s. spendable c' w s = spendable c w s +
       (if s = symbol (aw_amount a) then award_share c a (rg_creator uni) w else 0))"
  using approve_award_law [OF assms(2,1)] by (elim conjE)

lemma approval_pays_the_parts_witness:
  "\<exists>c c' a u. approve_award_apply fc_ref demo_approval c = Inr c' \<and> aw_status a = award_pending \<and>
     (\<forall>w s. spendable c' w s = spendable c w s + (if s = symbol (aw_amount a) then award_share c a u w else 0))"
proof -
  obtain c1 c' where c: "run_award_events fc_ref (take 1 demo_events) award_chain = Inr c1"
    "approve_award_apply fc_ref demo_approval c1 = Inr c'"
    using award_approval_runs by blast
  have "awards_ok fc_ref c1"
    using award_run_law [OF c(1) award_chain_ok] demo_events_ok by (auto dest: in_set_takeD)
  from approval_pays_the_parts [OF this c(2)] c(2) show ?thesis
    by blast
qed

text \<open>
  C31. Paying a withdrawal breaks the supply of the token awarded: the recorded supply is reduced
  by the amount, as if it were burnt, but no balance is. What is in circulation stays the same,
  and the sum of the balances is no longer the supply.
\<close>

theorem payment_unbacked:
  assumes "supply_ok L c" "payments_ok c" "pay_award_withdrawal_request_apply L op c = Inr c'"
  shows "\<not> supply_ok L c' \<and> (\<forall>s. circulating c' s = circulating c s) \<and>
    (\<exists>wi w aid a. (wi, w) \<in> set (rows (award_withdrawals c)) \<and> wr_award_number w = wo_award_number op \<and>
       wr_payment_number w = wo_payment_number op \<and> (aid, a) \<in> set (rows (assets c)) \<and>
       as_symbol a = symbol (wr_amount w) \<and> 0 < amount (wr_amount w) \<and>
       rows (assets c') = upd aid (a\<lparr>as_current_supply := as_current_supply a - amount (wr_amount w)\<rparr>) (rows (assets c)))"
  using pay_supply_law [OF assms(3,1,2)] burnt_supply [OF assms(1)] by blast

lemma payment_unbacked_witness:
  "\<exists>c c'. supply_ok fc_ref c \<and> pay_award_withdrawal_request_apply fc_ref (demo_move ''bob'') c = Inr c' \<and>
     \<not> supply_ok fc_ref c'"
proof -
  obtain c1 c' where c: "run_award_events fc_ref (take 5 self_service) award_chain = Inr c1"
    "pay_award_withdrawal_request_apply fc_ref (demo_move ''bob'') c1 = Inr c'"
    using self_service_runs(1) by blast
  have "awards_ok fc_ref c1" "payments_ok c1"
    using award_run_law [OF c(1) award_chain_ok self_service_ok(1)]
      payments_run_law [OF c(1) fc_ref_ok(1) award_chain_payments] self_service_ok(1) by blast+
  then show ?thesis
    using payment_unbacked [OF _ _ c(2)] c(2) by (auto simp: awards_ok_def grants_ok_def)
qed

text \<open>
  C32. Whatever operations run, payments included, the expenses of a recipient are exactly what
  was paid to it, and never more than its part of the award.
\<close>

theorem payments_accounted:
  assumes "safe_ok L" "payments_ok c" "run_award_events L es c = Inr c'"
    and "\<forall>e\<in>set es. \<forall>a\<in>set (event_amounts e). int64 a"
  shows "payments_ok c' \<and> (\<forall>p\<in>set (rows (award_recipients c')).
    amount (ar_total_expenses (snd p)) = paid_to (ar_award_number (snd p)) (ar_awardee (snd p)) c' \<and>
    amount (ar_total_expenses (snd p)) \<le> max 0 (amount (ar_total_amount (snd p))))"
proof -
  have "payments_ok c'"
    by (rule payments_run_law [OF assms(3,1,2,4)])
  then show ?thesis
    by (auto simp: payments_ok_def recipient_ok_def)
qed

lemma payments_accounted_witness:
  "\<exists>c'. run_award_events fc_ref self_service award_chain = Inr c' \<and> payments_ok c'"
proof -
  obtain c' where c': "run_award_events fc_ref self_service award_chain = Inr c'"
    by (simp add: self_service_def eval_run del: fc_ref_def)
  then show ?thesis
    using payments_accounted [OF fc_ref_ok(1) award_chain_payments c' self_service_ok(2)] by blast
qed

text \<open>
  A withdrawal request keeps its numbers, requester and amount for ever, and its status moves
  only from pending to certified, approved and paid, or from pending or certified to rejected;
  what is paid or rejected stays so.
\<close>

theorem withdrawal_lifecycle:
  assumes "safe_ok L" "payments_ok c" "run_award_events L es c = Inr c'"
    and "\<forall>e\<in>set es. \<forall>a\<in>set (event_amounts e). int64 a" "(i, w) \<in> set (rows (award_withdrawals c))"
  shows "\<exists>st. (i, w\<lparr>wr_status := st\<rparr>) \<in> set (rows (award_withdrawals c')) \<and> withdrawal_edge\<^sup>*\<^sup>* (wr_status w) st \<and>
    (wr_status w \<in> {withdrawal_paid, withdrawal_rejected} \<longrightarrow> st = wr_status w)"
proof -
  have fin: "st = wr_status w" if "withdrawal_edge\<^sup>*\<^sup>* (wr_status w) st"
    "wr_status w \<in> {withdrawal_paid, withdrawal_rejected}" for st
    using that by (auto simp: withdrawal_edge_from elim: converse_rtranclpE)
  show ?thesis
    using evolve_run [OF assms(3,1,2,4)] assms(5) fin unfolding withdrawals_evolve_def by metis
qed

lemma withdrawal_lifecycle_witness:
  "\<exists>c w c' st. run_award_events fc_ref (drop 3 self_service) c = Inr c' \<and> (0, w) \<in> set (rows (award_withdrawals c)) \<and>
     (0, w\<lparr>wr_status := st\<rparr>) \<in> set (rows (award_withdrawals c'))"
proof -
  obtain c1 w c' where c: "run_award_events fc_ref (take 3 self_service) award_chain = Inr c1"
    "(0, w) \<in> set (rows (award_withdrawals c1))" "run_award_events fc_ref (drop 3 self_service) c1 = Inr c'"
    using self_service_runs(2) by blast
  have "payments_ok c1"
    by (rule payments_run_law [OF c(1) fc_ref_ok(1) award_chain_payments])
      (use self_service_ok(2) in \<open>auto dest: in_set_takeD\<close>)
  from withdrawal_lifecycle [OF fc_ref_ok(1) this c(3) _ c(2)] self_service_ok(2) c show ?thesis
    by (meson in_set_dropD)
qed



end
