(* ===== verification/Fork_Database.thy ===== *)
theory Fork_Database
  imports Prelude "HOL-Library.Monad_Syntax"
begin

text \<open>
  Blocks and the fork database: \<open>libraries/protocol/block.cpp\<close> (numbers and ids) and
  \<open>libraries/chain/database/fork_database.cpp\<close>. The hash of a block and the byte reversal of
  \<open>fc\<close> are parameters. A \<open>shared_ptr<fork_item>\<close> is an address in the list of all items ever
  made; a \<open>weak_ptr\<close> can be locked while its item is in one of the two indexes or is the head.
\<close>

section \<open>Blocks\<close>

record block_id_type =
  id_word :: "32 word"
  id_rest :: nat

text \<open>What only the hash of a block reads is its \<open>payload\<close>.\<close>

record signed_block =
  bl_previous :: block_id_type
  bl_timestamp :: "32 word"
  bl_witness :: string
  bl_payload :: nat

record block_lib =
  endian_reverse_u32 :: "32 word \<Rightarrow> 32 word"
  block_hash :: "signed_block \<Rightarrow> nat"

definition block_lib_ok :: "block_lib \<Rightarrow> bool" where
  "block_lib_ok B \<longleftrightarrow> (\<forall>x. endian_reverse_u32 B (endian_reverse_u32 B x) = x)"

definition no_block :: block_id_type where
  "no_block = \<lparr>id_word = 0, id_rest = 0\<rparr>"

definition num_from_id :: "block_lib \<Rightarrow> block_id_type \<Rightarrow> 32 word" where
  "num_from_id B i = endian_reverse_u32 B (id_word i)"

definition block_num :: "block_lib \<Rightarrow> signed_block \<Rightarrow> 32 word" where
  "block_num B b = num_from_id B (bl_previous b) + 1"

definition block_id :: "block_lib \<Rightarrow> signed_block \<Rightarrow> block_id_type" where
  "block_id B b = \<lparr>id_word = endian_reverse_u32 B (block_num B b), id_rest = block_hash B b\<rparr>"

section \<open>The fork database\<close>

record fork_item =
  fi_prev :: "nat option"
  fi_num :: "32 word"
  fi_invalid :: bool
  fi_id :: block_id_type
  fi_data :: signed_block

definition mk_fork_item :: "block_lib \<Rightarrow> signed_block \<Rightarrow> fork_item" where
  "mk_fork_item B d = \<lparr>fi_prev = None, fi_num = block_num B d, fi_invalid = False, fi_id = block_id B d, fi_data = d\<rparr>"

definition previous_id :: "fork_item \<Rightarrow> block_id_type" where
  "previous_id i = bl_previous (fi_data i)"

record fork_database =
  fd_items :: "fork_item list"
  fd_index :: "nat list"
  fd_unlinked :: "nat list"
  fd_max_size :: "32 word"
  fd_head :: "nat option"

definition empty_fork_database :: fork_database where
  "empty_fork_database = \<lparr>fd_items = [], fd_index = [], fd_unlinked = [], fd_max_size = 1024, fd_head = None\<rparr>"

abbreviation item :: "fork_database \<Rightarrow> nat \<Rightarrow> fork_item" where
  "item F p \<equiv> fd_items F ! p"

definition alive :: "fork_database \<Rightarrow> nat \<Rightarrow> bool" where
  "alive F p \<longleftrightarrow> p \<in> set (fd_index F) \<or> p \<in> set (fd_unlinked F) \<or> fd_head F = Some p"

definition lock_prev :: "fork_database \<Rightarrow> nat \<Rightarrow> nat option" where
  "lock_prev F p = (case fi_prev (item F p) of Some q \<Rightarrow> if alive F q then Some q else None | None \<Rightarrow> None)"

definition find_id :: "fork_database \<Rightarrow> nat list \<Rightarrow> block_id_type \<Rightarrow> nat option" where
  "find_id F ps i = find (\<lambda>p. fi_id (item F p) = i) ps"

text \<open>Inserting an item whose id is already indexed leaves the index as it is.\<close>

definition index_insert :: "nat \<Rightarrow> fork_database \<Rightarrow> fork_database" where
  "index_insert p F =
     (if find_id F (fd_index F) (fi_id (item F p)) = None then F\<lparr>fd_index := fd_index F @ [p]\<rparr> else F)"

definition fork_reset :: "fork_database \<Rightarrow> fork_database" where
  "fork_reset F = F\<lparr>fd_head := None, fd_index := []\<rparr>"

definition fork_pop_block :: "fork_database \<Rightarrow> fork_database result" where
  "fork_pop_block F =
     bindE (the_or (Assert Not_found) (fd_head F)) (\<lambda>h.
     bindE (the_or (Assert Not_found) (lock_prev F h)) (\<lambda>q. Inr (F\<lparr>fd_head := Some q\<rparr>)))"

definition fork_start_block :: "block_lib \<Rightarrow> signed_block \<Rightarrow> fork_database \<Rightarrow> fork_database" where
  "fork_start_block B b F =
     (let p = length (fd_items F)
      in (index_insert p (F\<lparr>fd_items := fd_items F @ [mk_fork_item B b]\<rparr>))\<lparr>fd_head := Some p\<rparr>)"

definition oldest :: "32 word \<Rightarrow> 32 word \<Rightarrow> int" where
  "oldest head_num max_size = max 0 (uint head_num - uint max_size)"

definition higher :: "fork_database \<Rightarrow> nat \<Rightarrow> bool" where
  "higher F p = (case fd_head F of None \<Rightarrow> True | Some h \<Rightarrow> fi_num (item F p) > fi_num (item F h))"

definition fork_push_block :: "block_lib \<Rightarrow> signed_block \<Rightarrow> fork_database \<Rightarrow> (nat \<times> fork_database) result" where
  "fork_push_block B b F =
     (let p = length (fd_items F); i = mk_fork_item B b in
      bindE (case fd_head F of None \<Rightarrow> Inr ()
             | Some h \<Rightarrow> require (uint (fi_num i) > oldest (fi_num (item F h)) (fd_max_size F)) Limit_exceeded (Inr ())) (\<lambda>_.
      bindE (if fd_head F \<noteq> None \<and> previous_id i \<noteq> no_block then
               bindE (the_or Unlinkable_block (find_id F (fd_index F) (previous_id i))) (\<lambda>q.
               require (\<not> fi_invalid (item F q)) Bad_status (Inr (i\<lparr>fi_prev := Some q\<rparr>)))
             else Inr i) (\<lambda>i1.
      let F1 = index_insert p (F\<lparr>fd_items := fd_items F @ [i1]\<rparr>);
          F2 = (if higher F1 p then F1\<lparr>fd_head := Some p\<rparr> else F1)
      in Inr (the (fd_head F2), F2))))"

definition fork_set_max_size :: "32 word \<Rightarrow> fork_database \<Rightarrow> fork_database" where
  "fork_set_max_size s F =
     (let F1 = F\<lparr>fd_max_size := s\<rparr>
      in case fd_head F of None \<Rightarrow> F1
         | Some h \<Rightarrow>
             let keep = filter (\<lambda>p. uint (fi_num (item F p)) \<ge> oldest (fi_num (item F h)) s)
             in F1\<lparr>fd_index := keep (fd_index F), fd_unlinked := keep (fd_unlinked F)\<rparr>)"

definition fork_is_known_block :: "fork_database \<Rightarrow> block_id_type \<Rightarrow> bool" where
  "fork_is_known_block F i =
     (if find_id F (fd_index F) i \<noteq> None then True else find_id F (fd_unlinked F) i \<noteq> None)"

definition fork_fetch_block :: "fork_database \<Rightarrow> block_id_type \<Rightarrow> nat option" where
  "fork_fetch_block F i =
     (case find_id F (fd_index F) i of Some p \<Rightarrow> Some p | None \<Rightarrow> find_id F (fd_unlinked F) i)"

definition fetch_block_by_number :: "fork_database \<Rightarrow> 32 word \<Rightarrow> nat list" where
  "fetch_block_by_number F n = filter (\<lambda>p. fi_num (item F p) = n) (fd_index F)"

text \<open>
  The loops that follow the links back; \<open>None\<close> is a loop that does not end. The first climbs
  down to a height, the second climbs down two branches at once until they have the same parent.
\<close>

partial_function (option) climb ::
  "block_lib \<Rightarrow> fork_database \<Rightarrow> 32 word \<Rightarrow> nat \<Rightarrow> nat list \<Rightarrow> (nat \<times> nat list) result option" where
  "climb B F n p acc =
     (if block_num B (fi_data (item F p)) > n then
        (case lock_prev F p of
           None \<Rightarrow> Some (Inl (Assert Not_found))
         | Some q \<Rightarrow> climb B F n q (acc @ [p]))
      else Some (Inr (p, acc)))"

partial_function (option) join_branches ::
  "fork_database \<Rightarrow> nat \<Rightarrow> nat \<Rightarrow> nat list \<Rightarrow> nat list \<Rightarrow> (nat list \<times> nat list) result option" where
  "join_branches F p q ps qs =
     (if bl_previous (fi_data (item F p)) \<noteq> bl_previous (fi_data (item F q)) then
        (case lock_prev F p of
           None \<Rightarrow> Some (Inl (Assert Not_found))
         | Some p1 \<Rightarrow>
             (case lock_prev F q of
                None \<Rightarrow> Some (Inl (Assert Not_found))
              | Some q1 \<Rightarrow> join_branches F p1 q1 (ps @ [p]) (qs @ [q])))
      else Some (Inr (ps @ [p], qs @ [q])))"

definition fetch_branch_from ::
  "block_lib \<Rightarrow> fork_database \<Rightarrow> block_id_type \<Rightarrow> block_id_type \<Rightarrow> (nat list \<times> nat list) result option" where
  "fetch_branch_from B F first second =
     (case find_id F (fd_index F) first of
        None \<Rightarrow> Some (Inl (Assert Not_found))
      | Some p \<Rightarrow>
     (case find_id F (fd_index F) second of
        None \<Rightarrow> Some (Inl (Assert Not_found))
      | Some q \<Rightarrow>
     (case climb B F (block_num B (fi_data (item F q))) p [] of
        None \<Rightarrow> None
      | Some (Inl e) \<Rightarrow> Some (Inl e)
      | Some (Inr (p1, ps)) \<Rightarrow>
     (case climb B F (block_num B (fi_data (item F p1))) q [] of
        None \<Rightarrow> None
      | Some (Inl e) \<Rightarrow> Some (Inl e)
      | Some (Inr (q1, qs)) \<Rightarrow> join_branches F p1 q1 ps qs))))"

partial_function (option) walk_to :: "fork_database \<Rightarrow> 32 word \<Rightarrow> nat option \<Rightarrow> nat option option" where
  "walk_to F n next =
     (case next of
        None \<Rightarrow> Some None
      | Some p \<Rightarrow> if fi_num (item F p) > n then walk_to F n (lock_prev F p) else Some (Some p))"

definition walk_main_branch_to_num :: "fork_database \<Rightarrow> 32 word \<Rightarrow> nat option option" where
  "walk_main_branch_to_num F n =
     (case fd_head F of
        None \<Rightarrow> None
      | Some h \<Rightarrow> if n > fi_num (item F h) then Some None else walk_to F n (Some h))"

definition fetch_block_on_main_branch_by_number :: "fork_database \<Rightarrow> 32 word \<Rightarrow> nat option option" where
  "fetch_block_on_main_branch_by_number F n =
     (case fetch_block_by_number F n of
        [p] \<Rightarrow> Some (Some p)
      | [] \<Rightarrow> Some None
      | _ \<Rightarrow> walk_main_branch_to_num F n)"

definition fork_set_head :: "nat \<Rightarrow> fork_database \<Rightarrow> fork_database" where
  "fork_set_head h F = F\<lparr>fd_head := Some h\<rparr>"

definition fork_remove :: "block_id_type \<Rightarrow> fork_database \<Rightarrow> fork_database" where
  "fork_remove i F = F\<lparr>fd_index := filter (\<lambda>p. fi_id (item F p) \<noteq> i) (fd_index F)\<rparr>"

end
