(* ===== verification/Witness_Objects.thy ===== *)
theory Witness_Objects
  imports Chainbase Assets Fork_Database
begin

text \<open>
  The objects block production works on: the dynamic global properties, the witnesses and their
  schedule (\<open>chain/schema/witness_objects.hpp\<close>, \<open>global_property_object.hpp\<close>,
  \<open>hardfork_property_object\<close>), and the slots of \<open>chain/database/database.cpp\<close>: the times at
  which blocks are due and the witness each is due from. A \<open>time_point_sec\<close> is its 32-bit number
  of seconds. A signing key is \<open>None\<close> when it is \<open>public_key_type()\<close>.
\<close>

record chain_properties =
  cp_account_creation_fee :: asset
  cp_maximum_block_size :: "32 word"

datatype witness_schedule_type = Top20 | Timeshare | Unscheduled

record witness_object =
  w_owner :: string
  w_total_missed :: "32 word"
  w_last_aslot :: "64 word"
  w_last_confirmed_block_num :: "64 word"
  w_signing_key :: "nat option"
  w_props :: chain_properties
  w_votes :: int
  w_schedule :: witness_schedule_type
  w_virtual_last_update :: "128 word"
  w_virtual_position :: "128 word"
  w_virtual_scheduled_time :: "128 word"
  w_running_version :: "32 word"
  w_hardfork_version_vote :: "32 word"
  w_hardfork_time_vote :: "32 word"

definition witness_key :: "witness_object \<Rightarrow> witness_object \<Rightarrow> bool" where
  "witness_key v w \<longleftrightarrow> w_owner v = w_owner w"

record witness_schedule_object =
  ws_current_virtual_time :: "128 word"
  ws_next_shuffle_block_num :: "32 word"
  ws_current_shuffled_witnesses :: "string list"
  ws_num_scheduled_witnesses :: "8 word"
  ws_top20_weight :: "8 word"
  ws_timeshare_weight :: "8 word"
  ws_witness_pay_normalization_factor :: "32 word"
  ws_median_props :: chain_properties
  ws_majority_version :: "32 word"
  ws_max_voted_witnesses :: "8 word"
  ws_hardfork_required_witnesses :: "8 word"

record hardfork_property_object =
  hp_current_hardfork_version :: "32 word"
  hp_next_hardfork :: "32 word"
  hp_next_hardfork_time :: "32 word"

record dynamic_global_property_object =
  dg_head_block_number :: "32 word"
  dg_head_block_id :: block_id_type
  dg_time :: "32 word"
  dg_total_expert_tokens_amount :: int
  dg_maximum_block_size :: "32 word"
  dg_current_aslot :: "64 word"
  dg_recent_slots_filled :: "128 word"
  dg_participation_count :: "8 word"
  dg_last_irreversible_block_num :: "32 word"

text \<open>
  The part of the database that block production reads and writes. The three singletons are kept
  by themselves; the witnesses are in an index of the object store. \<open>bs_log\<close> is the block log.
\<close>

record block_state =
  bs_dgp :: dynamic_global_property_object
  bs_schedule :: witness_schedule_object
  bs_hardfork :: hardfork_property_object
  bs_witnesses :: "witness_object generic_index"
  bs_fork_db :: fork_database
  bs_log :: "signed_block list"

abbreviation head_num :: "block_state \<Rightarrow> 32 word" where
  "head_num s \<equiv> dg_head_block_number (bs_dgp s)"

abbreviation head_time :: "block_state \<Rightarrow> 32 word" where
  "head_time s \<equiv> dg_time (bs_dgp s)"

definition DEIP_MAX_WITNESSES :: nat where "DEIP_MAX_WITNESSES = 21"

definition SLOT_INTERVAL :: nat where "SLOT_INTERVAL = 3"

text \<open>An element of a \<open>fc::array\<close>.\<close>

definition elem_at :: "'a list \<Rightarrow> nat \<Rightarrow> 'a result" where
  "elem_at xs i = (if i < length xs then Inr (xs ! i) else Inl Undefined_behaviour)"

lemma elem_at_ok [ok_iff]: "elem_at xs i = Inr y \<longleftrightarrow> i < length xs \<and> y = xs ! i"
  by (auto simp: elem_at_def)

definition get_witness :: "string \<Rightarrow> block_state \<Rightarrow> (nat \<times> witness_object) result" where
  "get_witness n s = get_row (\<lambda>w. w_owner w = n) (bs_witnesses s)"

definition modify_witness :: "nat \<Rightarrow> (witness_object \<Rightarrow> witness_object) \<Rightarrow> block_state \<Rightarrow> block_state result" where
  "modify_witness i m s = bindE (modify witness_key i m (bs_witnesses s)) (\<lambda>t. Inr (s\<lparr>bs_witnesses := t\<rparr>))"

section \<open>Slots\<close>

definition get_scheduled_witness :: "32 word \<Rightarrow> block_state \<Rightarrow> string result" where
  "get_scheduled_witness slot_num s =
     (let current_aslot = dg_current_aslot (bs_dgp s) + ucast slot_num;
          n = ws_num_scheduled_witnesses (bs_schedule s)
      in if n = 0 then Inl Division_by_zero
         else elem_at (ws_current_shuffled_witnesses (bs_schedule s)) (unat (current_aslot mod ucast n)))"

definition get_slot_time :: "32 word \<Rightarrow> block_state \<Rightarrow> 32 word" where
  "get_slot_time slot_num s =
     (if slot_num = 0 then 0
      else if head_num s = 0 then head_time s + slot_num * of_nat SLOT_INTERVAL
      else let head_block_abs_slot = unat (head_time s) div SLOT_INTERVAL;
               head_slot_time = of_nat (head_block_abs_slot * SLOT_INTERVAL)
           in head_slot_time + slot_num * of_nat SLOT_INTERVAL)"

definition get_slot_at_time :: "32 word \<Rightarrow> block_state \<Rightarrow> 32 word" where
  "get_slot_at_time at_time s =
     (let first_slot_time = get_slot_time 1 s
      in if at_time < first_slot_time then 0
         else of_nat ((unat at_time - unat first_slot_time) div SLOT_INTERVAL + 1))"

text \<open>The time of slot 0, from which the slots count.\<close>

definition slot_zero :: "block_state \<Rightarrow> nat" where
  "slot_zero s = (if head_num s = 0 then unat (head_time s)
     else unat (head_time s) div SLOT_INTERVAL * SLOT_INTERVAL)"

lemma slot_time_nat:
  assumes "slot_num \<noteq> 0" "slot_zero s + unat slot_num * SLOT_INTERVAL < 2 ^ 32"
  shows "unat (get_slot_time slot_num s) = slot_zero s + unat slot_num * SLOT_INTERVAL"
proof -
  have w: "get_slot_time slot_num s = of_nat (slot_zero s) + slot_num * of_nat SLOT_INTERVAL"
    using assms(1) by (simp add: get_slot_time_def slot_zero_def Let_def)
  have "of_nat (slot_zero s + unat slot_num * SLOT_INTERVAL) = get_slot_time slot_num s"
    by (simp add: w)
  then show ?thesis
    by (rule of_nat_inverse) (use assms(2) in simp)
qed

text \<open>
  C38. The slots and their times correspond, as long as the times fit 32 bits: the slot at the
  time of slot \<open>n\<close> is \<open>n\<close>, and every time from the first slot on lies in the three seconds of
  its slot.
\<close>

theorem slots_and_times:
  assumes "slot_num \<noteq> 0" "slot_zero s + unat slot_num * SLOT_INTERVAL < 2 ^ 32"
    and "get_slot_time 1 s \<le> at_time" "slot_zero s + SLOT_INTERVAL < 2 ^ 32"
  shows "get_slot_at_time (get_slot_time slot_num s) s = slot_num \<and>
    get_slot_time (get_slot_at_time at_time s) s \<le> at_time \<and>
    unat at_time < unat (get_slot_time (get_slot_at_time at_time s) s) + SLOT_INTERVAL"
proof -
  have one: "unat (get_slot_time 1 s) = slot_zero s + SLOT_INTERVAL"
    using slot_time_nat [of 1 s] assms(4) by simp
  have n: "unat (get_slot_time slot_num s) = slot_zero s + unat slot_num * SLOT_INTERVAL" "1 \<le> unat slot_num"
    using slot_time_nat [OF assms(1,2)] assms(1) by (auto simp: Suc_le_eq unat_gt_0)
  then have ge: "\<not> get_slot_time slot_num s < get_slot_time 1 s"
    by (simp add: word_less_nat_alt one)
  have "(unat slot_num * SLOT_INTERVAL - SLOT_INTERVAL) div SLOT_INTERVAL + 1 = unat slot_num"
    using n(2) by (simp add: SLOT_INTERVAL_def)
  then have here: "get_slot_at_time (get_slot_time slot_num s) s = slot_num"
    using ge by (simp add: get_slot_at_time_def Let_def one n)
  let ?k = "(unat at_time - unat (get_slot_time 1 s)) div SLOT_INTERVAL + 1"
  have le: "unat (get_slot_time 1 s) \<le> unat at_time"
    using assms(3) by (simp add: word_le_nat_alt)
  have k: "get_slot_at_time at_time s = of_nat ?k"
    using assms(3) by (simp add: get_slot_at_time_def Let_def not_less)
  have bounds: "slot_zero s + ?k * SLOT_INTERVAL \<le> unat at_time" "unat at_time < slot_zero s + ?k * SLOT_INTERVAL + SLOT_INTERVAL"
    using le one by (simp_all add: SLOT_INTERVAL_def)
  have lt: "unat at_time < 2 ^ 32"
    using unsigned_less [of at_time] by simp
  then have small: "?k < 2 ^ 32"
    using bounds(1) by (simp add: SLOT_INTERVAL_def)
  then have uk: "unat (of_nat ?k :: 32 word) = ?k"
    using of_nat_inverse [where 'a = 32, OF refl, of ?k] by simp
  then have nz: "(of_nat ?k :: 32 word) \<noteq> 0"
    by (metis Suc_eq_plus1 nat.distinct(1) unat_0)
  have "unat (get_slot_time (of_nat ?k) s) = slot_zero s + ?k * SLOT_INTERVAL"
    using slot_time_nat [OF nz] bounds(1) lt by (simp only: uk)
  then show ?thesis
    using here bounds by (simp add: k word_le_nat_alt)
qed

end
