(* ===== verification/Witness_Schedule.thy ===== *)
theory Witness_Schedule
  imports Witness_Objects "HOL-Library.Product_Lexorder" "HOL-Library.Multiset"
begin

unbundle bit_operations_syntax

text \<open>
  The schedule of the witnesses, \<open>chain/database/database_witness_schedule.cpp\<close>: every 21 blocks
  the witnesses with the most votes and the ones whose virtual time comes next are chosen, their
  virtual times advance, versions are counted, and the chosen are shuffled. Parameters are the
  128-bit arithmetic of \<open>fc\<close> and the order of account names, as the place \<open>N\<close> of a name in it.
\<close>

fun mapE :: "('a \<Rightarrow> 'b result) \<Rightarrow> 'a list \<Rightarrow> 'b list result" where
  "mapE f [] = Inr []"
| "mapE f (x # xs) = bindE (f x) (\<lambda>y. bindE (mapE f xs) (\<lambda>ys. Inr (y # ys)))"

section \<open>Virtual time\<close>

text \<open>\<open>VIRTUAL_SCHEDULE_LAP_LENGTH / (votes + 1)\<close>.\<close>

definition lap :: "fc_lib \<Rightarrow> int \<Rightarrow> 128 word result" where
  "lap L votes = bindE (raw (votes + 1)) (\<lambda>k. the_or Division_by_zero (u128_div L (- 1) (u128_of_int L k)))"

definition by_vote_name :: "(string \<Rightarrow> nat) \<Rightarrow> witness_object generic_index \<Rightarrow> (nat \<times> witness_object) list" where
  "by_vote_name N t = sort_key (\<lambda>p. (- w_votes (snd p), N (w_owner (snd p)))) (rows t)"

definition by_schedule_time :: "witness_object generic_index \<Rightarrow> (nat \<times> witness_object) list" where
  "by_schedule_time t = sort_key (\<lambda>p. (w_virtual_scheduled_time (snd p), fst p)) (rows t)"

definition restart_lap :: "fc_lib \<Rightarrow> nat \<times> witness_object \<Rightarrow> block_state \<Rightarrow> block_state result" where
  "restart_lap L p s =
     bindE (lap L (w_votes (snd p))) (\<lambda>d.
     modify_witness (fst p) (\<lambda>w. w\<lparr>w_virtual_position := 0,
       w_virtual_last_update := ws_current_virtual_time (bs_schedule s), w_virtual_scheduled_time := d\<rparr>) s)"

definition reset_virtual_schedule_time :: "fc_lib \<Rightarrow> block_state \<Rightarrow> block_state result" where
  "reset_virtual_schedule_time L s =
     foldE (restart_lap L) (rows (bs_witnesses s)) (s\<lparr>bs_schedule := (bs_schedule s)\<lparr>ws_current_virtual_time := 0\<rparr>\<rparr>)"

section \<open>Choosing the witnesses\<close>

text \<open>The witnesses with the most votes that have a signing key, up to a number of them.\<close>

fun elect ::
  "nat \<Rightarrow> (nat \<times> witness_object) list \<Rightarrow> nat list \<Rightarrow> string list \<Rightarrow> block_state \<Rightarrow>
   (nat list \<times> string list \<times> block_state) result" where
  "elect n [] sel act s = Inr (sel, act, s)"
| "elect n (p # ps) sel act s =
     (if length sel < n then
        if w_signing_key (snd p) = None then elect n ps sel act s
        else bindE (modify_witness (fst p) (w_schedule_update (\<lambda>_. Top20)) s)
               (elect n ps (sel @ [fst p]) (act @ [w_owner (snd p)]))
      else Inr (sel, act, s))"

text \<open>
  The running witnesses in the lead: in the order of their virtual times until there are 21; the
  time of the last one looked at is everybody's new time.
\<close>

fun run_lead ::
  "nat list \<Rightarrow> (nat \<times> witness_object) list \<Rightarrow> nat \<Rightarrow> 128 word \<Rightarrow> nat list \<Rightarrow> string list \<Rightarrow> block_state \<Rightarrow>
   (128 word \<times> nat list \<times> string list \<times> block_state) result" where
  "run_lead sel [] chosen time processed act s = Inr (time, processed, act, s)"
| "run_lead sel (p # ps) chosen time processed act s =
     (if chosen < DEIP_MAX_WITNESSES then
        let time' = w_virtual_scheduled_time (snd p); processed' = processed @ [fst p] in
        if w_signing_key (snd p) = None then run_lead sel ps chosen time' processed' act s
        else if fst p \<notin> set sel then
          bindE (modify_witness (fst p) (w_schedule_update (\<lambda>_. Timeshare)) s)
            (run_lead sel ps (chosen + 1) time' processed' (act @ [w_owner (snd p)]))
        else run_lead sel ps chosen time' processed' act s
      else Inr (time, processed, act, s))"

text \<open>The next lap of every witness looked at; \<open>True\<close> when the time overflows.\<close>

fun advance :: "fc_lib \<Rightarrow> 128 word \<Rightarrow> nat list \<Rightarrow> block_state \<Rightarrow> (bool \<times> block_state) result" where
  "advance L time [] s = Inr (False, s)"
| "advance L time (i # is) s =
     bindE (the_or Undefined_behaviour (lookup (bs_witnesses s) i)) (\<lambda>w.
     bindE (lap L (w_votes w)) (\<lambda>d.
     let new_time = u128_add L time d in
     if u128_less L new_time time then Inr (True, s)
     else bindE (modify_witness i (\<lambda>w. w\<lparr>w_virtual_position := 0, w_virtual_last_update := time,
                                         w_virtual_scheduled_time := new_time\<rparr>) s) (advance L time is)))"

section \<open>Versions and hardforks\<close>

definition scheduled_witnesses :: "block_state \<Rightarrow> witness_object list result" where
  "scheduled_witnesses s =
     mapE (\<lambda>i. bindE (elem_at (ws_current_shuffled_witnesses (bs_schedule s)) i) (\<lambda>n.
               bindE (get_witness n s) (\<lambda>p. Inr (snd p))))
       [0..<unat (ws_num_scheduled_witnesses (bs_schedule s))]"

text \<open>A \<open>flat_map\<close> with \<open>std::greater\<close> that counts, and the searches in it.\<close>

fun tally :: "'a::linorder \<Rightarrow> ('a \<times> nat) list \<Rightarrow> ('a \<times> nat) list" where
  "tally v [] = [(v, 1)]"
| "tally v ((u, k) # m) =
     (if v = u then (u, k + 1) # m else if v > u then (v, 1) # (u, k) # m else (u, k) # tally v m)"

fun majority :: "nat \<Rightarrow> nat \<Rightarrow> ('a \<times> nat) list \<Rightarrow> 'a option" where
  "majority required n [] = None"
| "majority required n ((v, k) # m) = (if n + k \<ge> required then Some v else majority required (n + k) m)"

fun vote :: "nat \<Rightarrow> ('a \<times> nat) list \<Rightarrow> 'a option" where
  "vote required [] = None"
| "vote required ((v, k) # m) = (if k \<ge> required then Some v else vote required m)"

definition majority_version :: "witness_object list \<Rightarrow> block_state \<Rightarrow> 32 word" where
  "majority_version ws s =
     (case majority (unat (ws_hardfork_required_witnesses (bs_schedule s))) 0
             (fold (\<lambda>w. tally (w_running_version w)) ws []) of
        Some v \<Rightarrow> v | None \<Rightarrow> ws_majority_version (bs_schedule s))"

definition vote_hardfork :: "witness_object list \<Rightarrow> block_state \<Rightarrow> block_state" where
  "vote_hardfork ws s =
     (let hp = bs_hardfork s in
      case vote (unat (ws_hardfork_required_witnesses (bs_schedule s)))
             (fold (\<lambda>w. tally (w_hardfork_version_vote w, w_hardfork_time_vote w)) ws []) of
        Some (v, t) \<Rightarrow>
          if hp_next_hardfork hp \<noteq> v \<or> hp_next_hardfork_time hp \<noteq> t
          then s\<lparr>bs_hardfork := hp\<lparr>hp_next_hardfork := v, hp_next_hardfork_time := t\<rparr>\<rparr> else s
      | None \<Rightarrow> s\<lparr>bs_hardfork := hp\<lparr>hp_next_hardfork := hp_current_hardfork_version hp\<rparr>\<rparr>)"

section \<open>The shuffle\<close>

definition swap :: "'a list \<Rightarrow> nat \<Rightarrow> nat \<Rightarrow> 'a list" where
  "swap xs i j = xs[i := xs ! j, j := xs ! i]"

definition shuffle_index :: "64 word \<Rightarrow> nat \<Rightarrow> nat \<Rightarrow> nat" where
  "shuffle_index now_hi n i =
     (let k = now_hi + of_nat i * 2685821657736338717;
          k = k XOR drop_bit 12 k;
          k = k XOR push_bit 25 k;
          k = k XOR drop_bit 27 k;
          k = k * 2685821657736338717
      in i + unat (k mod of_nat (n - i)))"

definition shuffle :: "32 word \<Rightarrow> nat \<Rightarrow> 'a list \<Rightarrow> 'a list" where
  "shuffle now n xs = foldl (\<lambda>xs i. swap xs i (shuffle_index (push_bit 32 (ucast now)) n i)) xs [0..<n]"

section \<open>The new round\<close>

text \<open>
  \<open>std::sort\<close> leaves open how it orders equal fees and sizes; the model keeps their order, which
  matters to nothing but the symbol of the median fee.
\<close>

definition update_median_witness_props :: "block_state \<Rightarrow> block_state result" where
  "update_median_witness_props s =
     bindE (scheduled_witnesses s) (\<lambda>active.
     let active1 = sort_key (\<lambda>w. amount (cp_account_creation_fee (w_props w))) active;
         active2 = sort_key (\<lambda>w. cp_maximum_block_size (w_props w)) active1 in
     bindE (elem_at active1 (length active1 div 2)) (\<lambda>f.
     bindE (elem_at active2 (length active2 div 2)) (\<lambda>b.
       let size = cp_maximum_block_size (w_props b) in
       Inr (s\<lparr>bs_schedule := (bs_schedule s)\<lparr>ws_median_props :=
                \<lparr>cp_account_creation_fee = cp_account_creation_fee (w_props f), cp_maximum_block_size = size\<rparr>\<rparr>,
              bs_dgp := (bs_dgp s)\<lparr>dg_maximum_block_size := size\<rparr>\<rparr>))))"

definition new_round :: "string list \<Rightarrow> nat \<Rightarrow> nat \<Rightarrow> 128 word \<Rightarrow> 32 word \<Rightarrow> block_state \<Rightarrow> witness_schedule_object" where
  "new_round active num_elected num_timeshare time version s =
     (let w = bs_schedule s;
          names = active @ replicate (DEIP_MAX_WITNESSES - length active) [];
          n = max (of_nat (length active)) 1
      in w\<lparr>ws_num_scheduled_witnesses := n,
           ws_witness_pay_normalization_factor :=
             of_nat (unat (ws_top20_weight w) * num_elected + unat (ws_timeshare_weight w) * num_timeshare),
           ws_current_shuffled_witnesses := shuffle (head_time s) (unat n) names,
           ws_current_virtual_time := time,
           ws_next_shuffle_block_num := head_num s + ucast n,
           ws_majority_version := version\<rparr>)"

definition update_witness_schedule :: "fc_lib \<Rightarrow> (string \<Rightarrow> nat) \<Rightarrow> block_state \<Rightarrow> block_state result" where
  "update_witness_schedule L N s =
     (if unat (head_num s) mod DEIP_MAX_WITNESSES \<noteq> 0 then Inr s
      else
        bindE (elect (unat (ws_max_voted_witnesses (bs_schedule s))) (by_vote_name N (bs_witnesses s)) [] [] s)
          (\<lambda>(sel, elected, s1).
        bindE (run_lead sel (by_schedule_time (bs_witnesses s1)) (length sel)
                 (ws_current_virtual_time (bs_schedule s1)) [] elected s1) (\<lambda>(time, processed, active, s2).
        bindE (advance L time processed s2) (\<lambda>(reset, s3).
        bindE (if reset then reset_virtual_schedule_time L s3 else Inr s3) (\<lambda>s4.
        require (length active = min DEIP_MAX_WITNESSES (length (rows (bs_witnesses s4)))) Bad_size (
        bindE (scheduled_witnesses s4) (\<lambda>ws.
          let s5 = vote_hardfork ws s4 in
          update_median_witness_props (s5\<lparr>bs_schedule :=
            new_round active (length elected) (length active - length elected) (if reset then 0 else time)
              (majority_version ws s4) s5\<rparr>)))))))) "

end
