(* ===== verification/Schedule_Properties.thy ===== *)
theory Schedule_Properties
  imports Witness_Schedule
begin

text \<open>
  What a new round of the schedule is: a permutation of the witnesses chosen, who are distinct
  and have a signing key. And when there can be no new round.
\<close>

section \<open>The shuffle permutes\<close>

lemma swap_front:
  assumes "i < n" "j < n" "n \<le> length xs"
  shows "mset (take n (swap xs i j)) = mset (take n xs)" "drop n (swap xs i j) = drop n xs"
proof -
  have "take n (swap xs i j) = (take n xs)[i := take n xs ! j, j := take n xs ! i]"
    using assms by (simp add: swap_def take_update_swap)
  then show "mset (take n (swap xs i j)) = mset (take n xs)"
    by (simp only:) (rule mset_swap, use assms in auto)
  show "drop n (swap xs i j) = drop n xs"
    using assms by (simp add: swap_def)
qed

lemma shuffle_index_range: "i < n \<Longrightarrow> n < 2 ^ 64 \<Longrightarrow> shuffle_index h n i < n"
proof -
  assume i: "i < n" "n < 2 ^ 64"
  have u: "unat (of_nat m :: 64 word) = m" if "m < 2 ^ 64" for m
    by (rule of_nat_inverse [OF refl]) (use that in simp)
  have r: "unat (k mod of_nat m) < m" if "0 < m" "m < 2 ^ 64" for k :: "64 word" and m
    using that u [OF that(2)] by (simp add: unat_mod_distrib)
  have "unat (k mod of_nat (n - i)) < n - i" for k :: "64 word"
    by (rule r) (use i in auto)
  moreover have "\<exists>k :: 64 word. shuffle_index h n i = i + unat (k mod of_nat (n - i))"
    unfolding shuffle_index_def Let_def by blast
  ultimately show ?thesis
    by (metis add.commute less_diff_conv)
qed

lemma shuffle_front:
  assumes "n \<le> length xs" "n < 2 ^ 64"
  shows "mset (take n (shuffle now n xs)) = mset (take n xs) \<and> drop n (shuffle now n xs) = drop n xs \<and>
    length (shuffle now n xs) = length xs"
proof -
  have "mset (take n (foldl (\<lambda>xs i. swap xs i (shuffle_index h n i)) xs is)) = mset (take n xs) \<and>
    drop n (foldl (\<lambda>xs i. swap xs i (shuffle_index h n i)) xs is) = drop n xs \<and>
    length (foldl (\<lambda>xs i. swap xs i (shuffle_index h n i)) xs is) = length xs"
    if "\<forall>i\<in>set is. i < n" for h "is"
    using that assms(1)
  proof (induction "is" arbitrary: xs)
    case (Cons i "is")
    have j: "shuffle_index h n i < n"
      using shuffle_index_range Cons.prems(1) assms(2) by simp
    have "length (swap xs i (shuffle_index h n i)) = length xs"
      by (simp add: swap_def)
    then show ?case
      using Cons.IH [of "swap xs i (shuffle_index h n i)"] Cons.prems swap_front [OF _ j Cons.prems(2), of i] by simp
  qed simp
  then show ?thesis
    by (simp add: shuffle_def)
qed


section \<open>What the loops leave alone\<close>

text \<open>Ids, owners and signing keys of the witnesses: no step of the update changes them.\<close>

definition face :: "nat \<times> witness_object \<Rightarrow> nat \<times> string \<times> nat option" where
  "face p = (fst p, w_owner (snd p), w_signing_key (snd p))"

definition cast :: "block_state \<Rightarrow> (nat \<times> string \<times> nat option) list" where
  "cast s = map face (rows (bs_witnesses s))"

definition recast :: "block_state \<Rightarrow> block_state \<Rightarrow> bool" where
  "recast s s' \<longleftrightarrow> cast s' = cast s \<and> s' = s\<lparr>bs_witnesses := bs_witnesses s'\<rparr>"

abbreviation ids :: "block_state \<Rightarrow> nat list" where
  "ids s \<equiv> map fst (cast s)"

lemma recast_refl: "recast s s"
  by (simp add: recast_def)

lemma recast_trans: "recast r s \<Longrightarrow> recast s t \<Longrightarrow> recast r t"
  unfolding recast_def by (metis block_state.surjective block_state.update_convs(4))

lemma recast_fields:
  assumes "recast s s'"
  shows "cast s' = cast s" "bs_dgp s' = bs_dgp s" "bs_schedule s' = bs_schedule s"
proof -
  have eq: "s' = s\<lparr>bs_witnesses := bs_witnesses s'\<rparr>"
    using assms by (simp add: recast_def)
  show "cast s' = cast s"
    using assms by (simp add: recast_def)
  show "bs_dgp s' = bs_dgp s" "bs_schedule s' = bs_schedule s"
    by (subst eq, simp)+
qed

lemma modify_witness_recast:
  assumes "modify_witness i m s = Inr s'" "distinct (ids s)"
    and m: "\<And>w. w_owner (m w) = w_owner w" "\<And>w. w_signing_key (m w) = w_signing_key w"
  shows "recast s s'"
proof -
  obtain t where t: "modify witness_key i m (bs_witnesses s) = Inr t" "s' = s\<lparr>bs_witnesses := t\<rparr>"
    using assms(1) by (auto simp: modify_witness_def ok_iff)
  obtain v where v: "map_of (rows (bs_witnesses s)) i = Some v" "rows t = upd i (m v) (rows (bs_witnesses s))"
    using cb.modify_law [OF t(1)] by blast
  have "distinct (map fst (rows (bs_witnesses s)))"
    using assms(2) by (simp add: cast_def face_def comp_def)
  then have "map face (rows t) = map face (rows (bs_witnesses s))"
    unfolding v(2) by (rule map_upd_distinct [OF _ v(1)]) (simp add: face_def m)
  then show ?thesis
    by (simp add: recast_def cast_def t(2))
qed

lemma recast_ids: "recast s s' \<Longrightarrow> distinct (ids s') = distinct (ids s)"
  by (simp add: recast_def)

abbreviation keyed :: "nat \<times> witness_object \<Rightarrow> bool" where
  "keyed p \<equiv> w_signing_key (snd p) \<noteq> None"

abbreviation owner_of :: "nat \<times> witness_object \<Rightarrow> string" where
  "owner_of p \<equiv> w_owner (snd p)"

lemma elect_spec:
  assumes "elect n ps sel act s = Inr (sel', act', s')" "distinct (ids s)"
    and cs: "cs = take (n - length sel) (filter keyed ps)"
  shows "recast s s' \<and> sel' = sel @ map fst cs \<and> act' = act @ map owner_of cs"
  using assms
proof (induction n ps sel act s arbitrary: cs rule: elect.induct)
  case (2 n p ps sel act s)
  show ?case
  proof (cases "length sel < n \<and> keyed p")
    case True
    obtain s1 where s1: "modify_witness (fst p) (w_schedule_update (\<lambda>_. Top20)) s = Inr s1"
      "elect n ps (sel @ [fst p]) (act @ [w_owner (snd p)]) s1 = Inr (sel', act', s')"
      using "2.prems"(1) True by (auto simp: ok_iff)
    have r: "recast s s1"
      by (rule modify_witness_recast [OF s1(1) "2.prems"(2)]) simp_all
    have "recast s1 s' \<and> sel' = (sel @ [fst p]) @ map fst (take (n - length (sel @ [fst p])) (filter keyed ps)) \<and>
        act' = (act @ [w_owner (snd p)]) @ map owner_of (take (n - length (sel @ [fst p])) (filter keyed ps))"
      using True "2.prems"(2) recast_ids [OF r] by (intro "2.IH"(2) [OF _ _ s1]) auto
    moreover have "n - length sel = Suc (n - length (sel @ [fst p]))"
      using True by auto
    ultimately show ?thesis
      using recast_trans [OF r] True by (simp add: "2.prems"(3))
  next
    case False
    then show ?thesis
      using "2.prems" "2.IH"(1) [OF _ _ _ "2.prems"(2) refl] by (auto simp: recast_refl split: if_splits)
  qed
qed (simp add: recast_refl)

lemma run_lead_spec:
  assumes "run_lead sel ps k time pr act s = Inr (time', pr', act', s')" "distinct (ids s)"
    and cs: "cs = take (DEIP_MAX_WITNESSES - k) (filter (\<lambda>p. keyed p \<and> fst p \<notin> set sel) ps)"
  shows "recast s s' \<and> act' = act @ map owner_of cs"
  using assms
proof (induction sel ps k time pr act s arbitrary: cs rule: run_lead.induct)
  case (2 sel p ps k time pr act s)
  show ?case
  proof (cases "k < DEIP_MAX_WITNESSES \<and> keyed p \<and> fst p \<notin> set sel")
    case True
    obtain s1 where s1: "modify_witness (fst p) (w_schedule_update (\<lambda>_. Timeshare)) s = Inr s1"
      "run_lead sel ps (k + 1) (w_virtual_scheduled_time (snd p)) (pr @ [fst p]) (act @ [w_owner (snd p)]) s1
         = Inr (time', pr', act', s')"
      using "2.prems"(1) True by (auto simp: ok_iff Let_def)
    have r: "recast s s1"
      by (rule modify_witness_recast [OF s1(1) "2.prems"(2)]) simp_all
    let ?cs = "take (DEIP_MAX_WITNESSES - (k + 1)) (filter (\<lambda>p. keyed p \<and> fst p \<notin> set sel) ps)"
    have "recast s1 s' \<and> act' = (act @ [w_owner (snd p)]) @ map owner_of ?cs"
      using True "2.prems"(2) recast_ids [OF r] by (intro "2.IH"(2) [OF _ refl refl _ _ s1]) auto
    moreover have "DEIP_MAX_WITNESSES - k = Suc (DEIP_MAX_WITNESSES - (k + 1))"
      using True by auto
    ultimately show ?thesis
      using recast_trans [OF r] True by (simp add: "2.prems"(3))
  next
    case False
    then show ?thesis
      using "2.prems" "2.IH"(1) [OF _ refl refl _ _ "2.prems"(2) refl] "2.IH"(3) [OF _ refl refl _ _ _ "2.prems"(2) refl]
      by (auto simp: recast_refl Let_def split: if_splits)
  qed
qed (simp add: recast_refl)

lemma advance_recast: "advance L time is s = Inr (b, s') \<Longrightarrow> distinct (ids s) \<Longrightarrow> recast s s'"
proof (induction L time "is" s rule: advance.induct)
  case (2 L time i "is" s)
  obtain w d where w: "lookup (bs_witnesses s) i = Some w" "lap L (w_votes w) = Inr d"
    using "2.prems"(1) by (auto simp: ok_iff)
  show ?case
  proof (cases "u128_less L (u128_add L time d) time")
    case True
    then show ?thesis
      using "2.prems"(1) w by (simp add: recast_refl Let_def)
  next
    case False
    let ?m = "\<lambda>w. w\<lparr>w_virtual_position := 0, w_virtual_last_update := time, w_virtual_scheduled_time := u128_add L time d\<rparr>"
    obtain s1 where s1: "modify_witness i ?m s = Inr s1" "advance L time is s1 = Inr (b, s')"
      using "2.prems"(1) w False by (auto simp: ok_iff Let_def)
    have r: "recast s s1"
      by (rule modify_witness_recast [OF s1(1) "2.prems"(2)]) simp_all
    have "recast s1 s'"
      using "2.IH" [OF _ _ refl False s1(1,2)] w "2.prems"(2) recast_ids [OF r] by simp
    then show ?thesis
      by (rule recast_trans [OF r])
  qed
qed (simp add: recast_refl)

lemma reset_recast:
  assumes "reset_virtual_schedule_time L s = Inr s'" "distinct (ids s)"
  shows "recast (s\<lparr>bs_schedule := (bs_schedule s)\<lparr>ws_current_virtual_time := 0\<rparr>\<rparr>) s'" (is "recast ?s s'")
proof -
  have run: "foldE (restart_lap L) (rows (bs_witnesses s)) ?s = Inr s'"
    using assms(1) by (simp add: reset_virtual_schedule_time_def)
  have step: "recast ?s t" if u: "recast ?s u" and t: "restart_lap L p u = Inr t" for p t u
  proof -
    obtain d where "modify_witness (fst p) (\<lambda>w. w\<lparr>w_virtual_position := 0,
        w_virtual_last_update := ws_current_virtual_time (bs_schedule u), w_virtual_scheduled_time := d\<rparr>) u = Inr t"
      using t by (auto simp: restart_lap_def ok_iff)
    moreover have "distinct (ids u)"
      using assms(2) recast_ids [OF u] by (simp add: cast_def)
    ultimately have "recast u t"
      by (rule modify_witness_recast) simp_all
    then show ?thesis
      by (rule recast_trans [OF u])
  qed
  show ?thesis
    by (rule foldE_invariant [where P = "recast ?s", OF _ run recast_refl]) (rule step)
qed

lemma mapE_Inr: "mapE f xs = Inr ys \<Longrightarrow> x \<in> set xs \<Longrightarrow> \<exists>y\<in>set ys. f x = Inr y"
  by (induction xs arbitrary: ys) (auto simp: ok_iff)

lemma update_median_Inr:
  assumes "update_median_witness_props s = Inr s'"
  shows "\<exists>mp. bs_schedule s' = (bs_schedule s)\<lparr>ws_median_props := mp\<rparr>"
    "0 < unat (ws_num_scheduled_witnesses (bs_schedule s)) \<Longrightarrow> rows (bs_witnesses s) \<noteq> []"
proof -
  show "\<exists>mp. bs_schedule s' = (bs_schedule s)\<lparr>ws_median_props := mp\<rparr>"
    using assms by (auto simp: update_median_witness_props_def ok_iff Let_def)
  obtain ws where ws: "scheduled_witnesses s = Inr ws"
    using assms by (auto simp: update_median_witness_props_def ok_iff)
  show "rows (bs_witnesses s) \<noteq> []" if "0 < unat (ws_num_scheduled_witnesses (bs_schedule s))"
    using mapE_Inr [OF ws [unfolded scheduled_witnesses_def], of 0] that
    by (auto simp: ok_iff get_witness_def get_row_def find_row_def)
qed

section \<open>The witnesses of a new round\<close>

text \<open>
  The names chosen: 21 of them or all there are, each once and each of a witness that can sign,
  the most voted among them.
\<close>

definition chosen_from :: "(string \<Rightarrow> nat) \<Rightarrow> block_state \<Rightarrow> string list \<Rightarrow> bool" where
  "chosen_from N s names \<longleftrightarrow> distinct names \<and>
     length names = min DEIP_MAX_WITNESSES (length (rows (bs_witnesses s))) \<and>
     (\<forall>a\<in>set names. \<exists>p\<in>set (rows (bs_witnesses s)). owner_of p = a \<and> keyed p) \<and>
     set (map owner_of (take (unat (ws_max_voted_witnesses (bs_schedule s))) (filter keyed (by_vote_name N (bs_witnesses s)))))
       \<subseteq> set names"

lemma wf_cast:
  assumes "wf_index witness_key (bs_witnesses s)"
  shows "distinct (ids s)" "inj_on (\<lambda>f. fst (snd f)) (set (cast s))"
proof -
  show "distinct (ids s)"
    using sorted1_distinct [OF cb.rows_sorted [OF assms]] by (simp add: cast_def face_def comp_def)
  have "p = q" if "p \<in> set (rows (bs_witnesses s))" "q \<in> set (rows (bs_witnesses s))" "owner_of p = owner_of q" for p q
  proof -
    have "fst p = fst q"
      using cb.rows_unique [OF assms, of "fst p" "snd p" "fst q" "snd q"] that by (simp add: witness_key_def)
    then show ?thesis
      using that(1,2) cb.mem_map_of [OF assms] by (metis option.inject prod.collapse)
  qed
  then show "inj_on (\<lambda>f. fst (snd f)) (set (cast s))"
    by (fastforce simp: inj_on_def cast_def face_def)
qed

lemma distinct_owners:
  assumes "wf_index witness_key (bs_witnesses s)" "face ` set ps \<subseteq> set (cast s)" "distinct (map fst ps)"
  shows "distinct (map owner_of ps)"
proof -
  have "distinct (map face ps)"
    using assms(3) by (auto simp: distinct_map inj_on_def face_def)
  then have "distinct (map (\<lambda>f. fst (snd f)) (map face ps))"
    using inj_on_subset [OF wf_cast(2) [OF assms(1)] assms(2)] by (subst distinct_map) simp
  then show ?thesis
    by (simp add: face_def comp_def)
qed

lemma keyed_faces: "face ` {p \<in> set (rows (bs_witnesses s)). keyed p} = {f \<in> set (cast s). snd (snd f) \<noteq> None}"
  by (auto simp: cast_def face_def image_iff)

lemma set_take_filter: "set (take n (filter P xs)) \<subseteq> {p \<in> set xs. P p}"
  by (auto dest: in_set_takeD)

lemma elected_and_running:
  assumes wf: "wf_index witness_key (bs_witnesses s)"
    and el: "elect (unat (ws_max_voted_witnesses (bs_schedule s))) (by_vote_name N (bs_witnesses s)) [] [] s = Inr (sel, elected, s1)"
    and ru: "run_lead sel (by_schedule_time (bs_witnesses s1)) (length sel) time [] elected s1 = Inr (time', pr, active, s2)"
  shows "recast s s2"
    "length active = min DEIP_MAX_WITNESSES (length (rows (bs_witnesses s))) \<Longrightarrow> chosen_from N s active"
proof -
  let ?E = "take (unat (ws_max_voted_witnesses (bs_schedule s))) (filter keyed (by_vote_name N (bs_witnesses s)))"
  let ?R = "take (DEIP_MAX_WITNESSES - length sel) (filter (\<lambda>p. keyed p \<and> fst p \<notin> set sel) (by_schedule_time (bs_witnesses s1)))"
  note d = wf_cast(1) [OF wf]
  have E: "recast s s1" "sel = map fst ?E" "elected = map owner_of ?E"
    using elect_spec [OF el d refl] by simp_all
  have R: "recast s1 s2" "active = elected @ map owner_of ?R"
    using run_lead_spec [OF ru _ refl] d recast_ids [OF E(1)] by simp_all
  show "recast s s2"
    by (rule recast_trans [OF E(1) R(1)])
  have act: "active = map owner_of (?E @ ?R)"
    using R(2) E(3) by simp
  have rows: "set (by_vote_name N (bs_witnesses s)) = set (rows (bs_witnesses s))"
    "set (by_schedule_time (bs_witnesses s1)) = set (rows (bs_witnesses s1))"
    by (simp_all add: by_vote_name_def by_schedule_time_def)
  have inE: "set ?E \<subseteq> {p \<in> set (rows (bs_witnesses s)). keyed p}"
    unfolding rows(1) [symmetric] by (rule set_take_filter)
  have inR: "set ?R \<subseteq> {p \<in> set (rows (bs_witnesses s1)). keyed p \<and> fst p \<notin> set sel}"
    unfolding rows(2) [symmetric] by (rule set_take_filter)
  have fE: "face ` set ?E \<subseteq> {f \<in> set (cast s). snd (snd f) \<noteq> None}"
    using image_mono [OF inE, of face] by (simp only: keyed_faces)
  have inR1: "set ?R \<subseteq> {p \<in> set (rows (bs_witnesses s1)). keyed p}"
    using inR by blast
  have "cast s1 = cast s"
    using E(1) by (simp add: recast_def)
  then have fR: "face ` set ?R \<subseteq> {f \<in> set (cast s). snd (snd f) \<noteq> None}"
    using image_mono [OF inR1, of face] by (simp only: keyed_faces)
  then have faces: "face ` set (?E @ ?R) \<subseteq> {f \<in> set (cast s). snd (snd f) \<noteq> None}"
    using fE by (simp only: set_append image_Un Un_subset_iff)
  have ids: "distinct (map fst (by_vote_name N (bs_witnesses s)))" "distinct (map fst (by_schedule_time (bs_witnesses s1)))"
    using d recast_ids [OF E(1)] by (simp_all add: by_vote_name_def by_schedule_time_def distinct_map cast_def face_def comp_def)
  then have "distinct (map fst ?E)" "distinct (map fst ?R)"
    by (simp_all add: distinct_map_filter distinct_take flip: take_map)
  moreover have "set (map fst ?E) \<inter> set (map fst ?R) = {}"
    unfolding E(2) [symmetric] using inR by (simp only: set_map) blast
  ultimately have "distinct (map fst (?E @ ?R))"
    by simp
  then have "distinct active"
    unfolding act using faces by (intro distinct_owners [OF wf]) auto
  moreover have "\<exists>p\<in>set (rows (bs_witnesses s)). owner_of p = a \<and> keyed p" if a: "a \<in> set active" for a
  proof -
    obtain q where q: "q \<in> set (?E @ ?R)" "a = owner_of q"
      using a unfolding act set_map by blast
    then have "face q \<in> face ` {p \<in> set (rows (bs_witnesses s)). keyed p}"
      unfolding keyed_faces using faces by blast
    then obtain p where "p \<in> set (rows (bs_witnesses s))" "keyed p" "face q = face p"
      by blast
    then show ?thesis
      using q(2) unfolding face_def by (metis Pair_inject)
  qed
  moreover have "set (map owner_of ?E) \<subseteq> set active"
    unfolding act by simp
  ultimately show "chosen_from N s active"
    if "length active = min DEIP_MAX_WITNESSES (length (rows (bs_witnesses s)))"
    using that by (simp add: chosen_from_def)
qed

lemma vote_hardfork_same:
  "bs_dgp (vote_hardfork ws s) = bs_dgp s" "bs_witnesses (vote_hardfork ws s) = bs_witnesses s"
  by (simp_all add: vote_hardfork_def Let_def split: option.splits prod.splits)

lemma new_round_spec:
  assumes up: "update_witness_schedule L N s = Inr s'" and now: "unat (head_num s) mod DEIP_MAX_WITNESSES = 0"
    and wf: "wf_index witness_key (bs_witnesses s)"
  obtains active where "chosen_from N s active" "rows (bs_witnesses s) \<noteq> []"
    "ws_num_scheduled_witnesses (bs_schedule s') = max (of_nat (length active)) 1"
    "ws_current_shuffled_witnesses (bs_schedule s') =
       shuffle (head_time s) (unat (max (of_nat (length active)) 1 :: 8 word)) (active @ replicate (DEIP_MAX_WITNESSES - length active) [])"
proof -
  obtain sel elected s1 time pr active s2 reset s3 s4 ws where
    el: "elect (unat (ws_max_voted_witnesses (bs_schedule s))) (by_vote_name N (bs_witnesses s)) [] [] s = Inr (sel, elected, s1)" and
    ru: "run_lead sel (by_schedule_time (bs_witnesses s1)) (length sel) (ws_current_virtual_time (bs_schedule s1)) [] elected s1
           = Inr (time, pr, active, s2)" and
    ad: "advance L time pr s2 = Inr (reset, s3)" and
    re: "(if reset then reset_virtual_schedule_time L s3 else Inr s3) = Inr s4" and
    len: "length active = min DEIP_MAX_WITNESSES (length (rows (bs_witnesses s4)))" and
    med: "update_median_witness_props ((vote_hardfork ws s4)\<lparr>bs_schedule := new_round active (length elected)
            (length active - length elected) (if reset then 0 else time) (majority_version ws s4) (vote_hardfork ws s4)\<rparr>) = Inr s'"
    using up now unfolding update_witness_schedule_def Let_def
    by (simp add: ok_iff split: prod.splits) (elim exE conjE, rule that; assumption)
  note er = elected_and_running [OF wf el ru]
  have s4: "cast s4 = cast s" "bs_dgp s4 = bs_dgp s"
  proof -
    have "distinct (ids s2)"
      using wf_cast(1) [OF wf] recast_ids [OF er(1)] by blast
    then have r3: "recast s s3"
      using recast_trans [OF er(1) advance_recast [OF ad]] by blast
    then have d3: "distinct (ids s3)"
      using wf_cast(1) [OF wf] recast_ids by blast
    show "cast s4 = cast s" "bs_dgp s4 = bs_dgp s"
      using recast_fields [OF r3] re recast_fields(1,2) [OF reset_recast [OF _ d3, of L s4]]
      by (auto simp: cast_def split: if_splits)
  qed
  have lens: "length (rows (bs_witnesses s4)) = length (rows (bs_witnesses s))"
    using arg_cong [OF s4(1), of length] by (simp add: cast_def)
  show ?thesis
  proof (rule that)
    show "chosen_from N s active"
      using er(2) len lens by simp
    note sched = update_median_Inr(1) [OF med, simplified] and some = update_median_Inr(2) [OF med, simplified]
    show num: "ws_num_scheduled_witnesses (bs_schedule s') = max (of_nat (length active)) 1"
      and "ws_current_shuffled_witnesses (bs_schedule s') =
       shuffle (head_time s) (unat (max (of_nat (length active)) 1 :: 8 word)) (active @ replicate (DEIP_MAX_WITNESSES - length active) [])"
      using sched s4(2) by (auto simp: new_round_def Let_def vote_hardfork_same)
    have "(1 :: 8 word) \<le> max (of_nat (length active)) 1"
      by (rule max.cobounded2)
    then have "unat (1 :: 8 word) \<le> unat (max (of_nat (length active)) 1 :: 8 word)"
      by (simp only: word_le_nat_alt)
    then have "0 < unat (max (of_nat (length active)) 1 :: 8 word)"
      using unat_1 [where 'a = 8] by linarith
    then show "rows (bs_witnesses s) \<noteq> []"
      using some lens by (auto simp: new_round_def Let_def vote_hardfork_same)
  qed
qed

text \<open>
  C37. When a new round of the schedule is made, its first entries are a permutation of the
  witnesses chosen, and the rest of the 21 is empty. The witnesses chosen are distinct, each has a
  signing key, there are 21 of them or as many as there are witnesses, at least one, and the most
  voted witnesses that can sign are among them.
\<close>

theorem round_is_permutation:
  assumes "update_witness_schedule L N s = Inr s'" "unat (head_num s) mod DEIP_MAX_WITNESSES = 0"
    and "wf_index witness_key (bs_witnesses s)"
  shows "\<exists>names. chosen_from N s names \<and> names \<noteq> [] \<and>
    unat (ws_num_scheduled_witnesses (bs_schedule s')) = length names \<and>
    mset (take (length names) (ws_current_shuffled_witnesses (bs_schedule s'))) = mset names \<and>
    drop (length names) (ws_current_shuffled_witnesses (bs_schedule s')) =
      replicate (DEIP_MAX_WITNESSES - length names) []"
proof -
  obtain names where n: "chosen_from N s names" "rows (bs_witnesses s) \<noteq> []"
    "ws_num_scheduled_witnesses (bs_schedule s') = max (of_nat (length names)) 1"
    "ws_current_shuffled_witnesses (bs_schedule s') =
       shuffle (head_time s) (unat (max (of_nat (length names)) 1 :: 8 word)) (names @ replicate (DEIP_MAX_WITNESSES - length names) [])"
    by (rule new_round_spec [OF assms])
  have len: "0 < length names" "length names \<le> 21"
    using n(1,2) by (auto simp: chosen_from_def DEIP_MAX_WITNESSES_def)
  have u: "unat (of_nat (length names) :: 8 word) = length names"
    by (rule of_nat_inverse [OF refl]) (use len in simp)
  then have "unat (max (of_nat (length names)) 1 :: 8 word) = length names"
    using len(1) by (auto simp: max_def word_le_nat_alt le_Suc_eq)
  then show ?thesis
    using n(1,3,4) len shuffle_front [of "length names" "names @ replicate (DEIP_MAX_WITNESSES - length names) []" "head_time s"]
    by (intro exI [of _ names]) auto
qed

text \<open>
  C39. With at most 21 witnesses of which one has no signing key, the schedule cannot be updated:
  whatever else the state holds, the block that calls for a new round throws. A witness loses its
  signing key when it misses too many blocks, so that the chain then stops at the next such block.
\<close>

theorem no_round_without_key:
  assumes "wf_index witness_key (bs_witnesses s)" "unat (head_num s) mod DEIP_MAX_WITNESSES = 0"
    and "length (rows (bs_witnesses s)) \<le> DEIP_MAX_WITNESSES"
    and "p \<in> set (rows (bs_witnesses s))" "w_signing_key (snd p) = None"
  shows "\<not> succeeds (update_witness_schedule L N s)"
proof
  assume "succeeds (update_witness_schedule L N s)"
  then obtain s' names where n: "chosen_from N s names"
    using new_round_spec [OF _ assms(2,1)] by (auto simp: succeeds_iff) blast
  let ?R = "rows (bs_witnesses s)"
  have "set names \<subseteq> owner_of ` {q \<in> set ?R. keyed q}"
    using n unfolding chosen_from_def by fast
  then have "length names \<le> card {q \<in> set ?R. keyed q}"
    using n surj_card_le [of "{q \<in> set ?R. keyed q}" "set names" owner_of]
    by (simp add: chosen_from_def distinct_card)
  also have "\<dots> < card (set ?R)"
  proof (rule psubset_card_mono)
    have "p \<notin> {q \<in> set ?R. keyed q}"
      using assms(5) by simp
    then show "{q \<in> set ?R. keyed q} \<subset> set ?R"
      using assms(4) by blast
  qed simp
  also have "\<dots> \<le> length ?R"
    by (rule card_length)
  finally show False
    using n assms(3) by (simp add: chosen_from_def)
qed

section \<open>Witnesses\<close>

definition demo_witness :: "string \<Rightarrow> nat option \<Rightarrow> int \<Rightarrow> witness_object" where
  "demo_witness n k v = \<lparr>w_owner = n, w_total_missed = 0, w_last_aslot = 0, w_last_confirmed_block_num = 0, w_signing_key = k,
     w_props = \<lparr>cp_account_creation_fee = \<lparr>amount = v, symbol = DEIP_SYMBOL\<rparr>, cp_maximum_block_size = 65536\<rparr>,
     w_votes = v, w_schedule = Unscheduled, w_virtual_last_update = 0, w_virtual_position = 0, w_virtual_scheduled_time = of_int (100 - v),
     w_running_version = 1, w_hardfork_version_vote = 0, w_hardfork_time_vote = 0\<rparr>"

definition demo_production :: "witness_object list \<Rightarrow> block_state" where
  "demo_production ws = \<lparr>
     bs_dgp = \<lparr>dg_head_block_number = 42, dg_head_block_id = no_block, dg_time = 126, dg_total_expert_tokens_amount = 100,
       dg_maximum_block_size = 65536, dg_current_aslot = 42, dg_recent_slots_filled = - 1, dg_participation_count = 128,
       dg_last_irreversible_block_num = 21\<rparr>,
     bs_schedule = \<lparr>ws_current_virtual_time = 0, ws_next_shuffle_block_num = 42,
       ws_current_shuffled_witnesses = ''alice'' # replicate 20 [], ws_num_scheduled_witnesses = 1, ws_top20_weight = 1,
       ws_timeshare_weight = 5, ws_witness_pay_normalization_factor = 25,
       ws_median_props = \<lparr>cp_account_creation_fee = \<lparr>amount = 0, symbol = DEIP_SYMBOL\<rparr>, cp_maximum_block_size = 65536\<rparr>,
       ws_majority_version = 0, ws_max_voted_witnesses = 1, ws_hardfork_required_witnesses = 1\<rparr>,
     bs_hardfork = \<lparr>hp_current_hardfork_version = 0, hp_next_hardfork = 0, hp_next_hardfork_time = 0\<rparr>,
     bs_witnesses = \<lparr>stack = [], revision = 42, next_id = length ws, rows = zip [0..<length ws] ws\<rparr>,
     bs_fork_db = empty_fork_database, bs_log = []\<rparr>"

lemmas production_eval = demo_production_def demo_witness_def

definition two_producers :: block_state where
  "two_producers = demo_production [demo_witness ''alice'' (Some 1) 10, demo_witness ''bob'' (Some 2) 30]"

lemma two_producers_round: "succeeds (update_witness_schedule fc_ref length two_producers)"
  by code_simp

lemma round_is_permutation_witness:
  "\<exists>s' names. update_witness_schedule fc_ref length two_producers = Inr s' \<and> chosen_from length two_producers names \<and>
    mset (take (length names) (ws_current_shuffled_witnesses (bs_schedule s'))) = mset names"
proof -
  obtain s' where s': "update_witness_schedule fc_ref length two_producers = Inr s'"
    using two_producers_round by (auto simp: succeeds_iff)
  have "unat (head_num two_producers) mod DEIP_MAX_WITNESSES = 0" "wf_index witness_key (bs_witnesses two_producers)"
    by (simp_all add: two_producers_def production_eval DEIP_MAX_WITNESSES_def wf_index_def wf_rows_def witness_key_def)
  from round_is_permutation [OF s' this] s' show ?thesis
    by (elim exE conjE) (intro exI conjI; assumption)
qed

lemma no_round_without_key_witness:
  "\<not> succeeds (update_witness_schedule fc_ref length
     (demo_production [demo_witness ''alice'' (Some 1) 10, demo_witness ''bob'' None 30]))" (is "\<not> succeeds (update_witness_schedule _ _ ?s)")
proof (rule no_round_without_key)
  show "wf_index witness_key (bs_witnesses ?s)" "unat (head_num ?s) mod DEIP_MAX_WITNESSES = 0"
    "length (rows (bs_witnesses ?s)) \<le> DEIP_MAX_WITNESSES"
    by (simp_all add: production_eval DEIP_MAX_WITNESSES_def wf_index_def wf_rows_def witness_key_def)
  show "(1, demo_witness ''bob'' None 30) \<in> set (rows (bs_witnesses ?s))"
    by (simp add: production_eval)
qed (simp add: demo_witness_def)

end
