(* ===== verification/Fork_Branches.thy ===== *)
theory Fork_Branches
  imports Fork_Database
begin

text \<open>
  The fork database keeps a tree: every link goes back to the item of the previous block, one
  lower, so that the loops that follow links end, and two branches meet at a common parent.
\<close>

section \<open>The invariant\<close>

definition item_ok :: "block_lib \<Rightarrow> fork_database \<Rightarrow> nat \<Rightarrow> bool" where
  "item_ok B F p \<longleftrightarrow> fi_num (item F p) = block_num B (fi_data (item F p)) \<and>
     fi_id (item F p) = block_id B (fi_data (item F p)) \<and> \<not> fi_invalid (item F p) \<and>
     (\<forall>q. fi_prev (item F p) = Some q \<longrightarrow>
        q < p \<and> fi_id (item F q) = previous_id (item F p) \<and> fi_num (item F p) \<noteq> 0)"

definition fork_ok :: "block_lib \<Rightarrow> fork_database \<Rightarrow> bool" where
  "fork_ok B F \<longleftrightarrow> fd_unlinked F = [] \<and> (\<forall>p. alive F p \<longrightarrow> p < length (fd_items F)) \<and>
     (\<forall>p<length (fd_items F). item_ok B F p) \<and> distinct (map (\<lambda>p. fi_id (item F p)) (fd_index F))"

lemma find_id_Some: "find_id F ps i = Some p \<Longrightarrow> p \<in> set ps \<and> fi_id (item F p) = i"
  by (auto simp: find_id_def find_Some_iff)

lemma find_id_None: "find_id F ps i = None \<longleftrightarrow> (\<forall>p\<in>set ps. fi_id (item F p) \<noteq> i)"
  by (auto simp: find_id_def find_None_iff)

lemma num_of_block_id: "block_lib_ok B \<Longrightarrow> num_from_id B (block_id B b) = block_num B b"
  by (simp add: num_from_id_def block_id_def block_lib_ok_def)

text \<open>Fewer live items, or another head among them, keep the invariant.\<close>

lemma fork_ok_fewer:
  assumes "fork_ok B F" and "fd_items F' = fd_items F" "fd_unlinked F' = []"
    and "\<And>p. alive F' p \<Longrightarrow> alive F p" and "fd_index F' = filter P (fd_index F)"
  shows "fork_ok B F'"
proof -
  have "item_ok B F' p \<longleftrightarrow> item_ok B F p" for p
    by (simp add: item_ok_def assms(2))
  then show ?thesis
    using assms by (auto simp: fork_ok_def distinct_map_filter)
qed

lemma fork_ok_unlinked: "fork_ok B F \<Longrightarrow> fd_unlinked F = []"
  by (simp add: fork_ok_def)

lemma fork_ok_insert:
  assumes ok: "fork_ok B F" and i: "fi_num i = block_num B (fi_data i)" "fi_id i = block_id B (fi_data i)" "\<not> fi_invalid i"
    and prev: "\<forall>q. fi_prev i = Some q \<longrightarrow> q < length (fd_items F) \<and> fi_id (item F q) = previous_id i \<and> fi_num i \<noteq> 0"
    and F': "F' = index_insert (length (fd_items F)) (F\<lparr>fd_items := fd_items F @ [i]\<rparr>)"
    and h: "h = fd_head F \<or> h = Some (length (fd_items F))"
  shows "fork_ok B (F'\<lparr>fd_head := h\<rparr>)"
proof -
  let ?p = "length (fd_items F)" and ?G = "F\<lparr>fd_items := fd_items F @ [i]\<rparr>"
  have items: "fd_items F' = fd_items F @ [i]" "fd_unlinked F' = []"
    using ok by (auto simp: F' index_insert_def fork_ok_def)
  have old: "q < ?p" if "q \<in> set (fd_index F) \<or> fd_head F = Some q" for q
    using ok that by (auto simp: fork_ok_def alive_def)
  have it: "item F' q = item F q" if "q < ?p" for q
    using that by (simp add: items nth_append)
  have new: "item F' ?p = i"
    by (simp add: items)
  have ip: "item_ok B (F'\<lparr>fd_head := h\<rparr>) q" if q: "q < length (fd_items F')" for q
  proof (cases "q < ?p")
    case True
    then have "item_ok B F q"
      using ok by (simp add: fork_ok_def)
    then show ?thesis
      using True it by (auto simp: item_ok_def)
  next
    case False
    then have "q = ?p"
      using q items by simp
    then show ?thesis
      using new it i prev by (auto simp: item_ok_def)
  qed
  have idx: "fd_index F' = (if find_id ?G (fd_index F) (fi_id i) = None then fd_index F @ [?p] else fd_index F)"
    by (simp add: F' index_insert_def)
  have ids: "map (\<lambda>q. fi_id (item F' q)) (fd_index F) = map (\<lambda>q. fi_id (item F q)) (fd_index F)"
    using old it by simp
  have app: "(fd_items F @ [i]) ! q = item F q" if "q \<in> set (fd_index F)" for q
    using old [of q] that by (simp add: nth_append)
  have "find_id ?G (fd_index F) (fi_id i) = None \<longleftrightarrow> fi_id i \<notin> set (map (\<lambda>q. fi_id (item F q)) (fd_index F))"
    by (simp add: find_id_None app image_iff) metis
  then have idx': "fd_index F' = (if fi_id i \<in> set (map (\<lambda>q. fi_id (item F' q)) (fd_index F)) then fd_index F
      else fd_index F @ [?p])"
    unfolding ids by (simp only: idx) simp
  have dist: "distinct (map (\<lambda>q. fi_id (item F' q)) (fd_index F))"
    unfolding ids using ok by (simp add: fork_ok_def)
  have "distinct (map (\<lambda>q. fi_id (item F' q)) (fd_index F'))"
  proof (cases "fi_id i \<in> set (map (\<lambda>q. fi_id (item F' q)) (fd_index F))")
    case True
    then show ?thesis
      using dist by (simp only: idx' if_True)
  next
    case False
    then show ?thesis
      using dist new by (simp only: idx' if_False map_append distinct_append) simp
  qed
  moreover have "q < length (fd_items F')" if "alive (F'\<lparr>fd_head := h\<rparr>) q" for q
    using that h old by (auto simp: alive_def items idx less_Suc_eq split: if_splits)
  ultimately show ?thesis
    using ip items by (auto simp: fork_ok_def)
qed

section \<open>Every operation keeps it\<close>

lemma fork_ok_empty: "fork_ok B empty_fork_database"
  by (simp add: fork_ok_def empty_fork_database_def alive_def)

lemma fork_ok_start: "fork_ok B F \<Longrightarrow> fork_ok B (fork_start_block B b F)"
  unfolding fork_start_block_def Let_def
  by (rule fork_ok_insert) (auto simp: mk_fork_item_def)

lemma fork_ok_head: "fork_ok B F \<Longrightarrow> alive F h \<Longrightarrow> fork_ok B (F\<lparr>fd_head := Some h\<rparr>)"
  by (rule fork_ok_fewer [where F = F and P = "\<lambda>_. True"]) (auto simp: fork_ok_unlinked alive_def)

lemma fork_ok_pop:
  assumes "fork_ok B F" "fork_pop_block F = Inr F'"
  shows "fork_ok B F'"
proof -
  obtain h q where "lock_prev F h = Some q" "F' = F\<lparr>fd_head := Some q\<rparr>"
    using assms(2) by (auto simp: fork_pop_block_def ok_iff)
  then show ?thesis
    using assms(1) by (auto simp: lock_prev_def intro: fork_ok_head split: option.splits if_splits)
qed

lemma fork_ok_push:
  assumes ok: "fork_ok B F" and pu: "fork_push_block B b F = Inr (h, F')"
  shows "fork_ok B F'"
proof -
  let ?p = "length (fd_items F)" and ?i = "mk_fork_item B b"
  let ?link = "if fd_head F \<noteq> None \<and> previous_id ?i \<noteq> no_block
      then bindE (the_or Unlinkable_block (find_id F (fd_index F) (previous_id ?i)))
             (\<lambda>q. require (\<not> fi_invalid (item F q)) Bad_status (Inr (?i\<lparr>fi_prev := Some q\<rparr>)))
      else Inr ?i"
  obtain i where guard: "\<forall>k. fd_head F = Some k \<longrightarrow> uint (fi_num ?i) > oldest (fi_num (item F k)) (fd_max_size F)"
    and link: "?link = Inr i"
    and F': "F' = (let F1 = index_insert ?p (F\<lparr>fd_items := fd_items F @ [i]\<rparr>) in if higher F1 ?p then F1\<lparr>fd_head := Some ?p\<rparr> else F1)"
    using pu by (auto simp: fork_push_block_def Let_def ok_iff split: option.splits)
  have i: "i = ?i \<or> (\<exists>q. find_id F (fd_index F) (previous_id ?i) = Some q \<and> i = ?i\<lparr>fi_prev := Some q\<rparr> \<and> fi_num ?i \<noteq> 0)"
    using link guard by (auto simp: ok_iff oldest_def split: if_splits)
  let ?F1 = "index_insert ?p (F\<lparr>fd_items := fd_items F @ [i]\<rparr>)"
  have prev: "\<forall>q. fi_prev i = Some q \<longrightarrow> q < ?p \<and> fi_id (item F q) = previous_id i \<and> fi_num i \<noteq> 0"
    using i ok by (auto simp: mk_fork_item_def previous_id_def fork_ok_def alive_def dest!: find_id_Some)
  have fields: "fi_num i = block_num B (fi_data i)" "fi_id i = block_id B (fi_data i)" "\<not> fi_invalid i"
    using i by (auto simp: mk_fork_item_def)
  have "F' = ?F1\<lparr>fd_head := Some ?p\<rparr> \<or> F' = ?F1\<lparr>fd_head := fd_head F\<rparr>"
    by (auto simp: F' Let_def index_insert_def)
  then show ?thesis
    using fork_ok_insert [OF ok fields prev refl] by blast
qed

lemma fork_ok_set_head: "fork_ok B F \<Longrightarrow> alive F h \<Longrightarrow> fork_ok B (fork_set_head h F)"
  by (simp add: fork_set_head_def fork_ok_head)

lemma fork_ok_remove: "fork_ok B F \<Longrightarrow> fork_ok B (fork_remove i F)"
  by (rule fork_ok_fewer [where F = F and P = "\<lambda>p. fi_id (item F p) \<noteq> i"])
    (auto simp: fork_remove_def fork_ok_unlinked alive_def)

lemma fork_ok_reset: "fork_ok B F \<Longrightarrow> fork_ok B (fork_reset F)"
  by (rule fork_ok_fewer [where F = F and P = "\<lambda>_. False"]) (auto simp: fork_reset_def fork_ok_unlinked alive_def)

lemma fork_ok_set_max_size:
  assumes ok: "fork_ok B F"
  shows "fork_ok B (fork_set_max_size s F)"
proof (cases "fd_head F")
  case None
  have F': "fork_set_max_size s F = F\<lparr>fd_max_size := s\<rparr>"
    by (simp add: fork_set_max_size_def None)
  show ?thesis
    unfolding F' by (rule fork_ok_fewer [OF ok, where P = "\<lambda>_. True"]) (simp_all add: fork_ok_unlinked [OF ok] alive_def)
next
  case (Some h)
  let ?P = "\<lambda>p. oldest (fi_num (item F h)) s \<le> uint (fi_num (item F p))"
  have F': "fork_set_max_size s F = F\<lparr>fd_max_size := s, fd_index := filter ?P (fd_index F), fd_unlinked := filter ?P (fd_unlinked F)\<rparr>"
    by (simp add: fork_set_max_size_def Let_def Some)
  show ?thesis
    unfolding F' by (rule fork_ok_fewer [OF ok, where P = ?P]) (use fork_ok_unlinked [OF ok] in \<open>auto simp: alive_def\<close>)
qed

inductive fork_reachable :: "block_lib \<Rightarrow> fork_database \<Rightarrow> bool" for B where
  empty: "fork_reachable B empty_fork_database"
| start: "fork_reachable B F \<Longrightarrow> fork_reachable B (fork_start_block B b F)"
| push: "fork_reachable B F \<Longrightarrow> fork_push_block B b F = Inr (h, F') \<Longrightarrow> fork_reachable B F'"
| pop: "fork_reachable B F \<Longrightarrow> fork_pop_block F = Inr F' \<Longrightarrow> fork_reachable B F'"
| set_head: "fork_reachable B F \<Longrightarrow> alive F h \<Longrightarrow> fork_reachable B (fork_set_head h F)"
| remove: "fork_reachable B F \<Longrightarrow> fork_reachable B (fork_remove i F)"
| reset: "fork_reachable B F \<Longrightarrow> fork_reachable B (fork_reset F)"
| set_max_size: "fork_reachable B F \<Longrightarrow> fork_reachable B (fork_set_max_size s F)"

lemma fork_reachable_ok: "fork_reachable B F \<Longrightarrow> fork_ok B F"
  by (induction rule: fork_reachable.induct)
    (blast intro: fork_ok_empty fork_ok_start fork_ok_push fork_ok_pop fork_ok_set_head fork_ok_remove fork_ok_reset
      fork_ok_set_max_size)+

section \<open>Links\<close>

abbreviation prev_id :: "fork_database \<Rightarrow> nat \<Rightarrow> block_id_type" where
  "prev_id F p \<equiv> previous_id (item F p)"

definition height :: "block_lib \<Rightarrow> fork_database \<Rightarrow> nat \<Rightarrow> 32 word" where
  "height B F p = block_num B (fi_data (item F p))"

definition link :: "fork_database \<Rightarrow> nat \<Rightarrow> nat \<Rightarrow> bool" where
  "link F p q \<longleftrightarrow> lock_prev F p = Some q"

fun linked :: "fork_database \<Rightarrow> nat list \<Rightarrow> bool" where
  "linked F (p # q # ps) \<longleftrightarrow> link F p q \<and> linked F (q # ps)"
| "linked F _ \<longleftrightarrow> True"

lemma linked_Cons: "ps \<noteq> [] \<Longrightarrow> linked F (p # ps) \<longleftrightarrow> link F p (hd ps) \<and> linked F ps"
  by (cases ps) auto

lemma link_down:
  assumes ok: "fork_ok B F" "block_lib_ok B" and p: "p < length (fd_items F)" and l: "link F p q"
  shows "q < p" "prev_id F p = fi_id (item F q)" "unat (height B F p) = unat (height B F q) + 1"
proof -
  have all: "\<forall>r<length (fd_items F). item_ok B F r"
    using ok(1) by (simp add: fork_ok_def)
  have it: "item_ok B F p"
    using all p by blast
  have "fi_prev (item F p) = Some q"
    using l by (auto simp: link_def lock_prev_def split: option.splits if_splits)
  then have q: "q < p" "fi_id (item F q) = prev_id F p" "fi_num (item F p) \<noteq> 0"
    using it unfolding item_ok_def by blast+
  have itq: "item_ok B F q"
    using all p q(1) by simp
  show "q < p" "prev_id F p = fi_id (item F q)"
    using q by simp_all
  have "height B F p = num_from_id B (fi_id (item F q)) + 1"
    using q(2) by (simp add: height_def block_num_def previous_id_def)
  also have "num_from_id B (fi_id (item F q)) = height B F q"
    using itq ok(2) by (simp add: height_def item_ok_def num_of_block_id)
  finally have "height B F p = height B F q + 1" .
  moreover have "height B F p \<noteq> 0"
    using it q(3) by (simp add: height_def item_ok_def)
  ultimately show "unat (height B F p) = unat (height B F q) + 1"
    by (metis add.commute unatSuc Suc_eq_plus1)
qed

lemma prev_height: "prev_id F p = prev_id F q \<Longrightarrow> height B F p = height B F q"
  by (simp add: height_def block_num_def previous_id_def)

text \<open>Everything reached by links is a lower item, and lower in the list of items.\<close>

lemma reach_down:
  assumes "fork_ok B F" "block_lib_ok B" "p < length (fd_items F)" "(link F)\<^sup>*\<^sup>* p q"
  shows "q \<le> p \<and> height B F q \<le> height B F p \<and> (height B F q = height B F p \<longrightarrow> q = p)"
  using assms(4,3)
proof (induction rule: converse_rtranclp_induct)
  case (step p r)
  have l: "r < p" "unat (height B F p) = unat (height B F r) + 1"
    using link_down [OF assms(1,2) step.prems step.hyps(1)] by auto
  have "q \<le> r \<and> height B F q \<le> height B F r"
    using step.IH step.prems l(1) by simp
  then show ?case
    using l by (auto simp: word_le_nat_alt)
qed simp

lemma reach_step: "(link F)\<^sup>*\<^sup>* p q \<Longrightarrow> p \<noteq> q \<Longrightarrow> lock_prev F p = Some r \<Longrightarrow> (link F)\<^sup>*\<^sup>* r q"
  by (erule converse_rtranclpE) (auto simp: link_def)

lemma reach_stuck: "(link F)\<^sup>*\<^sup>* p q \<Longrightarrow> lock_prev F p = None \<Longrightarrow> p = q"
  by (erule converse_rtranclpE) (auto simp: link_def)

section \<open>The two loops\<close>

definition climbs :: "block_lib \<Rightarrow> fork_database \<Rightarrow> 32 word \<Rightarrow> nat \<Rightarrow> nat list \<Rightarrow> nat \<Rightarrow> bool" where
  "climbs B F n p ws p1 \<longleftrightarrow> linked F (ws @ [p1]) \<and> hd (ws @ [p1]) = p \<and> p1 \<le> p \<and>
     height B F p1 = min (height B F p) n \<and> (\<forall>w\<in>set ws. height B F w > n) \<and>
     (\<forall>q. (link F)\<^sup>*\<^sup>* p q \<longrightarrow> height B F q \<le> n \<longrightarrow> (link F)\<^sup>*\<^sup>* p1 q)"

definition stuck :: "block_lib \<Rightarrow> fork_database \<Rightarrow> 32 word \<Rightarrow> nat \<Rightarrow> bool" where
  "stuck B F n p \<longleftrightarrow> (\<forall>q. (link F)\<^sup>*\<^sup>* p q \<longrightarrow> height B F q > n)"

lemma climbs_step:
  assumes ok: "fork_ok B F" "block_lib_ok B" and p: "p < length (fd_items F)"
    and high: "height B F p > n" and q: "lock_prev F p = Some q"
  shows "climbs B F n q ws p1 \<Longrightarrow> climbs B F n p (p # ws) p1" "stuck B F n q \<Longrightarrow> stuck B F n p"
proof -
  have l: "q < p" "unat (height B F p) = unat (height B F q) + 1"
    using link_down [OF ok p] q by (auto simp: link_def)
  have min: "min (height B F q) n = min (height B F p) n"
    using high l(2) by (auto simp: min_def word_le_nat_alt word_less_nat_alt word_unat_eq_iff)
  have path: "(link F)\<^sup>*\<^sup>* q r" if "(link F)\<^sup>*\<^sup>* p r" "height B F r \<le> n" for r
    using that high reach_step [OF that(1) _ q] by (metis leD)
  show "climbs B F n p (p # ws) p1" if up: "climbs B F n q ws p1"
  proof -
    have "linked F (p # ws @ [p1])"
      using up q by (simp add: climbs_def linked_Cons link_def)
    then show ?thesis
      using up high path l(1) min by (simp add: climbs_def)
  qed
  show "stuck B F n p" if "stuck B F n q"
    using that path unfolding stuck_def by (metis not_le_imp_less)
qed

lemma climb_spec:
  assumes ok: "fork_ok B F" "block_lib_ok B" and p: "p < length (fd_items F)"
  shows "(\<exists>ws p1. climb B F n p acc = Some (Inr (p1, acc @ ws)) \<and> climbs B F n p ws p1) \<or>
         climb B F n p acc = Some (Inl (Assert Not_found)) \<and> stuck B F n p"
  using p
proof (induction p arbitrary: acc rule: less_induct)
  case (less p)
  have eq: "climb B F n p acc =
     (if height B F p > n then (case lock_prev F p of None \<Rightarrow> Some (Inl (Assert Not_found))
       | Some q \<Rightarrow> climb B F n q (acc @ [p])) else Some (Inr (p, acc)))"
    by (simp add: climb.simps [of B F n p acc] height_def)
  consider (low) "height B F p \<le> n"
    | (stuck) "height B F p > n" "lock_prev F p = None"
    | (step) q where "height B F p > n" "lock_prev F p = Some q"
    by (cases "lock_prev F p") force+
  then show ?case
  proof cases
    case low
    then have "climbs B F n p [] p" "climb B F n p acc = Some (Inr (p, acc @ []))"
      by (simp_all add: climbs_def eq leD)
    then show ?thesis by blast
  next
    case stuck
    then have "stuck B F n p"
      using reach_stuck by (auto simp: stuck_def)
    then show ?thesis
      using stuck by (simp add: eq)
  next
    case step
    have q: "q < p" "q < length (fd_items F)"
      using link_down(1) [OF ok less.prems] step(2) less.prems by (auto simp: link_def)
    have "climb B F n p acc = climb B F n q (acc @ [p])"
      using step by (simp add: eq)
    then show ?thesis
      using less.IH [OF q, of "acc @ [p]"] climbs_step [OF ok less.prems step] by force
  qed
qed

definition apart :: "fork_database \<Rightarrow> nat \<Rightarrow> nat \<Rightarrow> bool" where
  "apart F p q \<longleftrightarrow> (\<forall>p' q'. (link F)\<^sup>*\<^sup>* p p' \<longrightarrow> (link F)\<^sup>*\<^sup>* q q' \<longrightarrow> prev_id F p' \<noteq> prev_id F q')"

definition meet :: "fork_database \<Rightarrow> nat list \<Rightarrow> nat list \<Rightarrow> bool" where
  "meet F us vs \<longleftrightarrow> us \<noteq> [] \<and> vs \<noteq> [] \<and> prev_id F (last us) = prev_id F (last vs) \<and>
     (\<forall>x\<in>set us. \<forall>y\<in>set vs. prev_id F x = prev_id F y \<longrightarrow> x = last us \<and> y = last vs)"

definition branch :: "fork_database \<Rightarrow> nat \<Rightarrow> nat list \<Rightarrow> bool" where
  "branch F p us \<longleftrightarrow> us \<noteq> [] \<and> linked F us \<and> hd us = p"

lemma linked_reach: "linked F us \<Longrightarrow> x \<in> set us \<Longrightarrow> (link F)\<^sup>*\<^sup>* (hd us) x"
  by (induction us rule: linked.induct) (auto intro: converse_rtranclp_into_rtranclp)

lemma branch_reach: "branch F p us \<Longrightarrow> x \<in> set us \<Longrightarrow> (link F)\<^sup>*\<^sup>* p x"
  using linked_reach by (auto simp: branch_def)

lemma linked_append: "linked F (ws @ [p]) \<Longrightarrow> branch F p us \<Longrightarrow> linked F (ws @ us)"
proof (induction ws)
  case (Cons w ws)
  then show ?case
    by (cases ws) (auto simp: linked_Cons branch_def)
qed (simp add: branch_def)

lemma meet_append:
  assumes "meet F us vs" "\<forall>x\<in>set ws. \<forall>y\<in>set ws' \<union> set vs. prev_id F x \<noteq> prev_id F y"
    and "\<forall>x\<in>set us. \<forall>y\<in>set ws'. prev_id F x \<noteq> prev_id F y"
  shows "meet F (ws @ us) (ws' @ vs)"
  using assms by (auto simp: meet_def)

lemma branch_Cons:
  assumes "fork_ok B F" "block_lib_ok B" "p < length (fd_items F)" "lock_prev F p = Some q" "branch F q us"
  shows "branch F p (p # us)" "\<forall>x\<in>set us. height B F x < height B F p"
proof -
  have l: "link F p q" "unat (height B F p) = unat (height B F q) + 1"
    using link_down [OF assms(1-3)] assms(4) by (auto simp: link_def)
  then have lt: "height B F q < height B F p"
    by (simp add: word_less_nat_alt)
  have "q < length (fd_items F)"
    using link_down(1) [OF assms(1-3) l(1)] assms(3) by simp
  then have "height B F x \<le> height B F q" if "x \<in> set us" for x
    using reach_down [OF assms(1,2)] branch_reach [OF assms(5) that] by blast
  then show "\<forall>x\<in>set us. height B F x < height B F p"
    using lt by (meson le_less_trans)
  show "branch F p (p # us)"
    using assms(5) l(1) by (auto simp: branch_def linked_Cons)
qed

lemma reach_parents:
  assumes ok: "fork_ok B F" "block_lib_ok B" and p: "p < length (fd_items F)" "q < length (fd_items F)"
    and h: "height B F p = height B F q" "prev_id F p \<noteq> prev_id F q"
    and r: "(link F)\<^sup>*\<^sup>* p p'" "(link F)\<^sup>*\<^sup>* q q'" "prev_id F p' = prev_id F q'"
  shows "\<exists>p1 q1. lock_prev F p = Some p1 \<and> lock_prev F q = Some q1 \<and> (link F)\<^sup>*\<^sup>* p1 p' \<and> (link F)\<^sup>*\<^sup>* q1 q'"
proof -
  have "height B F p' = height B F q'"
    using prev_height [OF r(3)] .
  then have ne: "p \<noteq> p'" "q \<noteq> q'"
    using reach_down [OF ok p(1) r(1)] reach_down [OF ok p(2) r(2)] h r(3) by metis+
  then have "lock_prev F p \<noteq> None" "lock_prev F q \<noteq> None"
    using reach_stuck r(1,2) by metis+
  then show ?thesis
    using ne r(1,2) reach_step by (metis option.exhaust)
qed

lemma join_spec:
  assumes ok: "fork_ok B F" "block_lib_ok B"
    and "p < length (fd_items F)" "q < length (fd_items F)" "height B F p = height B F q"
  shows "(\<exists>us vs. join_branches F p q ps qs = Some (Inr (ps @ us, qs @ vs)) \<and> branch F p us \<and> branch F q vs \<and> meet F us vs) \<or>
         join_branches F p q ps qs = Some (Inl (Assert Not_found)) \<and> apart F p q"
  using assms(3-5)
proof (induction p arbitrary: q ps qs rule: less_induct)
  case (less p)
  have eq: "join_branches F p q ps qs =
     (if prev_id F p \<noteq> prev_id F q then
        (case lock_prev F p of None \<Rightarrow> Some (Inl (Assert Not_found))
         | Some p1 \<Rightarrow> (case lock_prev F q of None \<Rightarrow> Some (Inl (Assert Not_found))
             | Some q1 \<Rightarrow> join_branches F p1 q1 (ps @ [p]) (qs @ [q])))
      else Some (Inr (ps @ [p], qs @ [q])))"
    by (simp add: join_branches.simps [of F p q] previous_id_def)
  consider (same) "prev_id F p = prev_id F q"
    | (stuck) "prev_id F p \<noteq> prev_id F q" "lock_prev F p = None \<or> lock_prev F q = None"
    | (step) p1 q1 where "prev_id F p \<noteq> prev_id F q" "lock_prev F p = Some p1" "lock_prev F q = Some q1"
    by (cases "lock_prev F p"; cases "lock_prev F q") auto
  then show ?case
  proof cases
    case same
    then have "branch F p [p]" "branch F q [q]" "meet F [p] [q]"
      by (auto simp: branch_def meet_def)
    then show ?thesis
      using same eq by auto
  next
    case stuck
    have "apart F p q"
      unfolding apart_def using reach_parents [OF ok less.prems stuck(1)] stuck(2) by (metis option.distinct(1))
    then show ?thesis
      using stuck by (auto simp: eq split: option.splits)
  next
    case step
    have l: "p1 < p" "q1 < q" "unat (height B F p) = unat (height B F p1) + 1" "unat (height B F q) = unat (height B F q1) + 1"
      using link_down [OF ok less.prems(1)] link_down [OF ok less.prems(2)] step(2,3) by (auto simp: link_def)
    have prems: "p1 < length (fd_items F)" "q1 < length (fd_items F)" "height B F p1 = height B F q1"
      using l less.prems by (auto simp: word_unat_eq_iff)
    have eq1: "join_branches F p q ps qs = join_branches F p1 q1 (ps @ [p]) (qs @ [q])"
      using step by (simp add: eq)
    from less.IH [OF l(1) prems, of "ps @ [p]" "qs @ [q]"] show ?thesis
    proof (elim disjE exE conjE)
      fix us vs
      assume b: "branch F p1 us" "branch F q1 vs" "meet F us vs"
        and j: "join_branches F p1 q1 (ps @ [p]) (qs @ [q]) = Some (Inr ((ps @ [p]) @ us, (qs @ [q]) @ vs))"
      note bp = branch_Cons [OF ok less.prems(1) step(2) b(1)] and bq = branch_Cons [OF ok less.prems(2) step(3) b(2)]
      have "prev_id F p \<noteq> prev_id F y" if "y \<in> set vs" for y
        using that bq(2) less.prems(3) prev_height [of F p y B] by auto
      moreover have "prev_id F x \<noteq> prev_id F q" if "x \<in> set us" for x
        using that bp(2) less.prems(3) prev_height [of F x q B] by auto
      ultimately have "meet F ([p] @ us) ([q] @ vs)"
        using step(1) by (intro meet_append b(3)) auto
      then show ?thesis
        using bp(1) bq(1) j eq1 by auto
    next
      assume "apart F p1 q1" "join_branches F p1 q1 (ps @ [p]) (qs @ [q]) = Some (Inl (Assert Not_found))"
      moreover from this have "apart F p q"
        using reach_parents [OF ok less.prems step(1)] step(2,3) unfolding apart_def by (metis option.inject)
      ultimately show ?thesis
        using eq1 by simp
    qed
  qed
qed

section \<open>The whole routine\<close>

lemma climbs_branch: "climbs B F n p ws p1 \<Longrightarrow> branch F p1 us \<Longrightarrow> branch F p (ws @ us)"
  using linked_append [of F ws p1 us] by (auto simp: climbs_def branch_def hd_append)

lemma branch_meet_reach: "branch F p us \<Longrightarrow> branch F q vs \<Longrightarrow> meet F us vs \<Longrightarrow> \<not> apart F p q"
  unfolding apart_def using branch_reach [of F p us "last us"] branch_reach [of F q vs "last vs"]
  by (auto simp: meet_def)

lemma stuck_apart:
  assumes "fork_ok B F" "block_lib_ok B" and p: "p < length (fd_items F)" "q < length (fd_items F)"
  shows "stuck B F (height B F q) p \<Longrightarrow> apart F p q" "stuck B F (height B F p) q \<Longrightarrow> apart F p q"
  using reach_down [OF assms(1-3)] reach_down [OF assms(1,2,4)] prev_height [of F _ _ B]
  unfolding stuck_def apart_def by (metis leD)+

text \<open>
  What the two climbs keep: the two branches are apart when what is left of them is, and no item
  passed on the way has its parent in the other branch.
\<close>

lemma climbs_apart:
  assumes ok: "fork_ok B F" "block_lib_ok B" and p: "p < length (fd_items F)" "q < length (fd_items F)"
    and up: "climbs B F (height B F q) p ws p1" and a: "apart F p1 q"
  shows "apart F p q"
  unfolding apart_def
proof (intro allI impI)
  fix p' q'
  assume r: "(link F)\<^sup>*\<^sup>* p p'" "(link F)\<^sup>*\<^sup>* q q'"
  show "prev_id F p' \<noteq> prev_id F q'"
  proof
    assume e: "prev_id F p' = prev_id F q'"
    have "height B F p' \<le> height B F q"
      using prev_height [OF e, of B] reach_down [OF ok p(2) r(2)] by simp
    then have "(link F)\<^sup>*\<^sup>* p1 p'"
      using up r(1) by (simp add: climbs_def)
    then show False
      using a r(2) e by (auto simp: apart_def)
  qed
qed

lemma apart_sym: "apart F p q \<longleftrightarrow> apart F q p"
  unfolding apart_def by metis

lemma passed_differ:
  assumes ok: "fork_ok B F" "block_lib_ok B" and q: "q < length (fd_items F)"
    and w: "\<forall>w\<in>set ws. height B F w > height B F q" "x \<in> set ws" and vs: "branch F q vs" "y \<in> set vs"
  shows "prev_id F x \<noteq> prev_id F y" "prev_id F y \<noteq> prev_id F x"
proof -
  have "height B F y \<le> height B F q"
    using reach_down [OF ok q] branch_reach [OF vs] by blast
  then have "height B F x \<noteq> height B F y"
    using w by force
  then show "prev_id F x \<noteq> prev_id F y" "prev_id F y \<noteq> prev_id F x"
    using prev_height [of F x y B] prev_height [of F y x B] by auto
qed

lemma fork_find:
  assumes "fork_ok B F" "find_id F (fd_index F) a = Some p"
  shows "p < length (fd_items F)"
  using assms find_id_Some [OF assms(2)] by (auto simp: fork_ok_def alive_def)

lemma fetch_branch_from_spec:
  assumes ok: "fork_ok B F" "block_lib_ok B"
    and ab: "find_id F (fd_index F) a = Some p" "find_id F (fd_index F) b = Some q"
  shows "(\<exists>us vs. fetch_branch_from B F a b = Some (Inr (us, vs)) \<and> branch F p us \<and> branch F q vs \<and> meet F us vs) \<or>
         fetch_branch_from B F a b = Some (Inl (Assert Not_found)) \<and> apart F p q"
proof -
  note p = fork_find [OF ok(1) ab(1)] and q = fork_find [OF ok(1) ab(2)]
  note fb = fetch_branch_from_def ab height_def [symmetric]
  let ?hq = "height B F q"
  consider (c1) ws p1 where "climb B F ?hq p [] = Some (Inr (p1, ws))" "climbs B F ?hq p ws p1"
    | (s1) "climb B F ?hq p [] = Some (Inl (Assert Not_found))" "stuck B F ?hq p"
    using climb_spec [OF ok p, of ?hq "[]"] by auto
  then show ?thesis
  proof cases
    case s1
    then show ?thesis
      using stuck_apart(1) [OF ok p q] by (simp add: fb)
  next
    case c1
    let ?hp = "height B F p1"
    have p1: "p1 < length (fd_items F)" "?hp \<le> ?hq"
      using c1(2) p by (auto simp: climbs_def)
    consider (c2) ws' q1 where "climb B F ?hp q [] = Some (Inr (q1, ws'))" "climbs B F ?hp q ws' q1"
      | (s2) "climb B F ?hp q [] = Some (Inl (Assert Not_found))" "stuck B F ?hp q"
      using climb_spec [OF ok q, of ?hp "[]"] by auto
    then show ?thesis
    proof cases
      case s2
      have "apart F p1 q"
        using stuck_apart(2) [OF ok p1(1) q s2(2)] .
      then show ?thesis
        using s2 c1 climbs_apart [OF ok p q c1(2)] by (simp add: fb)
    next
      case c2
      have q1: "q1 < length (fd_items F)" "?hp = height B F q1"
        using c2(2) q p1(2) by (auto simp: climbs_def)
      have up: "\<forall>w\<in>set ws. height B F w > ?hq" "\<forall>w\<in>set ws'. height B F w > ?hp"
        using c1(2) c2(2) by (auto simp: climbs_def)
      from join_spec [OF ok p1(1) q1, of ws ws'] show ?thesis
      proof (elim disjE exE conjE)
        fix us vs
        assume j: "join_branches F p1 q1 ws ws' = Some (Inr (ws @ us, ws' @ vs))"
          and b: "branch F p1 us" "branch F q1 vs" and m: "meet F us vs"
        have bs: "branch F p (ws @ us)" "branch F q (ws' @ vs)"
          using climbs_branch [OF c1(2) b(1)] climbs_branch [OF c2(2) b(2)] by auto
        have "meet F (ws @ us) (ws' @ vs)"
          using passed_differ [OF ok q up(1) _ bs(2)] passed_differ [OF ok p1(1) up(2) _ b(1)]
          by (intro meet_append m) auto
        then show ?thesis
          using bs j c1(1) c2(1) by (simp add: fb)
      next
        assume j: "join_branches F p1 q1 ws ws' = Some (Inl (Assert Not_found))" "apart F p1 q1"
        then have "apart F q p1"
          using climbs_apart [OF ok q p1(1) c2(2)] by (simp add: apart_sym)
        then have "apart F p q"
          using climbs_apart [OF ok p q c1(2)] by (simp add: apart_sym)
        then show ?thesis
          using j c1(1) c2(1) by (simp add: fb)
      qed
    qed
  qed
qed

text \<open>The walk down the main branch ends too, at the item of the height asked for or below it.\<close>

lemma walk_to_ends:
  assumes "fork_ok B F" "block_lib_ok B" "p < length (fd_items F)"
  shows "\<exists>r. walk_to F n (Some p) = Some r \<and> (\<forall>q. r = Some q \<longrightarrow> (link F)\<^sup>*\<^sup>* p q \<and>
    fi_num (item F q) \<le> n \<and> (n \<le> fi_num (item F p) \<longrightarrow> fi_num (item F q) = n))"
  using assms(3)
proof (induction p rule: less_induct)
  case (less p)
  show ?case
  proof (cases "fi_num (item F p) > n")
    case False
    then show ?thesis
      by (subst walk_to.simps) auto
  next
    case high: True
    show ?thesis
    proof (cases "lock_prev F p")
      case None
      then show ?thesis
        using high by (simp add: walk_to.simps)
    next
      case (Some q)
      then have l: "link F p q"
        by (simp add: link_def)
      note down = link_down(1) [OF assms(1,2) less.prems l]
      have "unat (fi_num (item F p)) = unat (fi_num (item F q)) + 1"
        using link_down(3) [OF assms(1,2) less.prems l] assms(1) down less.prems
        by (simp add: fork_ok_def item_ok_def height_def)
      then have "n \<le> fi_num (item F q)"
        using high by (simp add: word_le_nat_alt word_less_nat_alt)
      then obtain r where r: "walk_to F n (Some q) = Some r"
        "\<forall>s. r = Some s \<longrightarrow> (link F)\<^sup>*\<^sup>* q s \<and> fi_num (item F s) \<le> n \<and> fi_num (item F s) = n"
        using less.IH [OF down] down less.prems by auto
      have "walk_to F n (Some p) = Some r"
        using high Some r(1) by (subst walk_to.simps) simp
      then show ?thesis
        using r(2) l by (auto intro: converse_rtranclp_into_rtranclp)
    qed
  qed
qed

lemma main_branch_num:
  assumes "fork_ok B F" "block_lib_ok B" "fetch_block_on_main_branch_by_number F n = Some (Some p)"
  shows "block_num B (fi_data (item F p)) = n"
proof -
  have live: "block_num B (fi_data (item F q)) = fi_num (item F q)" if "alive F q \<or> q < length (fd_items F)" for q
    using that assms(1) by (auto simp: fork_ok_def item_ok_def)
  consider (one) "fetch_block_by_number F n = [p]" | (walk) "walk_main_branch_to_num F n = Some (Some p)"
    using assms(3) by (auto simp: fetch_block_on_main_branch_by_number_def split: list.splits)
  then show ?thesis
  proof cases
    case one
    then have "p \<in> set (filter (\<lambda>p. fi_num (item F p) = n) (fd_index F))"
      by (simp add: fetch_block_by_number_def)
    then show ?thesis
      using live [of p] by (auto simp: alive_def)
  next
    case walk
    then obtain h where h: "fd_head F = Some h" "n \<le> fi_num (item F h)" "walk_to F n (Some h) = Some (Some p)"
      by (auto simp: walk_main_branch_to_num_def not_less split: option.splits if_splits)
    have hl: "h < length (fd_items F)"
      using h(1) assms(1) by (simp add: fork_ok_def alive_def)
    have r: "(link F)\<^sup>*\<^sup>* h p" "fi_num (item F p) = n"
      using walk_to_ends [OF assms(1,2) hl, of n] h by auto
    have "p < length (fd_items F)"
      using reach_down [OF assms(1,2) hl r(1)] hl by simp
    then show ?thesis
      using live [of p] r(2) by simp
  qed
qed

section \<open>The property\<close>

text \<open>
  C36. In every reachable fork database the search for the two branches that lead to two known
  blocks ends. It fails with an error exactly when nothing the two blocks are linked to has a
  common parent; otherwise both branches start at their block, follow the links, and end at items
  with the same parent, and no other pair of items of the two branches shares a parent: it is the
  most recent common one.
\<close>

theorem branches_meet:
  assumes "fork_reachable B F" "block_lib_ok B"
    and "find_id F (fd_index F) a = Some p" "find_id F (fd_index F) b = Some q"
  shows "if apart F p q then fetch_branch_from B F a b = Some (Inl (Assert Not_found))
    else \<exists>us vs. fetch_branch_from B F a b = Some (Inr (us, vs)) \<and>
      branch F p us \<and> branch F q vs \<and> meet F us vs"
  using fetch_branch_from_spec [OF fork_reachable_ok [OF assms(1)] assms(2-4)] branch_meet_reach by auto

text \<open>A chain of three blocks and a second block on the first one.\<close>

definition plain_lib :: block_lib where
  "plain_lib = \<lparr>endian_reverse_u32 = (\<lambda>x. x), block_hash = bl_payload\<rparr>"

definition demo_block :: "block_id_type \<Rightarrow> nat \<Rightarrow> signed_block" where
  "demo_block prev n = \<lparr>bl_previous = prev, bl_timestamp = 0, bl_witness = [], bl_payload = n\<rparr>"

definition demo_id :: "32 word \<Rightarrow> nat \<Rightarrow> block_id_type" where
  "demo_id w n = \<lparr>id_word = w, id_rest = n\<rparr>"

definition push_all :: "block_lib \<Rightarrow> signed_block list \<Rightarrow> fork_database \<Rightarrow> fork_database result" where
  "push_all B bs F = foldE (\<lambda>b F. bindE (fork_push_block B b F) (\<lambda>r. Inr (snd r))) bs F"

definition forked :: fork_database where
  "forked = \<lparr>fd_items =
     [mk_fork_item plain_lib (demo_block no_block 7),
      (mk_fork_item plain_lib (demo_block (demo_id 1 7) 8))\<lparr>fi_prev := Some 0\<rparr>,
      (mk_fork_item plain_lib (demo_block (demo_id 1 7) 9))\<lparr>fi_prev := Some 0\<rparr>,
      (mk_fork_item plain_lib (demo_block (demo_id 2 8) 5))\<lparr>fi_prev := Some 1\<rparr>],
     fd_index = [0, 1, 2, 3], fd_unlinked = [], fd_max_size = 1024, fd_head = Some 3\<rparr>"

lemmas fork_eval = plain_lib_def demo_block_def demo_id_def no_block_def mk_fork_item_def block_id_def block_num_def
  num_from_id_def previous_id_def find_id_def

lemma push_all_reachable: "fork_reachable B F \<Longrightarrow> push_all B bs F = Inr F' \<Longrightarrow> fork_reachable B F'"
  unfolding push_all_def
  by (erule foldE_invariant [rotated]) (auto simp: ok_iff intro: fork_reachable.push)

lemma forked_reachable: "fork_reachable plain_lib forked"
proof (rule push_all_reachable)
  show "fork_reachable plain_lib (fork_start_block plain_lib (demo_block no_block 7) empty_fork_database)"
    by (intro fork_reachable.intros)
  show "push_all plain_lib [demo_block (demo_id 1 7) 8, demo_block (demo_id 1 7) 9, demo_block (demo_id 2 8) 5]
      (fork_start_block plain_lib (demo_block no_block 7) empty_fork_database) = Inr forked"
    by (simp add: push_all_def fork_push_block_def fork_start_block_def empty_fork_database_def index_insert_def
        higher_def oldest_def Let_def forked_def fork_eval)
qed

lemma branches_meet_witness:
  "\<exists>us vs. fetch_branch_from plain_lib forked (demo_id 3 5) (demo_id 2 9) = Some (Inr (us, vs)) \<and>
     branch forked 3 us \<and> branch forked 2 vs \<and> meet forked us vs"
proof -
  have f: "find_id forked (fd_index forked) (demo_id 3 5) = Some 3" "find_id forked (fd_index forked) (demo_id 2 9) = Some 2"
    by (simp_all add: forked_def fork_eval)
  have "link forked 3 1"
    by (simp add: link_def lock_prev_def alive_def forked_def)
  moreover have "prev_id forked 1 = prev_id forked 2"
    by (simp add: forked_def fork_eval)
  ultimately have "\<not> apart forked 3 2"
    unfolding apart_def by blast
  then show ?thesis
    using branches_meet [OF forked_reachable _ f] by (simp add: block_lib_ok_def plain_lib_def)
qed

end
