(* ===== verification/Block_Head.thy ===== *)
theory Block_Head
  imports Schedule_Properties Fork_Branches
begin

text \<open>
  What a block does to the head of the chain (\<open>chain/database/database.cpp\<close>): missed slots and the
  participation of the witnesses, the last irreversible block and the block log. And the votes of
  a witness (\<open>chain/services/dbs_witness.cpp\<close>).
\<close>

definition DEIP_WITNESS_MISSED_BLOCKS_THRESHOLD :: nat where "DEIP_WITNESS_MISSED_BLOCKS_THRESHOLD = 14400"
definition DEIP_MAX_UNDO_HISTORY :: nat where "DEIP_MAX_UNDO_HISTORY = 10000"
definition DEIP_START_MINER_VOTING_BLOCK :: nat where "DEIP_START_MINER_VOTING_BLOCK = 864000"
definition DEIP_IRREVERSIBLE_THRESHOLD :: nat where "DEIP_IRREVERSIBLE_THRESHOLD = 7500"

text \<open>The flags of \<open>database::validation_steps\<close> these routines read.\<close>

record skip_flags =
  skip_undo_history_check :: bool
  skip_block_log :: bool

section \<open>The votes of a witness\<close>

definition get_top_witness :: "(string \<Rightarrow> nat) \<Rightarrow> block_state \<Rightarrow> (nat \<times> witness_object) result" where
  "get_top_witness N s =
     (case by_vote_name N (bs_witnesses s) of [] \<Rightarrow> Inl (Assert Not_found) | p # _ \<Rightarrow> Inr p)"

definition adjust_witness_vote :: "fc_lib \<Rightarrow> nat \<Rightarrow> int \<Rightarrow> block_state \<Rightarrow> block_state result" where
  "adjust_witness_vote L i delta s =
     bindE (the_or Undefined_behaviour (lookup (bs_witnesses s) i)) (\<lambda>w.
     let now = ws_current_virtual_time (bs_schedule s);
         delta_pos = u128_mul L (u128_of_int L (w_votes w)) (u128_sub L now (w_virtual_last_update w));
         position = u128_add L (w_virtual_position w) delta_pos in
     bindE (add L (w_votes w) delta) (\<lambda>votes.
     require (votes \<le> dg_total_expert_tokens_amount (bs_dgp s)) Limit_exceeded (
     bindE (raw (votes + 1)) (\<lambda>k.
     bindE (the_or Division_by_zero (u128_div L (u128_sub L (- 1) position) (u128_of_int L k))) (\<lambda>d.
     let time = u128_add L now d in
     modify_witness i (\<lambda>w. w\<lparr>w_virtual_position := position, w_virtual_last_update := now, w_votes := votes,
       w_virtual_scheduled_time := if u128_less L time now then - 1 else time\<rparr>) s)))))"

section \<open>Missed slots and participation\<close>

definition miss :: "32 word \<Rightarrow> witness_object \<Rightarrow> witness_object" where
  "miss head w =
     (let w1 = w\<lparr>w_total_missed := w_total_missed w + 1\<rparr>
      in if unat (ucast head - w_last_confirmed_block_num w) > DEIP_WITNESS_MISSED_BLOCKS_THRESHOLD
         then w1\<lparr>w_signing_key := None\<rparr> else w1)"

definition miss_slot :: "signed_block \<Rightarrow> nat \<Rightarrow> block_state \<Rightarrow> block_state result" where
  "miss_slot b i s =
     bindE (get_scheduled_witness (of_nat i + 1) s) (\<lambda>n.
     bindE (get_witness n s) (\<lambda>p.
     if w_owner (snd p) \<noteq> bl_witness b then modify_witness (fst p) (miss (head_num s)) s else Inr s))"

definition fill_slot :: "nat \<Rightarrow> dynamic_global_property_object \<Rightarrow> dynamic_global_property_object" where
  "fill_slot i d =
     (let filled = dg_recent_slots_filled d; one = (if i = 0 then 1 else 0) in
      d\<lparr>dg_participation_count := dg_participation_count d - (if bit filled 127 then 1 else 0) + of_nat one,
        dg_recent_slots_filled := push_bit 1 filled + of_nat one\<rparr>)"

text \<open>
  A block in slot 0 is a violation of the precondition (\<open>assert\<close>), which the check of the block's
  witness rules out.
\<close>

definition update_global_dynamic_data :: "block_lib \<Rightarrow> skip_flags \<Rightarrow> signed_block \<Rightarrow> block_state \<Rightarrow> block_state result" where
  "update_global_dynamic_data B skip b s =
     bindE (if head_time s = 0 then Inr (0, s)
            else let slot = get_slot_at_time (bl_timestamp b) s in
                 if slot = 0 then Inl Undefined_behaviour
                 else bindE (foldE (miss_slot b) [0..<unat (slot - 1)] s) (\<lambda>s. Inr (slot - 1, s)))
       (\<lambda>(missed_blocks, s1).
     let d = fold fill_slot [0..<unat missed_blocks + 1] (bs_dgp s1);
         s2 = s1\<lparr>bs_dgp := d\<lparr>dg_head_block_number := block_num B b, dg_head_block_id := block_id B b,
                 dg_time := bl_timestamp b, dg_current_aslot := dg_current_aslot d + ucast (missed_blocks + 1)\<rparr>\<rparr>
     in require (skip_undo_history_check skip \<or>
          unat (head_num s2 - dg_last_irreversible_block_num (bs_dgp s2)) < DEIP_MAX_UNDO_HISTORY) Limit_exceeded (Inr s2))"

definition update_signing_witness :: "block_lib \<Rightarrow> nat \<Rightarrow> signed_block \<Rightarrow> block_state \<Rightarrow> block_state result" where
  "update_signing_witness B i b s =
     (let new_block_aslot = dg_current_aslot (bs_dgp s) + ucast (get_slot_at_time (bl_timestamp b) s)
      in modify_witness i (\<lambda>w. w\<lparr>w_last_aslot := new_block_aslot, w_last_confirmed_block_num := ucast (block_num B b)\<rparr>) s)"

section \<open>The last irreversible block\<close>

definition irreversible_num :: "block_state \<Rightarrow> 32 word result" where
  "irreversible_num s =
     (if unat (head_num s) < DEIP_START_MINER_VOTING_BLOCK then
        Inr (if unat (head_num s) > DEIP_MAX_WITNESSES then head_num s - of_nat DEIP_MAX_WITNESSES
             else dg_last_irreversible_block_num (bs_dgp s))
      else
        bindE (scheduled_witnesses s) (\<lambda>ws.
        let offset = (10000 - DEIP_IRREVERSIBLE_THRESHOLD) * length ws div 10000 in
        bindE (elem_at (sort_key w_last_confirmed_block_num ws) offset) (\<lambda>w.
        let new_num = ucast (w_last_confirmed_block_num w) in
        Inr (if new_num > dg_last_irreversible_block_num (bs_dgp s) then new_num
             else dg_last_irreversible_block_num (bs_dgp s)))))"

text \<open>One block of the main branch goes to the log; \<open>None\<close> of the walk is a null head.\<close>

definition log_block :: "32 word \<Rightarrow> block_state \<Rightarrow> block_state result" where
  "log_block n s =
     bindE (the_or Undefined_behaviour (fetch_block_on_main_branch_by_number (bs_fork_db s) n)) (\<lambda>r.
     bindE (the_or (Assert Not_found) r) (\<lambda>p.
       Inr (s\<lparr>bs_log := bs_log s @ [fi_data (item (bs_fork_db s) p)]\<rparr>)))"

definition log_head_num :: "block_lib \<Rightarrow> block_state \<Rightarrow> nat" where
  "log_head_num B s = (if bs_log s = [] then 0 else unat (block_num B (last (bs_log s))))"

definition update_last_irreversible_block :: "block_lib \<Rightarrow> skip_flags \<Rightarrow> block_state \<Rightarrow> block_state result" where
  "update_last_irreversible_block B skip s =
     bindE (irreversible_num s) (\<lambda>lib.
     let s1 = s\<lparr>bs_dgp := (bs_dgp s)\<lparr>dg_last_irreversible_block_num := lib\<rparr>,
               bs_witnesses := commit (uint lib) (bs_witnesses s)\<rparr> in
     bindE (if skip_block_log skip then Inr s1
            else foldE (\<lambda>n. log_block (of_nat n)) [log_head_num B s1 + 1..<unat lib + 1] s1) (\<lambda>s2.
       Inr (s2\<lparr>bs_fork_db := fork_set_max_size (head_num s2 - lib + 1) (bs_fork_db s2)\<rparr>)))"

section \<open>Participation\<close>

definition popcount :: "128 word \<Rightarrow> nat" where
  "popcount x = card {i. i < 128 \<and> bit x i}"

definition participation_ok :: "dynamic_global_property_object \<Rightarrow> bool" where
  "participation_ok d \<longleftrightarrow> unat (dg_participation_count d) = popcount (dg_recent_slots_filled d)"

lemma popcount_le: "popcount x \<le> 128"
  using card_mono [of "{..<128::nat}" "{i. i < 128 \<and> bit x i}"] by (auto simp: popcount_def)

lemma bit_shift: "bit (push_bit 1 (x :: 128 word)) i \<longleftrightarrow> i \<noteq> 0 \<and> i < 128 \<and> bit x (i - 1)"
  by (auto simp only: bit_push_bit_iff possible_bit_word) auto

lemma bit_fill:
  fixes x :: "128 word"
  shows "bit (push_bit 1 x + of_nat (if c then 1 else 0)) i \<longleftrightarrow> (c \<and> i = 0) \<or> bit (push_bit 1 x) i"
proof (cases c)
  case True
  have nf: "bit (push_bit 1 x AND 1) j = False" for j
    by (simp only: bit_and_iff bit_shift bit_1_iff) auto
  then have "push_bit 1 x AND 1 = 0"
    by (intro bit_eqI) (simp only: nf bit_0_eq bot_fun_def bot_bool_def)
  then have "push_bit 1 x + 1 = push_bit 1 x OR 1"
    by (rule disjunctive_add_eq_or)
  then show ?thesis
    using True by (auto simp only: if_True of_nat_1 bit_or_iff bit_1_iff)
qed simp

lemma popcount_fill:
  "popcount (push_bit 1 x + of_nat (if c then 1 else 0)) + (if bit x 127 then 1 else 0) = popcount x + (if c then 1 else 0)"
proof -
  let ?A = "{i. i < 128 \<and> bit x i}" and ?B = "{i. i < 127 \<and> bit x i}"
  have "i < 128 \<longleftrightarrow> i < 127 \<or> i = 127" for i :: nat
    by linarith
  then have "?A = ?B \<union> (if bit x 127 then {127} else {})"
    by auto
  then have A: "popcount x = card ?B + (if bit x 127 then 1 else 0)"
    by (simp add: popcount_def)
  have "{i. i < 128 \<and> bit (push_bit 1 x + of_nat (if c then 1 else 0)) i} = Suc ` ?B \<union> (if c then {0} else {})"
    unfolding bit_fill bit_shift by (auto simp: image_iff gr0_conv_Suc)
  then have "popcount (push_bit 1 x + of_nat (if c then 1 else 0)) = card ?B + (if c then 1 else 0)"
    by (simp add: popcount_def card_image)
  then show ?thesis
    using A by simp
qed

lemma participation_word: "participation_ok d \<longleftrightarrow> dg_participation_count d = of_nat (popcount (dg_recent_slots_filled d))"
proof -
  let ?n = "popcount (dg_recent_slots_filled d)"
  have u: "unat (of_nat ?n :: 8 word) = ?n"
    by (rule of_nat_inverse [OF refl]) (use popcount_le [of "dg_recent_slots_filled d"] in simp)
  show ?thesis
    unfolding participation_ok_def word_unat_eq_iff u ..
qed

lemma fill_slot_participation:
  assumes "participation_ok d"
  shows "participation_ok (fill_slot i d)"
proof -
  let ?x = "dg_recent_slots_filled d"
  have "(of_nat (popcount (push_bit 1 ?x + of_nat (if i = 0 then 1 else 0)) + (if bit ?x 127 then 1 else 0)) :: 8 word) =
    of_nat (popcount ?x + (if i = 0 then 1 else 0))"
    by (simp only: popcount_fill)
  then show ?thesis
    using assms by (auto simp: participation_word fill_slot_def Let_def algebra_simps split: if_splits)
qed

lemma fill_slots_participation: "participation_ok d \<Longrightarrow> participation_ok (fold fill_slot is d)"
  by (induction "is" arbitrary: d) (simp_all add: fill_slot_participation)

lemma miss_slots_same:
  assumes "foldE (miss_slot b) is s = Inr s'"
  shows "bs_dgp s' = bs_dgp s \<and> bs_schedule s' = bs_schedule s"
proof (rule foldE_invariant [where P = "\<lambda>t. bs_dgp t = bs_dgp s \<and> bs_schedule t = bs_schedule s", OF _ assms])
  fix i t u
  assume "bs_dgp t = bs_dgp s \<and> bs_schedule t = bs_schedule s" "miss_slot b i t = Inr u"
  then show "bs_dgp u = bs_dgp s \<and> bs_schedule u = bs_schedule s"
    by (auto simp: miss_slot_def modify_witness_def ok_iff split: if_splits)
qed simp

text \<open>
  C6. A block that is counted keeps the measure of participation right: \<open>participation_count\<close> is
  the number of slots filled among the last 128. It moves the head to the block and the absolute
  slot forward by the slots since the last one.
\<close>

theorem participation_kept:
  assumes "update_global_dynamic_data B skip b s = Inr s'" "participation_ok (bs_dgp s)"
  shows "participation_ok (bs_dgp s') \<and> dg_head_block_id (bs_dgp s') = block_id B b \<and>
    head_num s' = block_num B b \<and> head_time s' = bl_timestamp b \<and>
    dg_current_aslot (bs_dgp s') = dg_current_aslot (bs_dgp s) +
      ucast (if head_time s = 0 then 1 else get_slot_at_time (bl_timestamp b) s) \<and>
    bs_schedule s' = bs_schedule s"
proof -
  obtain missed s1 where
    m: "(if head_time s = 0 then Inr (0, s)
         else if get_slot_at_time (bl_timestamp b) s = 0 then Inl Undefined_behaviour
         else bindE (foldE (miss_slot b) [0..<unat (get_slot_at_time (bl_timestamp b) s - 1)] s)
                (\<lambda>t. Inr (get_slot_at_time (bl_timestamp b) s - 1, t))) = Inr (missed, s1)" and
    s': "s1\<lparr>bs_dgp := (fold fill_slot [0..<Suc (unat missed)] (bs_dgp s1))\<lparr>dg_head_block_number := block_num B b,
      dg_head_block_id := block_id B b, dg_time := bl_timestamp b,
      dg_current_aslot := dg_current_aslot (fold fill_slot [0..<Suc (unat missed)] (bs_dgp s1)) + ucast (missed + 1)\<rparr>\<rparr> = s'"
    using assms(1) unfolding update_global_dynamic_data_def Let_def
    by (simp add: ok_iff del: upt_Suc split: prod.splits) (elim exE conjE, rule that; assumption)
  have s1: "bs_dgp s1 = bs_dgp s" "bs_schedule s1 = bs_schedule s"
    "missed + 1 = (if head_time s = 0 then 1 else get_slot_at_time (bl_timestamp b) s)"
    using m miss_slots_same by (auto simp: Let_def ok_iff split: if_splits)
  have slots: "dg_current_aslot (fold fill_slot is d) = dg_current_aslot d" for "is" d
    by (induction "is" arbitrary: d) (simp_all add: fill_slot_def Let_def)
  have "participation_ok (fold fill_slot [0..<Suc (unat missed)] (bs_dgp s))"
    by (rule fill_slots_participation [OF assms(2)])
  then show ?thesis
    using s1(2) by (simp only: s' [symmetric] s1(1,3) slots participation_ok_def) simp
qed

section \<open>Irreversibility\<close>

text \<open>The selected element of a sorted list is not above the elements from its place on.\<close>

lemma selected_quorum:
  assumes "offset < length ws"
  shows "length ws - offset \<le> length (filter (\<lambda>w. f (sort_key f ws ! offset) \<le> f w) ws)"
proof -
  let ?ss = "sort_key f ws"
  have "f (?ss ! offset) \<le> f w" if w: "w \<in> set (drop offset ?ss)" for w
  proof -
    obtain i where i: "w = ?ss ! (offset + i)" "offset + i < length ws"
      using w by (auto simp: in_set_conv_nth)
    have "sorted (map f ?ss)"
      by (rule sorted_sort_key)
    then have "map f ?ss ! offset \<le> map f ?ss ! (offset + i)"
      using i by (intro sorted_nth_mono) auto
    then show ?thesis
      using i by simp
  qed
  then have "filter (\<lambda>w. f (?ss ! offset) \<le> f w) (drop offset ?ss) = drop offset ?ss"
    by (simp add: filter_id_conv)
  then have "length ws - offset \<le> length (filter (\<lambda>w. f (?ss ! offset) \<le> f w) (take offset ?ss @ drop offset ?ss))"
    by (simp del: append_take_drop_id)
  also have "\<dots> = size (filter_mset (\<lambda>w. f (?ss ! offset) \<le> f w) (mset ws))"
    by (simp only: append_take_drop_id flip: size_mset mset_filter) simp
  also have "\<dots> = length (filter (\<lambda>w. f (?ss ! offset) \<le> f w) ws)"
    by (simp flip: size_mset mset_filter)
  finally show ?thesis .
qed

lemma length_filter_mono: "(\<And>w. P w \<Longrightarrow> Q w) \<Longrightarrow> length (filter P ws) \<le> length (filter Q ws)"
  by (induction ws) auto

definition confirmed :: "32 word \<Rightarrow> witness_object list \<Rightarrow> nat" where
  "confirmed n ws = length (filter (\<lambda>w. unat n \<le> unat (w_last_confirmed_block_num w)) ws)"

lemma irreversible_quorum:
  assumes "irreversible_num s = Inr lib" "DEIP_START_MINER_VOTING_BLOCK \<le> unat (head_num s)" "scheduled_witnesses s = Inr ws"
  shows "dg_last_irreversible_block_num (bs_dgp s) \<le> lib \<and>
    (lib \<noteq> dg_last_irreversible_block_num (bs_dgp s) \<longrightarrow> 3 * length ws \<le> 4 * confirmed lib ws)"
proof -
  let ?offset = "(10000 - DEIP_IRREVERSIBLE_THRESHOLD) * length ws div 10000"
  let ?w = "sort_key w_last_confirmed_block_num ws ! ?offset"
  have o: "?offset < length ws" and lib: "lib = (if ucast (w_last_confirmed_block_num ?w) > dg_last_irreversible_block_num (bs_dgp s)
      then ucast (w_last_confirmed_block_num ?w) else dg_last_irreversible_block_num (bs_dgp s))"
    using assms by (auto simp: irreversible_num_def ok_iff Let_def)
  have "unat (ucast (w_last_confirmed_block_num ?w) :: 32 word) \<le> unat (w_last_confirmed_block_num ?w)"
    by (simp add: unsigned_ucast_eq take_bit_nat_less_eq_self)
  then have "unat (ucast (w_last_confirmed_block_num ?w) :: 32 word) \<le> unat (w_last_confirmed_block_num w)"
    if "w_last_confirmed_block_num ?w \<le> w_last_confirmed_block_num w" for w
    using that by (simp only: word_le_nat_alt)
  then have "length (filter (\<lambda>w. w_last_confirmed_block_num ?w \<le> w_last_confirmed_block_num w) ws)
      \<le> confirmed (ucast (w_last_confirmed_block_num ?w)) ws"
    unfolding confirmed_def by (rule length_filter_mono)
  then have "length ws - ?offset \<le> confirmed (ucast (w_last_confirmed_block_num ?w)) ws"
    using selected_quorum [OF o, of w_last_confirmed_block_num] by simp
  moreover have "4 * ?offset \<le> length ws"
    by (simp add: DEIP_IRREVERSIBLE_THRESHOLD_def)
  ultimately have "3 * length ws \<le> 4 * confirmed (ucast (w_last_confirmed_block_num ?w)) ws"
    by linarith
  then show ?thesis
    using lib by (auto simp: not_less split: if_splits)
qed

lemma log_head_same: "log_head_num B (s\<lparr>bs_dgp := d, bs_witnesses := t\<rparr>) = log_head_num B s"
  by (simp add: log_head_num_def)

text \<open>The block log grows by the blocks of the main branch with the numbers asked for.\<close>

lemma log_blocks:
  assumes "foldE (\<lambda>n. log_block (of_nat n)) ns s = Inr s'" "\<forall>n\<in>set ns. n < 2 ^ 32"
    and ok: "fork_ok B (bs_fork_db s)" "block_lib_ok B"
  shows "s' = s\<lparr>bs_log := bs_log s'\<rparr> \<and> (\<exists>bs. bs_log s' = bs_log s @ bs \<and> map (\<lambda>b. unat (block_num B b)) bs = ns)"
  using assms(1-3)
proof (induction ns arbitrary: s)
  case (Cons n ns)
  obtain u where u: "log_block (of_nat n) s = Inr u" "foldE (\<lambda>n. log_block (of_nat n)) ns u = Inr s'"
    using Cons.prems(1) by (auto simp: ok_iff)
  obtain p where p: "fetch_block_on_main_branch_by_number (bs_fork_db s) (of_nat n) = Some (Some p)"
    and rest: "foldE (\<lambda>n. log_block (of_nat n)) ns (s\<lparr>bs_log := bs_log s @ [fi_data (item (bs_fork_db s) p)]\<rparr>) = Inr s'"
    using u(1) u(2) unfolding log_block_def [of "of_nat n" s] by (auto simp: ok_iff)
  have "unat (of_nat n :: 32 word) = n"
    by (rule of_nat_inverse [OF refl]) (use Cons.prems(2) in simp)
  then have num: "unat (block_num B (fi_data (item (bs_fork_db s) p))) = n"
    using main_branch_num [OF Cons.prems(3) ok(2) p] by simp
  obtain bs where bs: "s' = s\<lparr>bs_log := bs_log s'\<rparr>"
    "bs_log s' = (bs_log s @ [fi_data (item (bs_fork_db s) p)]) @ bs" "map (\<lambda>b. unat (block_num B b)) bs = ns"
    using Cons.IH [OF rest] Cons.prems(2,3) by auto
  then show ?case
    using num by (intro conjI exI [of _ "fi_data (item (bs_fork_db s) p) # bs"]) simp_all
qed simp


section \<open>Witnesses\<close>

lemma slots_and_times_witness:
  "get_slot_at_time (get_slot_time 5 two_producers) two_producers = 5 \<and>
   unat (133 :: 32 word) < unat (get_slot_time (get_slot_at_time 133 two_producers) two_producers) + SLOT_INTERVAL"
proof -
  have "slot_zero two_producers = 126" "get_slot_time 1 two_producers = 129"
    by (simp_all add: slot_zero_def get_slot_time_def two_producers_def demo_production_def SLOT_INTERVAL_def)
  then show ?thesis
    using slots_and_times [of 5 two_producers 133] by (simp add: SLOT_INTERVAL_def)
qed

definition late_block :: signed_block where
  "late_block = \<lparr>bl_previous = demo_id 42 0, bl_timestamp = 132, bl_witness = ''bob'', bl_payload = 3\<rparr>"

lemma participation_kept_witness:
  "\<exists>s'. update_global_dynamic_data plain_lib \<lparr>skip_undo_history_check = False, skip_block_log = False\<rparr> late_block two_producers
      = Inr s' \<and> participation_ok (bs_dgp s')"
proof -
  let ?f = "update_global_dynamic_data plain_lib \<lparr>skip_undo_history_check = False, skip_block_log = False\<rparr> late_block"
  have "succeeds (?f two_producers)"
    by code_simp
  then obtain s' where s': "?f two_producers = Inr s'"
    by (auto simp: succeeds_iff)
  have "{i :: nat. i < 128} = {..<128}"
    by auto
  then have "popcount (- 1) = 128"
    by (simp add: popcount_def)
  then have "participation_ok (bs_dgp two_producers)"
    by (simp add: participation_ok_def two_producers_def demo_production_def)
  then show ?thesis
    using s' participation_kept [OF s'] by blast
qed

definition voting_chain :: block_state where
  "voting_chain = (let s = demo_production [(demo_witness ''alice'' (Some 1) 10)\<lparr>w_last_confirmed_block_num := 2\<rparr>]
     in s\<lparr>bs_dgp := (bs_dgp s)\<lparr>dg_head_block_number := 900000, dg_last_irreversible_block_num := 0\<rparr>, bs_fork_db := forked\<rparr>)"


end
