(* ===== verification/Push_Block.thy ===== *)
theory Push_Block
  imports Fork_Database
begin

text \<open>
  How the node takes a block (\<open>chain/database/database.cpp\<close>): it goes to the fork database, and when
  that prefers another branch than the one applied, the node undoes the blocks of the old branch
  and applies those of the new one.

  The state of the chain and what a block does to it are parameters: \<open>ru_apply_block\<close> is any
  function, its effect on the window of the fork database (\<open>Block_Head\<close>) left out. The undo stack
  is the list of the states its sessions go back to; that undoing a session gives back the state
  at its start is C1. An exception leaves the node as it is at that moment, so that the steps
  return the node and, when they throw, the error.
\<close>

record 's rules =
  ru_apply_block :: "signed_block \<Rightarrow> 's \<Rightarrow> 's result"
  ru_head_block_id :: "'s \<Rightarrow> block_id_type"
  ru_head_block_num :: "'s \<Rightarrow> 32 word"

text \<open>
  \<open>nd_log\<close> and \<open>nd_summaries\<close> are the block log and the block summaries by number; \<open>nd_popped\<close> are
  the blocks whose transactions are in \<open>_popped_tx\<close>, in that order.
\<close>

record 's node =
  nd_state :: 's
  nd_saved :: "'s list"
  nd_fork_db :: fork_database
  nd_log :: "32 word \<Rightarrow> signed_block option"
  nd_summaries :: "nat \<Rightarrow> block_id_type option"
  nd_popped :: "signed_block list"

type_synonym 's outcome = "'s node \<times> error option"

abbreviation fork_data :: "'s node \<Rightarrow> nat \<Rightarrow> signed_block" where
  "fork_data nd p \<equiv> fi_data (item (nd_fork_db nd) p)"

section \<open>Looking blocks up\<close>

definition fetch_block_by_id :: "block_lib \<Rightarrow> 's node \<Rightarrow> block_id_type \<Rightarrow> signed_block option" where
  "fetch_block_by_id B nd i =
     (case fork_fetch_block (nd_fork_db nd) i of
        Some p \<Rightarrow> Some (fork_data nd p)
      | None \<Rightarrow>
          (case nd_log nd (num_from_id B i) of
             Some b \<Rightarrow> if block_id B b = i then Some b else None
           | None \<Rightarrow> None))"

definition is_known_block :: "block_lib \<Rightarrow> 's node \<Rightarrow> block_id_type \<Rightarrow> bool" where
  "is_known_block B nd i \<longleftrightarrow> fetch_block_by_id B nd i \<noteq> None"

definition fetch_block_by_num :: "'s node \<Rightarrow> 32 word \<Rightarrow> signed_block option" where
  "fetch_block_by_num nd n =
     (case fetch_block_by_number (nd_fork_db nd) n of
        [p] \<Rightarrow> Some (fork_data nd p)
      | _ \<Rightarrow> nd_log nd n)"

text \<open>
  A block number is looked for in the summaries of the last 65536 blocks, then in the block log,
  then on the main branch. \<open>None\<close> is a null head of the fork database, as in
  \<open>walk_main_branch_to_num\<close>.
\<close>

definition logged_or_forked_id :: "block_lib \<Rightarrow> 's node \<Rightarrow> 32 word \<Rightarrow> block_id_type option" where
  "logged_or_forked_id B nd n =
     (case nd_log nd n of
        Some b \<Rightarrow> Some (block_id B b)
      | None \<Rightarrow> map_option (\<lambda>r. case r of Some p \<Rightarrow> fi_id (item (nd_fork_db nd) p) | None \<Rightarrow> no_block)
                  (fetch_block_on_main_branch_by_number (nd_fork_db nd) n))"

definition find_block_id_for_num :: "block_lib \<Rightarrow> 's node \<Rightarrow> 32 word \<Rightarrow> block_id_type option" where
  "find_block_id_for_num B nd n =
     (if n = 0 then Some no_block
      else case nd_summaries nd (unat n mod 65536) of
        Some i \<Rightarrow> if num_from_id B i = n then Some i else logged_or_forked_id B nd n
      | None \<Rightarrow> logged_or_forked_id B nd n)"

definition get_block_id_for_num :: "block_lib \<Rightarrow> 's node \<Rightarrow> 32 word \<Rightarrow> block_id_type result" where
  "get_block_id_for_num B nd n =
     bindE (the_or Undefined_behaviour (find_block_id_for_num B nd n)) (\<lambda>i. require (i \<noteq> no_block) Not_found (Inr i))"

definition get_block_ids_on_fork :: "'s rules \<Rightarrow> block_lib \<Rightarrow> 's node \<Rightarrow> block_id_type \<Rightarrow> block_id_type list result option" where
  "get_block_ids_on_fork R B nd head_of_fork =
     map_option (map_sum id (\<lambda>(us, vs). map (\<lambda>p. fi_id (item (nd_fork_db nd) p)) vs @ [previous_id (item (nd_fork_db nd) (last us))]))
       (fetch_branch_from B (nd_fork_db nd) (ru_head_block_id R (nd_state nd)) head_of_fork)"

section \<open>Undoing and applying a block\<close>

definition undo_session :: "'s node \<Rightarrow> 's node" where
  "undo_session nd = (case nd_saved nd of [] \<Rightarrow> nd | t # ts \<Rightarrow> nd\<lparr>nd_state := t, nd_saved := ts\<rparr>)"

definition pop_block :: "'s rules \<Rightarrow> block_lib \<Rightarrow> 's node \<Rightarrow> 's outcome" where
  "pop_block R B nd =
     (case fetch_block_by_id B nd (ru_head_block_id R (nd_state nd)) of
        None \<Rightarrow> (nd, Some (Assert Not_found))
      | Some b \<Rightarrow>
     (case fork_pop_block (nd_fork_db nd) of
        Inl e \<Rightarrow> (nd, Some e)
      | Inr F \<Rightarrow> ((undo_session (nd\<lparr>nd_fork_db := F\<rparr>))\<lparr>nd_popped := b # nd_popped nd\<rparr>, None)))"

partial_function (option) pop_to :: "'s rules \<Rightarrow> block_lib \<Rightarrow> block_id_type \<Rightarrow> 's node \<Rightarrow> 's outcome option" where
  "pop_to R B target nd =
     (if ru_head_block_id R (nd_state nd) = target then Some (nd, None)
      else case pop_block R B nd of
             (nd1, Some e) \<Rightarrow> Some (nd1, Some e)
           | (nd1, None) \<Rightarrow> pop_to R B target nd1)"

text \<open>A session is pushed when the block is applied and undone when it throws.\<close>

definition apply_in_session :: "'s rules \<Rightarrow> signed_block \<Rightarrow> 's node \<Rightarrow> 's outcome" where
  "apply_in_session R b nd =
     (case ru_apply_block R b (nd_state nd) of
        Inl e \<Rightarrow> (nd, Some e)
      | Inr s \<Rightarrow> (nd\<lparr>nd_state := s, nd_saved := nd_state nd # nd_saved nd\<rparr>, None))"

text \<open>The blocks of a branch, from its parent on; with the error come the items not applied.\<close>

fun apply_items :: "'s rules \<Rightarrow> nat list \<Rightarrow> 's node \<Rightarrow> 's outcome \<times> nat list" where
  "apply_items R [] nd = ((nd, None), [])"
| "apply_items R (p # ps) nd =
     (case apply_in_session R (fork_data nd p) nd of
        (nd1, None) \<Rightarrow> apply_items R ps nd1
      | (nd1, Some e) \<Rightarrow> ((nd1, Some e), p # ps))"

section \<open>Switching forks and pushing a block\<close>

definition switch_fork :: "'s rules \<Rightarrow> block_lib \<Rightarrow> nat list \<Rightarrow> nat list \<Rightarrow> 's node \<Rightarrow> 's outcome option" where
  "switch_fork R B us vs nd =
     (let target = bl_previous (fork_data nd (last vs)) in
      case pop_to R B target nd of
        None \<Rightarrow> None
      | Some (nd1, Some e) \<Rightarrow> Some (nd1, Some e)
      | Some (nd1, None) \<Rightarrow>
     (case apply_items R (rev us) nd1 of
        ((nd2, None), _) \<Rightarrow> Some (nd2, None)
      | ((nd2, Some e), bad) \<Rightarrow>
          let F = fold (\<lambda>p. fork_remove (block_id B (fork_data nd2 p))) bad (nd_fork_db nd2) in
     (case pop_to R B target (nd2\<lparr>nd_fork_db := fork_set_head (hd vs) F\<rparr>) of
        None \<Rightarrow> None
      | Some (nd3, Some e1) \<Rightarrow> Some (nd3, Some e1)
      | Some (nd3, None) \<Rightarrow>
     (case apply_items R (rev vs) nd3 of
        ((nd4, Some e1), _) \<Rightarrow> Some (nd4, Some e1)
      | ((nd4, None), _) \<Rightarrow> Some (nd4, Some e)))))"

definition push_applied :: "'s rules \<Rightarrow> block_lib \<Rightarrow> signed_block \<Rightarrow> 's node \<Rightarrow> 's outcome" where
  "push_applied R B b nd =
     (case apply_in_session R b nd of
        (nd1, None) \<Rightarrow> (nd1, None)
      | (nd1, Some e) \<Rightarrow> (nd1\<lparr>nd_fork_db := fork_remove (block_id B b) (nd_fork_db nd1)\<rparr>, Some e))"

text \<open>The result is whether the node switched forks. \<open>None\<close> is a push that does not end.\<close>

definition push_block :: "'s rules \<Rightarrow> block_lib \<Rightarrow> bool \<Rightarrow> signed_block \<Rightarrow> 's node \<Rightarrow> (bool \<times> 's outcome) option" where
  "push_block R B skip_fork_db b nd =
     (if skip_fork_db then Some (False, push_applied R B b nd)
      else case fork_push_block B b (nd_fork_db nd) of
        Inl e \<Rightarrow> Some (False, (nd, Some e))
      | Inr (h, F) \<Rightarrow>
          let nd1 = nd\<lparr>nd_fork_db := F\<rparr>; head = ru_head_block_id R (nd_state nd) in
          if bl_previous (fork_data nd1 h) \<noteq> head then
            if block_num B (fork_data nd1 h) > ru_head_block_num R (nd_state nd) then
              (case fetch_branch_from B F (block_id B (fork_data nd1 h)) head of
                 None \<Rightarrow> None
               | Some (Inl e) \<Rightarrow> Some (False, (nd1, Some e))
               | Some (Inr (us, vs)) \<Rightarrow> map_option (\<lambda>r. (True, r)) (switch_fork R B us vs nd1))
            else Some (False, (nd1, None))
          else Some (False, push_applied R B b nd1))"

end
