(* ===== verification/Fork_Switch.thy ===== *)
theory Fork_Switch
  imports Push_Block Fork_Branches
begin

text \<open>
  Switching forks is a refinement of one abstract step on the state of the chain: the blocks of
  the new branch are applied to the state at the common parent, or, when one of them throws, the
  state stays what it was. What the node really does is undo, apply, undo and apply again.
\<close>

section \<open>Histories\<close>

text \<open>The state and its undo stack come from another by applying blocks, the newest first.\<close>

fun history :: "'s rules \<Rightarrow> signed_block list \<Rightarrow> 's \<Rightarrow> 's list \<Rightarrow> 's \<Rightarrow> 's list \<Rightarrow> bool" where
  "history R [] s ts s0 ts0 \<longleftrightarrow> s = s0 \<and> ts = ts0"
| "history R (b # bs) s [] s0 ts0 \<longleftrightarrow> False"
| "history R (b # bs) s (t # ts) s0 ts0 \<longleftrightarrow> ru_apply_block R b t = Inr s \<and> history R bs t ts s0 ts0"

lemma history_Cons:
  "history R (b # bs) s ts s0 ts0 \<longleftrightarrow> (\<exists>t ts'. ts = t # ts' \<and> ru_apply_block R b t = Inr s \<and> history R bs t ts' s0 ts0)"
  by (cases ts) auto

lemma history_append:
  "history R (bs @ cs) s ts s0 ts0 \<longleftrightarrow> (\<exists>s1 ts1. history R bs s ts s1 ts1 \<and> history R cs s1 ts1 s0 ts0)"
  by (induction bs arbitrary: s ts) (auto simp: history_Cons)

text \<open>What applying a block promises: the block follows the head, and is then the head.\<close>

definition rules_ok :: "'s rules \<Rightarrow> block_lib \<Rightarrow> bool" where
  "rules_ok R B \<longleftrightarrow> (\<forall>b s t. ru_apply_block R b t = Inr s \<longrightarrow>
     ru_head_block_id R s = block_id B b \<and> ru_head_block_num R s = block_num B b \<and>
     bl_previous b = ru_head_block_id R t)"

lemma history_first: "rules_ok R B \<Longrightarrow> history R (bs @ [b]) s ts s0 ts0 \<Longrightarrow> bl_previous b = ru_head_block_id R s0"
  by (auto simp: history_append history_Cons rules_ok_def)

section \<open>Popping blocks\<close>

text \<open>A link to an item of the index stays one when the head moves.\<close>

fun spath :: "fork_database \<Rightarrow> nat \<Rightarrow> nat list \<Rightarrow> bool" where
  "spath F p [] \<longleftrightarrow> True"
| "spath F p (q # qs) \<longleftrightarrow> fi_prev (item F p) = Some q \<and> q \<in> set (fd_index F) \<and> spath F q qs"

lemma spath_mono:
  "spath F p qs \<Longrightarrow> fd_items F' = fd_items F \<Longrightarrow> set qs \<inter> set (fd_index F) \<subseteq> set (fd_index F') \<Longrightarrow> spath F' p qs"
  by (induction qs arbitrary: p) auto

lemma spath_take: "spath F p qs \<Longrightarrow> spath F p (take n qs)"
  by (induction qs arbitrary: p n) (auto simp: take_Cons split: nat.splits)

lemma linked_spath: "linked F (p # qs) \<Longrightarrow> set qs \<subseteq> set (fd_index F) \<Longrightarrow> spath F p qs"
  by (induction qs arbitrary: p) (auto simp: link_def lock_prev_def split: option.splits if_splits)

lemma find_id_head [simp]: "find_id (F\<lparr>fd_head := x\<rparr>) ps i = find_id F ps i"
  by (simp add: find_id_def)

definition known :: "block_lib \<Rightarrow> fork_database \<Rightarrow> nat \<Rightarrow> bool" where
  "known B F p \<longleftrightarrow> find_id F (fd_index F) (block_id B (fi_data (item F p))) \<noteq> None"

lemma pop_to_history:
  assumes R: "rules_ok R B"
    and "history R (map (fork_data nd) ps) (nd_state nd) (nd_saved nd) s0 ts0"
    and "\<forall>p\<in>set ps. block_id B (fork_data nd p) \<noteq> ru_head_block_id R s0 \<and> known B (nd_fork_db nd) p"
    and "fd_head (nd_fork_db nd) = Some h" "spath (nd_fork_db nd) h zs" "length zs = length ps"
  shows "\<exists>popped. pop_to R B (ru_head_block_id R s0) nd = Some (nd\<lparr>nd_state := s0, nd_saved := ts0,
    nd_fork_db := (nd_fork_db nd)\<lparr>fd_head := Some (last (h # zs))\<rparr>, nd_popped := popped\<rparr>, None)"
  using assms(2-)
proof (induction ps arbitrary: nd h zs)
  case Nil
  then have "pop_to R B (ru_head_block_id R s0) nd = Some (nd, None)"
    by (subst pop_to.simps) simp
  moreover have "nd = nd\<lparr>nd_state := s0, nd_saved := ts0, nd_fork_db := (nd_fork_db nd)\<lparr>fd_head := Some (last (h # zs))\<rparr>,
      nd_popped := nd_popped nd\<rparr>"
    using Nil.prems by simp
  ultimately show ?case
    by metis
next
  case (Cons p ps)
  let ?F = "nd_fork_db nd" and ?target = "ru_head_block_id R s0"
  obtain t ts where t: "nd_saved nd = t # ts" "ru_apply_block R (fork_data nd p) t = Inr (nd_state nd)"
    "history R (map (fork_data nd) ps) t ts s0 ts0"
    using Cons.prems(1) by (auto simp: history_Cons)
  have id: "ru_head_block_id R (nd_state nd) = block_id B (fork_data nd p)"
    using R t(2) by (simp add: rules_ok_def)
  obtain b where b: "fetch_block_by_id B nd (block_id B (fork_data nd p)) = Some b"
    using Cons.prems(2) by (auto simp: fetch_block_by_id_def fork_fetch_block_def known_def)
  obtain z zs' where z: "zs = z # zs'" "fi_prev (item ?F h) = Some z" "z \<in> set (fd_index ?F)" "spath ?F z zs'"
    using Cons.prems(4,5) by (cases zs) auto
  have "fork_pop_block ?F = Inr (?F\<lparr>fd_head := Some z\<rparr>)"
    using Cons.prems(3) z by (simp add: fork_pop_block_def lock_prev_def alive_def)
  then have pop: "pop_block R B nd = (nd\<lparr>nd_state := t, nd_saved := ts, nd_fork_db := ?F\<lparr>fd_head := Some z\<rparr>,
      nd_popped := b # nd_popped nd\<rparr>, None)" (is "_ = (?nd, None)")
    using b id t(1) by (simp add: pop_block_def undo_session_def)
  have "pop_to R B ?target nd = pop_to R B ?target ?nd"
    using Cons.prems(2) id pop by (subst pop_to.simps) simp
  moreover have "\<exists>popped. pop_to R B ?target ?nd = Some (?nd\<lparr>nd_state := s0, nd_saved := ts0,
      nd_fork_db := (nd_fork_db ?nd)\<lparr>fd_head := Some (last (z # zs'))\<rparr>, nd_popped := popped\<rparr>, None)"
  proof (rule Cons.IH)
    show "history R (map (fork_data ?nd) ps) (nd_state ?nd) (nd_saved ?nd) s0 ts0"
      using t(3) by simp
    show "\<forall>q\<in>set ps. block_id B (fork_data ?nd q) \<noteq> ?target \<and> known B (nd_fork_db ?nd) q"
      using Cons.prems(2) by (simp add: known_def)
    show "spath (nd_fork_db ?nd) z zs'"
      by (rule spath_mono [OF z(4)]) auto
    show "length zs' = length ps"
      using Cons.prems(5) z(1) by simp
  qed simp
  ultimately show ?case
    using z(1) by auto
qed

section \<open>Applying branches\<close>

lemma apply_items_cases:
  assumes "apply_items R ps nd = ((nd', err), rest)"
  shows "\<exists>ps1 s ts. ps = ps1 @ rest \<and> nd' = nd\<lparr>nd_state := s, nd_saved := ts\<rparr> \<and>
    history R (rev (map (fork_data nd) ps1)) s ts (nd_state nd) (nd_saved nd) \<and>
    foldE (ru_apply_block R) (map (fork_data nd) ps) (nd_state nd) = (case err of None \<Rightarrow> Inr s | Some e \<Rightarrow> Inl e) \<and>
    (err = None \<longleftrightarrow> rest = [])"
  using assms
proof (induction ps arbitrary: nd)
  case (Cons p ps)
  show ?case
  proof (cases "ru_apply_block R (fork_data nd p) (nd_state nd)")
    case (Inl e)
    then show ?thesis
      using Cons.prems by (auto simp: apply_in_session_def intro!: exI [of _ "[]"] exI [of _ "nd_state nd"] exI [of _ "nd_saved nd"])
  next
    case (Inr t)
    let ?nd = "nd\<lparr>nd_state := t, nd_saved := nd_state nd # nd_saved nd\<rparr>"
    have "apply_items R ps ?nd = ((nd', err), rest)"
      using Cons.prems Inr by (simp add: apply_in_session_def)
    from Cons.IH [OF this] obtain ps1 s ts where ih: "ps = ps1 @ rest" "nd' = ?nd\<lparr>nd_state := s, nd_saved := ts\<rparr>"
      "history R (rev (map (fork_data nd) ps1)) s ts t (nd_state nd # nd_saved nd)"
      "foldE (ru_apply_block R) (map (fork_data nd) ps) t = (case err of None \<Rightarrow> Inr s | Some e \<Rightarrow> Inl e)"
      "err = None \<longleftrightarrow> rest = []"
      by auto
    have "history R (rev (map (fork_data nd) (p # ps1))) s ts (nd_state nd) (nd_saved nd)"
      using ih(3) Inr by (simp add: history_append) (intro exI [of _ t] exI [of _ "nd_state nd # nd_saved nd"], simp)
    then show ?thesis
      using ih Inr by (intro exI [of _ "p # ps1"] exI [of _ s] exI [of _ ts]) auto
  qed
qed auto

lemma apply_items_history:
  "history R (rev (map (fork_data nd) ps)) s ts (nd_state nd) (nd_saved nd) \<Longrightarrow>
   apply_items R ps nd = ((nd\<lparr>nd_state := s, nd_saved := ts\<rparr>, None), [])"
proof (induction ps arbitrary: nd)
  case (Cons p ps)
  obtain t where t: "ru_apply_block R (fork_data nd p) (nd_state nd) = Inr t"
    "history R (rev (map (fork_data nd) ps)) s ts t (nd_state nd # nd_saved nd)"
    using Cons.prems by (auto simp: history_append history_Cons)
  then show ?case
    using Cons.IH [of "nd\<lparr>nd_state := t, nd_saved := nd_state nd # nd_saved nd\<rparr>"] by (simp add: apply_in_session_def)
qed simp

section \<open>The two branches\<close>

text \<open>
  When the switch starts, the fork database's head is the new branch, the two branches are as
  \<open>branches_meet\<close> says, their items are still indexed, the new branch is the higher one, and the
  links below the old head reach back as far as the new branch is long (\<open>zs\<close>).
\<close>

definition switch_ready :: "block_lib \<Rightarrow> fork_database \<Rightarrow> nat list \<Rightarrow> nat list \<Rightarrow> nat list \<Rightarrow> bool" where
  "switch_ready B F us vs zs \<longleftrightarrow> fork_ok B F \<and> block_lib_ok B \<and> fd_head F = Some (hd us) \<and>
     branch F (hd us) us \<and> branch F (hd vs) vs \<and> meet F us vs \<and> set us \<union> set vs \<subseteq> set (fd_index F) \<and>
     height B F (hd vs) < height B F (hd us) \<and> height B F (last us) \<noteq> 0 \<and>
     spath F (hd vs) zs \<and> length us \<le> length zs \<and> set zs \<inter> set us \<subseteq> {last us}"

lemma indexed:
  assumes "fork_ok B F" "p \<in> set (fd_index F)"
  shows "p < length (fd_items F)" "fi_id (item F p) = block_id B (fi_data (item F p))"
  using assms by (auto simp: fork_ok_def alive_def item_ok_def)

lemma linked_height:
  assumes "fork_ok B F" "block_lib_ok B" "linked F (p # ps)" "p < length (fd_items F)"
  shows "unat (height B F p) = unat (height B F (last (p # ps))) + length ps"
  using assms(3,4)
proof (induction ps arbitrary: p)
  case (Cons q ps)
  have l: "link F p q"
    using Cons.prems(1) by simp
  note d = link_down [OF assms(1,2) Cons.prems(2) l]
  have "unat (height B F q) = unat (height B F (last (q # ps))) + length ps"
    using Cons.prems d(1) by (intro Cons.IH) auto
  then show ?case
    using d(3) by simp
qed simp

lemma linked_distinct:
  assumes "fork_ok B F" "block_lib_ok B" "linked F us" "\<forall>p\<in>set us. p < length (fd_items F)"
  shows "distinct us"
  using assms(3,4)
proof (induction us)
  case (Cons p ps)
  have "linked F ps"
    using Cons.prems(1) by (cases ps) auto
  then have "distinct ps"
    using Cons by simp
  moreover have "q < p" if q: "q \<in> set ps" for q
  proof -
    have l: "link F p (hd ps)" "linked F ps"
      using Cons.prems(1) q by (cases ps; auto)+
    have "hd ps < p" "q \<le> hd ps"
      using link_down(1) [OF assms(1,2) _ l(1)] reach_down [OF assms(1,2) _ linked_reach [OF l(2) q]] Cons.prems(2) q
      by (auto simp: hd_in_set)
    then show ?thesis
      by simp
  qed
  ultimately show ?case
    by force
qed simp

lemma above_parent:
  assumes ok: "fork_ok B F" "block_lib_ok B" and us: "linked F us" "us \<noteq> []" "set us \<subseteq> set (fd_index F)"
    and h: "height B F (last us) \<noteq> 0" and x: "x \<in> set us"
  shows "fi_id (item F x) \<noteq> prev_id F (last us)"
proof
  assume e: "fi_id (item F x) = prev_id F (last us)"
  have xi: "x \<in> set (fd_index F)"
    using us(3) x by blast
  obtain as bs where s: "us = as @ x # bs"
    using x split_list by fast
  have "linked F (x # bs)"
    using us(1) unfolding s
  proof (induction as)
    case (Cons a as)
    then show ?case by (cases as) auto
  qed simp
  then have "unat (height B F (last us)) \<le> unat (height B F x)"
    using linked_height [OF ok _ indexed(1) [OF ok(1) xi], of bs] by (simp add: s)
  moreover have "height B F (last us) = num_from_id B (prev_id F (last us)) + 1"
    by (simp add: height_def block_num_def previous_id_def)
  moreover have "num_from_id B (prev_id F (last us)) = height B F x"
    using e indexed(2) [OF ok(1) xi] num_of_block_id [OF ok(2)] by (metis height_def)
  ultimately have "unat (height B F x + 1) \<le> unat (height B F x)" "height B F x + 1 \<noteq> 0"
    using h by simp_all
  then show False
    by (metis Suc_n_not_le_n unatSuc add.commute)
qed

lemma switch_facts:
  assumes "switch_ready B F us vs zs"
  shows "length vs < length us" "prev_id F (last us) = prev_id F (last vs)"
    "\<And>p. p \<in> set us \<union> set vs \<Longrightarrow> block_id B (fi_data (item F p)) \<noteq> prev_id F (last vs) \<and> known B F p"
    "spath F (hd us) (tl us)" "us \<noteq> []" "vs \<noteq> []"
proof -
  have ok: "fork_ok B F" "block_lib_ok B" and b: "linked F us" "linked F vs" and ne: "us \<noteq> []" "vs \<noteq> []"
    and m: "prev_id F (last us) = prev_id F (last vs)" and i: "set us \<subseteq> set (fd_index F)" "set vs \<subseteq> set (fd_index F)"
    and h: "height B F (hd vs) < height B F (hd us)" "height B F (last us) \<noteq> 0"
    using assms by (auto simp: switch_ready_def branch_def meet_def)
  show "prev_id F (last us) = prev_id F (last vs)" "us \<noteq> []" "vs \<noteq> []"
    by fact+
  have lasts: "height B F (last us) = height B F (last vs)"
    using prev_height [OF m] .
  have hd: "hd us < length (fd_items F)" "hd vs < length (fd_items F)"
    using i ne indexed(1) [OF ok(1)] by (meson hd_in_set subsetD)+
  show "length vs < length us"
    using linked_height [OF ok, of "hd us" "tl us"] linked_height [OF ok, of "hd vs" "tl vs"] b ne hd h(1) lasts
    by (simp add: word_less_nat_alt length_greater_0_conv [symmetric] del: length_greater_0_conv)
  show "block_id B (fi_data (item F p)) \<noteq> prev_id F (last vs) \<and> known B F p" if p: "p \<in> set us \<union> set vs" for p
  proof -
    have "p \<in> set (fd_index F)"
      using p i by blast
    note id = indexed(2) [OF ok(1) this] and mem = this
    have "fi_id (item F p) \<noteq> prev_id F (last vs)"
      using p above_parent [OF ok b(1) ne(1) i(1) h(2)] above_parent [OF ok b(2) ne(2) i(2)] h(2) lasts m by auto
    moreover have "known B F p"
      using mem id by (auto simp: known_def find_id_None)
    ultimately show ?thesis
      using id by simp
  qed
  show "spath F (hd us) (tl us)"
    using b(1) ne i by (intro linked_spath) (auto dest: list.set_sel(2) [rotated])
qed

lemma remove_all:
  "fd_items (fold (\<lambda>p. fork_remove (g p)) bad F) = fd_items F \<and>
   fd_index (fold (\<lambda>p. fork_remove (g p)) bad F) = filter (\<lambda>p. \<forall>x\<in>set bad. fi_id (item F p) \<noteq> g x) (fd_index F)"
  by (induction bad arbitrary: F) (auto simp: fork_remove_def intro: filter_cong)

section \<open>The switch\<close>

text \<open>The recovery after a block that throws: the items not applied go, and the old head is back.\<close>

lemma recovery_path:
  assumes r: "switch_ready B F us vs zs" and split: "rev us = ps @ bad" "bad \<noteq> []"
    and F': "F' = fork_set_head (hd vs) (fold (\<lambda>p. fork_remove (block_id B (fi_data (item F p)))) bad (F\<lparr>fd_head := h\<rparr>))"
  shows "fd_items F' = fd_items F" "fd_head F' = Some (hd vs)" "spath F' (hd vs) (take (length ps) zs)"
    "length (take (length ps) zs) = length ps" "\<forall>p\<in>set ps. known B F' p"
proof -
  have ok: "fork_ok B F" and i: "set us \<subseteq> set (fd_index F)" and z: "spath F (hd vs) zs" "length us \<le> length zs"
    "set zs \<inter> set us \<subseteq> {last us}" and ne: "us \<noteq> []"
    using r switch_facts(5) [OF r] by (auto simp: switch_ready_def)
  let ?F = "F\<lparr>fd_head := h\<rparr>"
  have items: "fd_items F' = fd_items F" and index: "fd_index F' =
      filter (\<lambda>p. \<forall>x\<in>set bad. fi_id (item F p) \<noteq> block_id B (fi_data (item F x))) (fd_index F)"
    using remove_all [of "\<lambda>p. block_id B (fi_data (item F p))" bad ?F] by (simp_all add: F' fork_set_head_def)
  show "fd_items F' = fd_items F" "fd_head F' = Some (hd vs)"
    by (simp_all add: items) (simp add: F' fork_set_head_def)
  have parts: "set us = set ps \<union> set bad" "set ps \<inter> set bad = {}"
  proof -
    show "set us = set ps \<union> set bad"
      using arg_cong [OF split(1), of set] by simp
    have "distinct us"
      using r i indexed(1) [OF ok] by (intro linked_distinct [of B F]) (auto simp: switch_ready_def branch_def)
    then show "set ps \<inter> set bad = {}"
      using split(1) by (metis distinct_append distinct_rev)
  qed
  have stay: "q \<in> set (fd_index F')" if q: "q \<in> set (fd_index F)" "q \<notin> set bad" for q
  proof -
    have "fi_id (item F q) \<noteq> block_id B (fi_data (item F x))" if x: "x \<in> set bad" for x
    proof -
      have "x \<in> set (fd_index F)"
        using x parts(1) i by blast
      then show ?thesis
        using q x indexed(2) [OF ok] ok unfolding fork_ok_def distinct_map inj_on_def by metis
    qed
    then show ?thesis
      using q(1) by (simp add: index)
  qed
  show "\<forall>p\<in>set ps. known B F' p"
  proof
    fix p assume p: "p \<in> set ps"
    then have "p \<in> set (fd_index F)"
      using parts(1) i by blast
    then have "p \<in> set (fd_index F')" "fi_id (item F' p) = block_id B (fi_data (item F' p))"
      using stay p parts(2) indexed(2) [OF ok] items by auto
    then show "known B F' p"
      by (auto simp: known_def find_id_None)
  qed
  have "set zs \<inter> set bad = {}" if "ps \<noteq> []"
  proof -
    have "last us = hd ps"
      using split(1) that ne by (metis hd_append2 hd_rev)
    then have "last us \<in> set ps"
      using hd_in_set [OF that] by simp
    moreover have "x = last us" if "x \<in> set zs" "x \<in> set bad" for x
      using z(3) parts(1) that by blast
    ultimately show ?thesis
      using parts(2) by blast
  qed
  then have "set (take (length ps) zs) \<inter> set (fd_index F) \<subseteq> set (fd_index F')"
    using stay by (cases "ps = []") (auto dest: in_set_takeD)
  then show "spath F' (hd vs) (take (length ps) zs)"
    using spath_mono [OF spath_take [OF z(1)] items] by blast
  have "length ps \<le> length us"
    using arg_cong [OF split(1), of length] by simp
  then show "length (take (length ps) zs) = length ps"
    using z(2) by simp
qed

text \<open>The abstract step.\<close>

definition reorg :: "'s rules \<Rightarrow> signed_block list \<Rightarrow> 's \<Rightarrow> 's \<Rightarrow> 's \<times> error option" where
  "reorg R blocks base old =
     (case foldE (ru_apply_block R) blocks base of Inr s \<Rightarrow> (s, None) | Inl e \<Rightarrow> (old, Some e))"

lemma switch_fork_spec:
  assumes R: "rules_ok R B" and r: "switch_ready B (nd_fork_db nd) us vs zs"
    and hist: "history R (map (fork_data nd) vs) (nd_state nd) (nd_saved nd) s0 ts0"
  shows "\<exists>nd'. switch_fork R B us vs nd = Some (nd', snd (reorg R (rev (map (fork_data nd) us)) s0 (nd_state nd))) \<and>
    nd_state nd' = fst (reorg R (rev (map (fork_data nd) us)) s0 (nd_state nd)) \<and>
    (snd (reorg R (rev (map (fork_data nd) us)) s0 (nd_state nd)) = None \<longrightarrow>
       history R (map (fork_data nd) us) (nd_state nd') (nd_saved nd') s0 ts0 \<and>
       fd_head (nd_fork_db nd') = Some (us ! length vs)) \<and>
    (snd (reorg R (rev (map (fork_data nd) us)) s0 (nd_state nd)) \<noteq> None \<longrightarrow> nd_saved nd' = nd_saved nd)"
proof -
  let ?F = "nd_fork_db nd" and ?target = "ru_head_block_id R s0" and ?h = "hd us"
  note facts = switch_facts [OF r]
  have vs: "map (fork_data nd) vs = map (fork_data nd) (butlast vs) @ [fork_data nd (last vs)]"
    using arg_cong [OF append_butlast_last_id [OF facts(6)], of "map (fork_data nd)", symmetric]
    by (simp only: map_append list.map)
  have target: "bl_previous (fork_data nd (last vs)) = ?target"
    by (rule history_first [OF R hist [unfolded vs]])
  have known: "\<forall>p\<in>set us \<union> set vs. block_id B (fork_data nd p) \<noteq> ?target \<and> known B ?F p"
    using facts(3) target by (simp add: previous_id_def)
  let ?zs = "take (length vs) (tl us)"
  have head: "fd_head ?F = Some ?h" and path: "spath ?F ?h ?zs" "length ?zs = length vs"
    using r facts(1) spath_take [OF facts(4)] by (auto simp: switch_ready_def)
  have last: "last (?h # ?zs) = us ! length vs"
    using facts(1,5,6) by (cases us) (auto simp: last_conv_nth nth_Cons' min_def less_Suc_eq_le dest: le_antisym)
  obtain popped where pop: "pop_to R B ?target nd = Some (nd\<lparr>nd_state := s0, nd_saved := ts0,
      nd_fork_db := ?F\<lparr>fd_head := Some (us ! length vs)\<rparr>, nd_popped := popped\<rparr>, None)" (is "_ = Some (?nd1, None)")
    using pop_to_history [OF R hist _ head path] known last by auto
  obtain nd2 err bad where ap: "apply_items R (rev us) ?nd1 = ((nd2, err), bad)"
    by (metis prod.collapse)
  obtain ps s ts where ps: "rev us = ps @ bad" "nd2 = ?nd1\<lparr>nd_state := s, nd_saved := ts\<rparr>"
    "history R (rev (map (fork_data nd) ps)) s ts s0 ts0"
    "foldE (ru_apply_block R) (map (fork_data nd) (rev us)) s0 = (case err of None \<Rightarrow> Inr s | Some e \<Rightarrow> Inl e)"
    "err = None \<longleftrightarrow> bad = []"
    using apply_items_cases [OF ap] by auto
  show ?thesis
  proof (cases err)
    case None
    then have "reorg R (rev (map (fork_data nd) us)) s0 (nd_state nd) = (s, None)"
      using ps(4) by (simp add: reorg_def rev_map)
    moreover have "map (fork_data nd) us = rev (map (fork_data nd) ps)"
      using ps(1,5) None by (metis append_Nil2 rev_map rev_rev_ident)
    moreover have "switch_fork R B us vs nd = Some (nd2, None)"
      using pop ap None target by (simp add: switch_fork_def Let_def)
    ultimately show ?thesis
      using ps(2,3) by simp
  next
    case (Some e)
    then have re: "reorg R (rev (map (fork_data nd) us)) s0 (nd_state nd) = (nd_state nd, Some e)"
      using ps(4) by (simp add: reorg_def rev_map)
    let ?bad = "fold (\<lambda>p. fork_remove (block_id B (fork_data nd2 p))) bad (nd_fork_db nd2)"
    let ?nd3 = "nd2\<lparr>nd_fork_db := fork_set_head (hd vs) ?bad\<rparr>"
    have F3: "nd_fork_db ?nd3 = fork_set_head (hd vs)
        (fold (\<lambda>p. fork_remove (block_id B (fi_data (item ?F p)))) bad (?F\<lparr>fd_head := Some (us ! length vs)\<rparr>))"
      using ps(2) by simp
    have nonempty: "bad \<noteq> []"
      using ps(5) Some by simp
    note rp = recovery_path [OF r ps(1) nonempty F3]
    have data: "fork_data ?nd3 = fork_data nd"
      using rp(1) by simp
    have "history R (map (fork_data ?nd3) (rev ps)) (nd_state ?nd3) (nd_saved ?nd3) s0 ts0"
      using ps(2,3) unfolding data by (simp add: rev_map)
    moreover have "\<forall>p\<in>set (rev ps). block_id B (fork_data ?nd3 p) \<noteq> ?target \<and> known B (nd_fork_db ?nd3) p"
      using known rp(1,5) arg_cong [OF ps(1), of set] by simp
    ultimately have "\<exists>popped. pop_to R B ?target ?nd3 = Some (?nd3\<lparr>nd_state := s0, nd_saved := ts0,
        nd_fork_db := (nd_fork_db ?nd3)\<lparr>fd_head := Some (last (hd vs # take (length ps) zs))\<rparr>, nd_popped := popped\<rparr>, None)"
      by (rule pop_to_history [OF R _ _ rp(2,3)]) (use rp(4) in simp)
    then obtain popped' where pop': "pop_to R B ?target ?nd3 = Some (?nd3\<lparr>nd_state := s0, nd_saved := ts0,
        nd_fork_db := (nd_fork_db ?nd3)\<lparr>fd_head := Some (last (hd vs # take (length ps) zs))\<rparr>, nd_popped := popped'\<rparr>, None)"
      (is "_ = Some (?nd4, None)")
      by blast
    have "fork_data ?nd4 = fork_data nd"
      using rp(1) by simp
    then have "apply_items R (rev vs) ?nd4 = ((?nd4\<lparr>nd_state := nd_state nd, nd_saved := nd_saved nd\<rparr>, None), [])"
      using hist by (intro apply_items_history) (simp add: rev_map [symmetric])
    then have "switch_fork R B us vs nd = Some (?nd4\<lparr>nd_state := nd_state nd, nd_saved := nd_saved nd\<rparr>, Some e)"
      using pop ap Some target pop' by (simp add: switch_fork_def Let_def)
    then show ?thesis
      by (simp add: re)
  qed
qed


section \<open>Witness\<close>

text \<open>A chain whose state is its blocks.\<close>

definition list_rules :: "signed_block list rules" where
  "list_rules = (let head = (\<lambda>s. case s of [] \<Rightarrow> no_block | b # _ \<Rightarrow> block_id plain_lib b) in
     \<lparr>ru_apply_block = (\<lambda>b s. if bl_previous b = head s \<and> bl_payload b \<noteq> 13 then Inr (b # s) else Inl (Assert Bad_status)),
      ru_head_block_id = head,
      ru_head_block_num = (\<lambda>s. case s of [] \<Rightarrow> 0 | b # _ \<Rightarrow> block_num plain_lib b)\<rparr>)"

definition two_branches :: fork_database where
  "two_branches = \<lparr>fd_items =
     [mk_fork_item plain_lib (demo_block no_block 6),
      (mk_fork_item plain_lib (demo_block (demo_id 1 6) 7))\<lparr>fi_prev := Some 0\<rparr>,
      (mk_fork_item plain_lib (demo_block (demo_id 2 7) 9))\<lparr>fi_prev := Some 1\<rparr>,
      (mk_fork_item plain_lib (demo_block (demo_id 2 7) 8))\<lparr>fi_prev := Some 1\<rparr>],
     fd_index = [0, 1, 2, 3], fd_unlinked = [], fd_max_size = 1024, fd_head = Some 2\<rparr>"

definition branched_node :: "signed_block list node" where
  "branched_node = (let b6 = demo_block no_block 6; b7 = demo_block (demo_id 1 6) 7; b9 = demo_block (demo_id 2 7) 9 in
     \<lparr>nd_state = [b9, b7, b6], nd_saved = [[b7, b6], [b6], []], nd_fork_db = two_branches, nd_log = (\<lambda>_. None),
      nd_summaries = (\<lambda>_. None), nd_popped = []\<rparr>)"

definition new_tip :: signed_block where
  "new_tip = demo_block (demo_id 3 8) 5"

definition after_push :: fork_database where
  "after_push = two_branches\<lparr>fd_items := fd_items two_branches @ [(mk_fork_item plain_lib new_tip)\<lparr>fi_prev := Some 3\<rparr>],
     fd_index := [0, 1, 2, 3, 4], fd_head := Some 4\<rparr>"

lemmas branch_eval = after_push_def two_branches_def branched_node_def new_tip_def fork_eval

lemma push_new_tip: "fork_push_block plain_lib new_tip two_branches = Inr (4, after_push)"
  by (simp add: fork_push_block_def index_insert_def higher_def oldest_def Let_def branch_eval)

lemma two_branches_reachable: "fork_reachable plain_lib two_branches"
proof (rule push_all_reachable)
  show "fork_reachable plain_lib (fork_start_block plain_lib (demo_block no_block 6) empty_fork_database)"
    by (intro fork_reachable.intros)
  show "push_all plain_lib [demo_block (demo_id 1 6) 7, demo_block (demo_id 2 7) 9, demo_block (demo_id 2 7) 8]
      (fork_start_block plain_lib (demo_block no_block 6) empty_fork_database) = Inr two_branches"
    by (simp add: push_all_def fork_push_block_def fork_start_block_def empty_fork_database_def index_insert_def
        higher_def oldest_def Let_def branch_eval)
qed

lemma after_push_ready: "switch_ready plain_lib after_push [4, 3] [2] [1, 0]"
proof -
  have "fork_ok plain_lib after_push" "block_lib_ok plain_lib"
    using fork_reachable_ok [OF fork_reachable.push [OF two_branches_reachable push_new_tip]]
    by (simp_all add: block_lib_ok_def plain_lib_def)
  then show ?thesis
    by (simp add: switch_ready_def branch_def meet_def link_def lock_prev_def alive_def height_def branch_eval)
qed

lemma list_rules_ok: "rules_ok list_rules plain_lib"
  by (auto simp: rules_ok_def list_rules_def Let_def split: if_splits)

lemma after_push_branches:
  "fetch_branch_from plain_lib after_push (demo_id 4 5) (demo_id 3 9) = Some (Inr ([4, 3], [2]))"
proof -
  have "climb plain_lib after_push 3 4 [] = Some (Inr (3, [4]))"
    by (subst climb.simps, simp add: lock_prev_def alive_def branch_eval, subst climb.simps, simp add: branch_eval)
  moreover have "climb plain_lib after_push 3 2 [] = Some (Inr (2, []))"
    by (subst climb.simps) (simp add: branch_eval)
  moreover have "join_branches after_push 3 2 [4] [] = Some (Inr ([4, 3], [2]))"
    by (subst join_branches.simps) (simp add: branch_eval)
  moreover have "find_id after_push (fd_index after_push) (demo_id 4 5) = Some 4"
    "find_id after_push (fd_index after_push) (demo_id 3 9) = Some 2"
    "block_num plain_lib (fi_data (item after_push 2)) = 3" "block_num plain_lib (fi_data (item after_push 3)) = 3"
    by (simp_all add: branch_eval)
  ultimately show ?thesis
    by (simp add: fetch_branch_from_def)
qed


end
