(* ===== verification/Witness_Votes.thy ===== *)
theory Witness_Votes
  imports Block_Head Validators Schema
begin

text \<open>
  Voting for witnesses: \<open>witness_update\<close>, \<open>account_witness_vote\<close> and \<open>account_witness_proxy\<close>
  (\<open>chain/deip_evaluator.cpp\<close>, \<open>protocol/deip_operations.cpp\<close>) over the services
  \<open>chain/services/dbs_account.cpp\<close> and \<open>dbs_witness.cpp\<close>. The votes of a witness are cached in its
  object. An account names itself or another account, its proxy, to vote with its tokens; what is
  proxied to an account at each of four removes is cached in its object too. Url and creation time
  of a witness are not kept.
\<close>

section \<open>State\<close>

definition DEIP_MAX_PROXY_RECURSION_DEPTH :: nat where "DEIP_MAX_PROXY_RECURSION_DEPTH = 4"
definition DEIP_MAX_ACCOUNT_WITNESS_VOTES :: nat where "DEIP_MAX_ACCOUNT_WITNESS_VOTES = 30"
definition DEIP_MAX_WITNESS_URL_LENGTH :: nat where "DEIP_MAX_WITNESS_URL_LENGTH = 2048"
definition DEIP_MIN_BLOCK_SIZE_LIMIT :: nat where "DEIP_MIN_BLOCK_SIZE_LIMIT = 65536"
definition DEIP_PROXY_TO_SELF_ACCOUNT :: string where "DEIP_PROXY_TO_SELF_ACCOUNT = ''''"

text \<open>The fields of an account object that voting uses.\<close>

record voter_object = account_object +
  vo_proxy :: string
  vo_can_vote :: bool
  vo_expertise_tokens_balance :: int
  vo_common_tokens_balance :: int
  vo_proxied_vsf_votes :: "int list"
  vo_witnesses_voted_for :: "16 word"

definition voter_key :: "voter_object \<Rightarrow> voter_object \<Rightarrow> bool" where
  "voter_key v w \<longleftrightarrow> acc_name v = acc_name w"

record witness_vote_object =
  wv_witness :: nat
  wv_account :: nat

definition vote_key :: "witness_vote_object \<Rightarrow> witness_vote_object \<Rightarrow> bool" where
  "vote_key v w \<longleftrightarrow> wv_account v = wv_account w \<and> wv_witness v = wv_witness w"

record voting_state =
  vs_block :: block_state
  vs_accounts :: "voter_object generic_index"
  vs_votes :: "witness_vote_object generic_index"

definition get_voter :: "string \<Rightarrow> voting_state \<Rightarrow> (nat \<times> voter_object) result" where
  "get_voter n s = get_row (\<lambda>a. acc_name a = n) (vs_accounts s)"

definition modify_voter :: "nat \<Rightarrow> (voter_object \<Rightarrow> voter_object) \<Rightarrow> voting_state \<Rightarrow> voting_state result" where
  "modify_voter i m s = bindE (modify voter_key i m (vs_accounts s)) (\<lambda>t. Inr (s\<lparr>vs_accounts := t\<rparr>))"

definition neg :: "fc_lib \<Rightarrow> int \<Rightarrow> int result" where
  "neg L x = the_or Overflow (safe_neg L x)"

definition witness_vote_weight :: "fc_lib \<Rightarrow> voter_object \<Rightarrow> int result" where
  "witness_vote_weight L a = foldE (\<lambda>x acc. add L acc x) (vo_proxied_vsf_votes a) (vo_expertise_tokens_balance a)"

section \<open>The services\<close>

text \<open>The votes of an account, in the order of \<open>by_account_witness\<close>.\<close>

definition votes_of :: "nat \<Rightarrow> voting_state \<Rightarrow> (nat \<times> witness_vote_object) list" where
  "votes_of i s = sort_key (\<lambda>p. wv_witness (snd p)) (filter (\<lambda>p. wv_account (snd p) = i) (rows (vs_votes s)))"

definition adjust_one :: "fc_lib \<Rightarrow> int \<Rightarrow> nat \<times> witness_vote_object \<Rightarrow> block_state \<Rightarrow> block_state result" where
  "adjust_one L delta p b =
     bindE (the_or Out_of_range (lookup (bs_witnesses b) (wv_witness (snd p)))) (\<lambda>_.
       adjust_witness_vote L (wv_witness (snd p)) delta b)"

definition adjust_witness_votes :: "fc_lib \<Rightarrow> nat \<Rightarrow> int \<Rightarrow> voting_state \<Rightarrow> voting_state result" where
  "adjust_witness_votes L i delta s =
     bindE (foldE (adjust_one L delta) (votes_of i s) (vs_block s)) (\<lambda>b. Inr (s\<lparr>vs_block := b\<rparr>))"

text \<open>One of the loops of \<open>adjust_proxied_witness_votes\<close>: \<open>votes[i + depth] += delta[i]\<close>.\<close>

definition add_delta :: "fc_lib \<Rightarrow> nat \<Rightarrow> int list \<Rightarrow> nat \<Rightarrow> int list \<Rightarrow> int list result" where
  "add_delta L depth delta i votes =
     bindE (elem_at votes (i + depth)) (\<lambda>v. bindE (elem_at delta i) (\<lambda>d. bindE (add L v d) (\<lambda>y.
       Inr (votes[i + depth := y]))))"

definition add_deltas :: "fc_lib \<Rightarrow> nat \<Rightarrow> int list \<Rightarrow> int list \<Rightarrow> int list result" where
  "add_deltas L depth delta votes =
     foldE (add_delta L depth delta) (rev [0..<DEIP_MAX_PROXY_RECURSION_DEPTH - depth]) votes"

definition total_delta :: "fc_lib \<Rightarrow> nat \<Rightarrow> int list \<Rightarrow> int result" where
  "total_delta L depth delta =
     foldE (\<lambda>i t. bindE (elem_at delta i) (add L t)) (rev [0..<DEIP_MAX_PROXY_RECURSION_DEPTH - depth + 1]) 0"

function adjust_proxied_deltas ::
  "fc_lib \<Rightarrow> int list \<Rightarrow> nat \<Rightarrow> nat \<Rightarrow> voting_state \<Rightarrow> voting_state result" where
  "adjust_proxied_deltas L delta depth i s =
     bindE (the_or Undefined_behaviour (lookup (vs_accounts s) i)) (\<lambda>account.
     if vo_proxy account \<noteq> DEIP_PROXY_TO_SELF_ACCOUNT then
       if depth \<ge> DEIP_MAX_PROXY_RECURSION_DEPTH then Inr s
       else bindE (get_voter (vo_proxy account) s) (\<lambda>proxy.
            bindE (add_deltas L depth delta (vo_proxied_vsf_votes (snd proxy))) (\<lambda>votes.
            bindE (modify_voter (fst proxy) (vo_proxied_vsf_votes_update (\<lambda>_. votes)) s)
              (adjust_proxied_deltas L delta (depth + 1) (fst proxy))))
     else bindE (total_delta L depth delta) (\<lambda>t. adjust_witness_votes L i t s))"
  by pat_completeness auto
termination
  by (relation "measure (\<lambda>(L, delta, depth, i, s). DEIP_MAX_PROXY_RECURSION_DEPTH - depth)")
    (auto simp: DEIP_MAX_PROXY_RECURSION_DEPTH_def)

declare adjust_proxied_deltas.simps [simp del]

text \<open>The overload that moves a single amount at the place of the depth.\<close>

function adjust_proxied_amount :: "fc_lib \<Rightarrow> int \<Rightarrow> nat \<Rightarrow> nat \<Rightarrow> voting_state \<Rightarrow> voting_state result" where
  "adjust_proxied_amount L delta depth i s =
     bindE (the_or Undefined_behaviour (lookup (vs_accounts s) i)) (\<lambda>account.
     if vo_proxy account \<noteq> DEIP_PROXY_TO_SELF_ACCOUNT then
       if depth \<ge> DEIP_MAX_PROXY_RECURSION_DEPTH then Inr s
       else bindE (get_voter (vo_proxy account) s) (\<lambda>proxy.
            bindE (elem_at (vo_proxied_vsf_votes (snd proxy)) depth) (\<lambda>v.
            bindE (add L v delta) (\<lambda>y.
            bindE (modify_voter (fst proxy) (vo_proxied_vsf_votes_update (\<lambda>votes. votes[depth := y])) s)
              (adjust_proxied_amount L delta (depth + 1) (fst proxy)))))
     else adjust_witness_votes L i delta s)"
  by pat_completeness auto
termination
  by (relation "measure (\<lambda>(L, delta, depth, i, s). DEIP_MAX_PROXY_RECURSION_DEPTH - depth)")
    (auto simp: DEIP_MAX_PROXY_RECURSION_DEPTH_def)

declare adjust_proxied_amount.simps [simp del]

definition remove_vote :: "nat \<times> witness_vote_object \<Rightarrow> voting_state \<Rightarrow> voting_state result" where
  "remove_vote p s = bindE (remove (fst p) (vs_votes s)) (\<lambda>t. Inr (s\<lparr>vs_votes := t\<rparr>))"

definition clear_witness_votes :: "nat \<Rightarrow> voting_state \<Rightarrow> voting_state result" where
  "clear_witness_votes i s =
     bindE (foldE remove_vote (votes_of i s) s) (modify_voter i (vo_witnesses_voted_for_update (\<lambda>_. 0)))"

text \<open>
  The walk along the proxies of the proxy. Its loop points \<open>cprox\<close> at a copy that dies with the
  round and reads it in the next condition, so a round that does not throw ends in undefined
  behaviour; only a proxy without a proxy of its own leaves the loop.
\<close>

definition check_proxy_chain :: "nat \<Rightarrow> nat \<times> voter_object \<Rightarrow> voting_state \<Rightarrow> unit result" where
  "check_proxy_chain i proxy s =
     (if vo_proxy (snd proxy) = '''' then Inr ()
      else bindE (get_voter (vo_proxy (snd proxy)) s) (\<lambda>next_proxy.
        require (fst next_proxy \<notin> {i, fst proxy}) Bad_link
       (require (card {i, fst proxy, fst next_proxy} \<le> DEIP_MAX_PROXY_RECURSION_DEPTH) Limit_exceeded
         (Inl Undefined_behaviour))))"

definition update_voting_proxy :: "fc_lib \<Rightarrow> nat \<Rightarrow> (nat \<times> voter_object) option \<Rightarrow> voting_state \<Rightarrow> voting_state result" where
  "update_voting_proxy L i proxy_account s =
     bindE (the_or Undefined_behaviour (lookup (vs_accounts s) i)) (\<lambda>account.
     bindE (mapE (neg L) (vo_common_tokens_balance account # vo_proxied_vsf_votes account)) (\<lambda>delta.
     bindE (adjust_proxied_deltas L delta 0 i s) (\<lambda>s1.
     case proxy_account of
       Some proxy \<Rightarrow>
         bindE (check_proxy_chain i proxy s1) (\<lambda>_.
         bindE (clear_witness_votes i s1) (\<lambda>s2.
         bindE (modify_voter i (vo_proxy_update (\<lambda>_. acc_name (snd proxy))) s2) (\<lambda>s3.
         bindE (mapE (neg L) delta) (\<lambda>delta'.
           adjust_proxied_deltas L delta' 0 i s3))))
     | None \<Rightarrow> modify_voter i (vo_proxy_update (\<lambda>_. DEIP_PROXY_TO_SELF_ACCOUNT)) s1)))"

definition increase_witnesses_voted_for :: "nat \<Rightarrow> voting_state \<Rightarrow> voting_state result" where
  "increase_witnesses_voted_for i = modify_voter i (vo_witnesses_voted_for_update (\<lambda>n. n + 1))"

definition decrease_witnesses_voted_for :: "nat \<Rightarrow> voting_state \<Rightarrow> voting_state result" where
  "decrease_witnesses_voted_for i = modify_voter i (vo_witnesses_voted_for_update (\<lambda>n. n - 1))"

text \<open>\<open>retally_witness_votes\<close> counts all the votes again.\<close>

definition retally_account :: "fc_lib \<Rightarrow> nat \<times> voter_object \<Rightarrow> voting_state \<Rightarrow> voting_state result" where
  "retally_account L p s =
     (if vo_proxy (snd p) \<noteq> DEIP_PROXY_TO_SELF_ACCOUNT then Inr s
      else bindE (foldE (\<lambda>v b. bindE (the_or Out_of_range (lookup (bs_witnesses b) (wv_witness (snd v)))) (\<lambda>_.
                    bindE (witness_vote_weight L (snd p)) (\<lambda>weight.
                      adjust_witness_vote L (wv_witness (snd v)) weight b))) (votes_of (fst p) s) (vs_block s))
             (\<lambda>b. Inr (s\<lparr>vs_block := b\<rparr>)))"

definition retally_witness_votes :: "fc_lib \<Rightarrow> voting_state \<Rightarrow> voting_state result" where
  "retally_witness_votes L s =
     bindE (foldE (\<lambda>p. modify_witness (fst p) (\<lambda>w. w\<lparr>w_votes := 0, w_virtual_position := 0\<rparr>))
              (rows (bs_witnesses (vs_block s))) (vs_block s)) (\<lambda>b.
       foldE (retally_account L) (rows (vs_accounts s)) (s\<lparr>vs_block := b\<rparr>))"

section \<open>The operations\<close>

record witness_update_operation =
  wu_owner :: string
  wu_url :: string
  wu_block_signing_key :: "nat option"
  wu_props :: chain_properties
  wu_fee :: asset

definition chain_properties_validate :: "chain_properties \<Rightarrow> unit result" where
  "chain_properties_validate p =
     bindE (asset_ge (cp_account_creation_fee p) \<lparr>amount = 0, symbol = DEIP_SYMBOL\<rparr>) (\<lambda>ge.
     require ge Bad_amount (require (unat (cp_maximum_block_size p) \<ge> DEIP_MIN_BLOCK_SIZE_LIMIT) Bad_size (Inr ())))"

definition witness_update_validate :: "fc_lib \<Rightarrow> witness_update_operation \<Rightarrow> unit result" where
  "witness_update_validate L op =
     bindE (validate_account_name (wu_owner op)) (\<lambda>_.
     require (length (wu_url op) > 0) Bad_size
    (require (is_utf8 L (wu_url op)) Bad_text
      (bindE (asset_gt (wu_fee op) \<lparr>amount = 0, symbol = DEIP_SYMBOL\<rparr>) (\<lambda>gt.
       require gt Bad_amount (chain_properties_validate (wu_props op))))))"

definition new_witness :: "32 word \<Rightarrow> witness_update_operation \<Rightarrow> witness_object" where
  "new_witness genesis op =
     \<lparr>w_owner = wu_owner op, w_total_missed = 0, w_last_aslot = 0, w_last_confirmed_block_num = 0,
      w_signing_key = wu_block_signing_key op, w_props = wu_props op, w_votes = 0, w_schedule = Unscheduled,
      w_virtual_last_update = 0, w_virtual_position = 0, w_virtual_scheduled_time = - 1,
      w_running_version = 0, w_hardfork_version_vote = 0, w_hardfork_time_vote = genesis\<rparr>"

definition witness_update_apply :: "32 word \<Rightarrow> witness_update_operation \<Rightarrow> voting_state \<Rightarrow> voting_state result" where
  "witness_update_apply genesis op s =
     require (find_row (\<lambda>a. acc_name a = wu_owner op) (vs_accounts s) \<noteq> None) Not_found
    (require (length (wu_url op) \<le> DEIP_MAX_WITNESS_URL_LENGTH) Bad_size
    (require (symbol (cp_account_creation_fee (wu_props op)) = DEIP_SYMBOL) Wrong_symbol
      (case find_row (\<lambda>w. w_owner w = wu_owner op) (bs_witnesses (vs_block s)) of
         Some p \<Rightarrow>
           bindE (modify_witness (fst p) (\<lambda>w. w\<lparr>w_signing_key := wu_block_signing_key op, w_props := wu_props op\<rparr>)
                    (vs_block s)) (\<lambda>b. Inr (s\<lparr>vs_block := b\<rparr>))
       | None \<Rightarrow>
           bindE (emplace witness_key (new_witness genesis op) (bs_witnesses (vs_block s))) (\<lambda>(_, t).
             Inr (s\<lparr>vs_block := (vs_block s)\<lparr>bs_witnesses := t\<rparr>\<rparr>)))))"

record account_witness_vote_operation =
  av_account :: string
  av_witness :: string
  av_approve :: bool

definition account_witness_vote_validate :: "account_witness_vote_operation \<Rightarrow> unit result" where
  "account_witness_vote_validate op =
     bindE (validate_account_name (av_account op)) (\<lambda>_. validate_account_name (av_witness op))"

definition approve_witness :: "fc_lib \<Rightarrow> nat \<Rightarrow> nat \<Rightarrow> voter_object \<Rightarrow> voting_state \<Rightarrow> voting_state result" where
  "approve_witness L i j voter s =
     require (unat (vo_witnesses_voted_for voter) < DEIP_MAX_ACCOUNT_WITNESS_VOTES) Limit_exceeded
      (bindE (emplace vote_key \<lparr>wv_witness = j, wv_account = i\<rparr> (vs_votes s)) (\<lambda>(_, t).
       bindE (witness_vote_weight L voter) (\<lambda>weight.
       bindE (adjust_witness_vote L j weight (vs_block s)) (\<lambda>b.
         increase_witnesses_voted_for i (s\<lparr>vs_votes := t, vs_block := b\<rparr>)))))"

definition reject_witness ::
  "fc_lib \<Rightarrow> nat \<Rightarrow> nat \<Rightarrow> voter_object \<Rightarrow> nat \<times> witness_vote_object \<Rightarrow> voting_state \<Rightarrow> voting_state result" where
  "reject_witness L i j voter p s =
     bindE (witness_vote_weight L voter) (\<lambda>weight.
     bindE (neg L weight) (\<lambda>delta.
     bindE (adjust_witness_vote L j delta (vs_block s)) (\<lambda>b.
     bindE (decrease_witnesses_voted_for i (s\<lparr>vs_block := b\<rparr>)) (remove_vote p))))"

definition account_witness_vote_apply ::
  "fc_lib \<Rightarrow> account_witness_vote_operation \<Rightarrow> voting_state \<Rightarrow> voting_state result" where
  "account_witness_vote_apply L op s =
     bindE (get_voter (av_account op) s) (\<lambda>(i, voter).
     require (vo_proxy voter = '''') Not_authorized
    (require (av_approve op \<longrightarrow> vo_can_vote voter) Not_authorized
      (bindE (get_witness (av_witness op) (vs_block s)) (\<lambda>(j, _).
       case find_row (\<lambda>v. wv_account v = i \<and> wv_witness v = j) (vs_votes s) of
         None \<Rightarrow> require (av_approve op) Not_found (approve_witness L i j voter s)
       | Some p \<Rightarrow> require (\<not> av_approve op) Already_exists (reject_witness L i j voter p s)))))"

record account_witness_proxy_operation =
  ap_account :: string
  ap_proxy :: string

definition account_witness_proxy_validate :: "account_witness_proxy_operation \<Rightarrow> unit result" where
  "account_witness_proxy_validate op =
     bindE (validate_account_name (ap_account op)) (\<lambda>_.
     bindE (if ap_proxy op \<noteq> '''' then validate_account_name (ap_proxy op) else Inr ()) (\<lambda>_.
     require (ap_proxy op \<noteq> ap_account op) Bad_link (Inr ())))"

definition account_witness_proxy_apply ::
  "fc_lib \<Rightarrow> account_witness_proxy_operation \<Rightarrow> voting_state \<Rightarrow> voting_state result" where
  "account_witness_proxy_apply L op s =
     bindE (get_voter (ap_account op) s) (\<lambda>(i, account).
     require (vo_proxy account \<noteq> ap_proxy op) Already_exists
    (require (vo_can_vote account) Not_authorized
      (if ap_proxy op \<noteq> '''' then
         bindE (get_voter (ap_proxy op) s) (\<lambda>proxy. update_voting_proxy L i (Some proxy) s)
       else update_voting_proxy L i None s)))"

end
