(* ===== verification/Vote_Counts.thy ===== *)
theory Vote_Counts
  imports Witness_Votes Balances
begin

text \<open>
  What voting keeps: the state is well formed (every vote is a vote of an account without a proxy
  for a witness that exists, every account knows the number of its votes), and how far the votes
  recorded in a witness are the votes cast for it.
\<close>

section \<open>The votes cast\<close>

definition weight :: "voter_object \<Rightarrow> int" where
  "weight a = vo_expertise_tokens_balance a + sum_list (vo_proxied_vsf_votes a)"

definition weight_at :: "nat \<Rightarrow> voting_state \<Rightarrow> int" where
  "weight_at i s = (case lookup (vs_accounts s) i of None \<Rightarrow> 0 | Some a \<Rightarrow> weight a)"

text \<open>The votes of account \<open>i\<close> for witness \<open>j\<close>, and the votes cast for \<open>j\<close> with their weight.\<close>

definition casts :: "nat \<Rightarrow> nat \<Rightarrow> voting_state \<Rightarrow> nat" where
  "casts i j s = length (filter (\<lambda>p. wv_account (snd p) = i \<and> wv_witness (snd p) = j) (rows (vs_votes s)))"

definition cast_votes :: "nat \<Rightarrow> voting_state \<Rightarrow> int" where
  "cast_votes j s =
     sum_rows (\<lambda>v. if wv_witness v = j then weight_at (wv_account v) s else 0) (rows (vs_votes s))"

definition votes_at :: "block_state \<Rightarrow> nat \<Rightarrow> int option" where
  "votes_at b j = map_option w_votes (lookup (bs_witnesses b) j)"

text \<open>The votes recorded in a witness that nobody cast.\<close>

definition unaccounted :: "nat \<Rightarrow> voting_state \<Rightarrow> int" where
  "unaccounted j s = (case votes_at (vs_block s) j of None \<Rightarrow> 0 | Some x \<Rightarrow> x - cast_votes j s)"

lemma cast_votes_same:
  "vs_votes t = vs_votes s \<Longrightarrow> vs_accounts t = vs_accounts s \<Longrightarrow> cast_votes j t = cast_votes j s"
  by (simp add: cast_votes_def weight_at_def cong: if_cong)

section \<open>Well-formed voting\<close>

definition witnesses_ok :: "block_state \<Rightarrow> bool" where
  "witnesses_ok b \<longleftrightarrow> wf_index witness_key (bs_witnesses b) \<and> (\<forall>j x. votes_at b j = Some x \<longrightarrow> int64 x)"

definition voter_ok :: "(nat \<times> witness_vote_object) list \<Rightarrow> nat \<Rightarrow> voter_object \<Rightarrow> bool" where
  "voter_ok votes i a \<longleftrightarrow>
     int64 (vo_expertise_tokens_balance a) \<and> int64 (vo_common_tokens_balance a) \<and>
     list_all int64 (vo_proxied_vsf_votes a) \<and> length (vo_proxied_vsf_votes a) = DEIP_MAX_PROXY_RECURSION_DEPTH \<and>
     unat (vo_witnesses_voted_for a) = length (filter (\<lambda>p. wv_account (snd p) = i) votes) \<and>
     length (filter (\<lambda>p. wv_account (snd p) = i) votes) \<le> DEIP_MAX_ACCOUNT_WITNESS_VOTES \<and>
     (vo_proxy a \<noteq> '''' \<longrightarrow> vo_witnesses_voted_for a = 0)"

definition voting_ok :: "voting_state \<Rightarrow> bool" where
  "voting_ok s \<longleftrightarrow> witnesses_ok (vs_block s) \<and> wf_index voter_key (vs_accounts s) \<and> wf_index vote_key (vs_votes s) \<and>
     (\<forall>p\<in>set (rows (vs_votes s)). votes_at (vs_block s) (wv_witness (snd p)) \<noteq> None \<and>
        lookup (vs_accounts s) (wv_account (snd p)) \<noteq> None) \<and>
     (\<forall>i a. lookup (vs_accounts s) i = Some a \<longrightarrow> voter_ok (rows (vs_votes s)) i a)"

lemma key_symp [simp]: "symp witness_key" "symp voter_key" "symp vote_key"
  by (auto simp: symp_def witness_key_def voter_key_def vote_key_def)

lemma mod_lookup:
  assumes "modify U i m t = Inr t'" 
  obtains v where "lookup t i = Some v" "\<And>k. lookup t' k = (if k = i then Some (m v) else lookup t k)"
  using assms by (elim modify_Inr) (auto simp: lookup_def map_of_upd)

lemma no_casts: "voting_ok s \<Longrightarrow> lookup (vs_accounts s) i = Some a \<Longrightarrow> vo_proxy a \<noteq> '''' \<Longrightarrow> casts i j s = 0"
  by (fastforce simp: voting_ok_def voter_ok_def casts_def filter_empty_conv)

lemma known_witness: "voting_ok s \<Longrightarrow> votes_at (vs_block s) j = None \<Longrightarrow> casts i j s = 0"
  by (fastforce simp: voting_ok_def casts_def filter_empty_conv)

section \<open>Witnesses\<close>

lemma adjust_witness_vote_effect:
  assumes "adjust_witness_vote L j delta b = Inr b'" "witnesses_ok b" "safe_ok L" "int64 delta"
  shows "witnesses_ok b' \<and> (\<forall>k. votes_at b' k = (if k = j then map_option ((+) delta) (votes_at b j) else votes_at b k)) \<and>
    votes_at b j \<noteq> None"
proof -
  obtain w v m where w: "lookup (bs_witnesses b) j = Some w" and v: "add L (w_votes w) delta = Inr v"
    and m: "modify_witness j m b = Inr b'" "w_votes (m w) = v"
    using assms(1) unfolding adjust_witness_vote_def Let_def ok_iff by (elim exE conjE) (rule that; (assumption | simp))
  have vj: "votes_at b j = Some (w_votes w)"
    using w by (simp add: votes_at_def)
  then have "int64 (w_votes w)"
    using assms(2) by (simp add: witnesses_ok_def)
  then have v': "v = w_votes w + delta" "int64 v"
    using v assms(3,4) by (auto simp: add_ok)
  obtain t where t: "modify witness_key j m (bs_witnesses b) = Inr t" "b' = b\<lparr>bs_witnesses := t\<rparr>"
    using m(1) by (auto simp: modify_witness_def ok_iff)
  have at: "votes_at b' k = (if k = j then map_option ((+) delta) (votes_at b j) else votes_at b k)" for k
    using t(1) by (rule mod_lookup) (use t(2) w m(2) v' in \<open>auto simp: votes_at_def\<close>)
  have "wf_index witness_key t"
    using assms(2) t(1) by (auto simp: witnesses_ok_def intro: cb.wf_modify)
  moreover have "int64 x" if "votes_at b' k = Some x" for k x
    using that at [of k] assms(2) vj v' by (auto simp: witnesses_ok_def add.commute split: if_splits)
  ultimately show ?thesis
    using at t(2) vj by (simp add: witnesses_ok_def)
qed

lemma adjust_all_effect:
  assumes "foldE (adjust_one L delta) ps b = Inr b'" "witnesses_ok b" "safe_ok L" "int64 delta"
  shows "witnesses_ok b' \<and> (\<forall>k. votes_at b' k =
    map_option ((+) (delta * int (length (filter (\<lambda>p. wv_witness (snd p) = k) ps)))) (votes_at b k))"
  using assms(1,2)
proof (induction ps arbitrary: b)
  case (Cons p ps)
  obtain c where c: "adjust_witness_vote L (wv_witness (snd p)) delta b = Inr c" "foldE (adjust_one L delta) ps c = Inr b'"
    using Cons.prems(1) by (auto simp: ok_iff adjust_one_def [of L delta p])
  have e: "witnesses_ok c" "votes_at c k = (if k = wv_witness (snd p) then map_option ((+) delta) (votes_at b k) else votes_at b k)" for k
    using adjust_witness_vote_effect [OF c(1) Cons.prems(2) assms(3,4)] by auto
  show ?case
    using Cons.IH [OF c(2) e(1)] by (auto simp: e(2) option.map_comp comp_def algebra_simps)
qed (simp_all add: option.map_ident_strong)

lemma filter_sort_key: "length (filter P (sort_key f xs)) = length (filter P xs)"
  by (metis mset_filter mset_sort size_mset)

lemma adjust_witness_votes_effect:
  assumes "adjust_witness_votes L i delta s = Inr s'" "voting_ok s" "safe_ok L" "int64 delta"
  shows "voting_ok s' \<and> vs_accounts s' = vs_accounts s \<and> vs_votes s' = vs_votes s \<and>
    unaccounted j s' = unaccounted j s + delta * int (casts i j s)"
proof -
  obtain b where b: "foldE (adjust_one L delta) (votes_of i s) (vs_block s) = Inr b" "s' = s\<lparr>vs_block := b\<rparr>"
    using assms(1) by (auto simp: adjust_witness_votes_def ok_iff)
  have e: "witnesses_ok b" "votes_at b k = map_option ((+) (delta * int (casts i k s))) (votes_at (vs_block s) k)" for k
    using adjust_all_effect [OF b(1) _ assms(3,4)] assms(2)
    by (auto simp: voting_ok_def votes_of_def filter_sort_key casts_def conj_commute)
  have "cast_votes j s' = cast_votes j s"
    by (rule cast_votes_same) (simp_all add: b(2))
  then show ?thesis
    using assms(2) e known_witness [OF assms(2), of j i]
    by (auto simp: b(2) voting_ok_def unaccounted_def split: option.splits)
qed
section \<open>Accounts\<close>

text \<open>What the accounts' weights are to the votes cast.\<close>

lemma sum_rows_casts:
  "sum_rows (\<lambda>v. if wv_witness v = j then (if wv_account v = i then W i + d else W (wv_account v)) else 0) r =
   sum_rows (\<lambda>v. if wv_witness v = j then W (wv_account v) else (0 :: int)) r +
     d * int (length (filter (\<lambda>p. wv_account (snd p) = i \<and> wv_witness (snd p) = j) r))"
  by (induction r) (auto simp: algebra_simps)

lemma modify_voter_effect:
  assumes "modify_voter i m s = Inr s'"
  obtains a where "lookup (vs_accounts s) i = Some a" "vs_block s' = vs_block s" "vs_votes s' = vs_votes s"
    "\<And>k. lookup (vs_accounts s') k = (if k = i then Some (m a) else lookup (vs_accounts s) k)"
    "wf_index voter_key (vs_accounts s) \<Longrightarrow> wf_index voter_key (vs_accounts s')"
    "\<And>j. cast_votes j s' = cast_votes j s + (weight (m a) - weight a) * int (casts i j s)"
proof -
  obtain t where t: "modify voter_key i m (vs_accounts s) = Inr t" "s' = s\<lparr>vs_accounts := t\<rparr>"
    using assms by (auto simp: modify_voter_def ok_iff)
  obtain a where a: "lookup (vs_accounts s) i = Some a"
    "\<And>k. lookup t k = (if k = i then Some (m a) else lookup (vs_accounts s) k)"
    using t(1) by (rule mod_lookup) (rule that; assumption)
  have "weight_at k s' = (if k = i then weight_at k s + (weight (m a) - weight a) else weight_at k s)" for k
    using a by (simp add: weight_at_def t(2))
  then have "cast_votes j s' = cast_votes j s + (weight (m a) - weight a) * int (casts i j s)" for j
    by (simp add: cast_votes_def casts_def t(2) sum_rows_casts [where W = "\<lambda>k. weight_at k s"] cong: if_cong)
  then show ?thesis
    by (intro that [OF a(1)]) (use a(2) t in \<open>auto intro: cb.wf_modify\<close>)
qed

lemma add_delta_effect:
  assumes "add_delta L depth delta i votes = Inr votes'" "safe_ok L" "list_all int64 delta" "list_all int64 votes"
  shows "sum_list votes' = sum_list votes + delta ! i \<and> length votes' = length votes \<and> list_all int64 votes'"
proof -
  have set_sum: "k < length xs \<Longrightarrow> sum_list (xs[k := xs ! k + d]) = sum_list xs + d" for k and d :: int and xs
    by (induction xs arbitrary: k) (auto split: nat.splits)
  show ?thesis
    using assms set_sum by (auto simp: add_delta_def ok_iff add_ok list_all_iff dest: nth_mem subsetD [OF set_update_subset_insert])
qed

lemma add_deltas_effect:
  assumes "foldE (add_delta L depth delta) is votes = Inr votes'" "safe_ok L" "list_all int64 delta" "list_all int64 votes"
  shows "sum_list votes' = sum_list votes + sum_list (map ((!) delta) is) \<and> length votes' = length votes \<and>
    list_all int64 votes'"
  using assms(1,4)
proof (induction "is" arbitrary: votes)
  case (Cons i "is")
  obtain u where u: "add_delta L depth delta i votes = Inr u" "foldE (add_delta L depth delta) is u = Inr votes'"
    using Cons.prems(1) by (auto simp: ok_iff)
  then show ?case
    using add_delta_effect [OF u(1) assms(2,3) Cons.prems(2)] Cons.IH [OF u(2)] by auto
qed simp

lemma sum_effect:
  assumes "foldE (\<lambda>i t. bindE (elem_at delta i) (add L t)) is t = Inr t'" "safe_ok L" "list_all int64 delta" "int64 t"
  shows "t' = t + sum_list (map ((!) delta) is) \<and> int64 t'"
  using assms(1,4)
proof (induction "is" arbitrary: t)
  case (Cons i "is")
  obtain u where u: "i < length delta" "add L t (delta ! i) = Inr u"
    "foldE (\<lambda>i t. bindE (elem_at delta i) (add L t)) is u = Inr t'"
    using Cons.prems(1) by (auto simp: ok_iff)
  then have "u = t + delta ! i" "int64 u"
    using assms(2,3) Cons.prems(2) by (auto simp: add_ok list_all_iff)
  then show ?case
    using Cons.IH [OF u(3)] by auto
qed simp

lemma weight_effect:
  assumes "witness_vote_weight L a = Inr x" "safe_ok L" "list_all int64 (vo_proxied_vsf_votes a)"
    "int64 (vo_expertise_tokens_balance a)"
  shows "x = weight a \<and> int64 x"
proof -
  have "foldE (\<lambda>x acc. add L acc x) xs t = Inr y \<Longrightarrow> list_all int64 xs \<Longrightarrow> int64 t \<Longrightarrow> y = t + sum_list xs \<and> int64 y" for xs t y
  proof (induction xs arbitrary: t)
    case (Cons x xs)
    then obtain u where "add L t x = Inr u" "foldE (\<lambda>x acc. add L acc x) xs u = Inr y"
      by (auto simp: ok_iff)
    then show ?case
      using Cons assms(2) by (fastforce simp: add_ok)
  qed simp
  then show ?thesis
    using assms by (simp add: witness_vote_weight_def weight_def)
qed

section \<open>Proxies\<close>

text \<open>Well-formed but for what account \<open>i\<close> knows.\<close>

definition voting_ok_but :: "nat \<Rightarrow> voting_state \<Rightarrow> bool" where
  "voting_ok_but i s \<longleftrightarrow> witnesses_ok (vs_block s) \<and> wf_index voter_key (vs_accounts s) \<and> wf_index vote_key (vs_votes s) \<and>
     (\<forall>p\<in>set (rows (vs_votes s)). votes_at (vs_block s) (wv_witness (snd p)) \<noteq> None \<and>
        lookup (vs_accounts s) (wv_account (snd p)) \<noteq> None) \<and>
     (\<forall>k a. k \<noteq> i \<longrightarrow> lookup (vs_accounts s) k = Some a \<longrightarrow> voter_ok (rows (vs_votes s)) k a)"

lemma voting_ok_butI: "voting_ok s \<Longrightarrow> voting_ok_but i s"
  by (simp add: voting_ok_def voting_ok_but_def)

lemma modify_voter_ok:
  assumes "modify_voter i m s = Inr s'" "voting_ok_but i s"
    and "\<And>a. lookup (vs_accounts s) i = Some a \<Longrightarrow> voter_ok (rows (vs_votes s)) i (m a)"
  shows "voting_ok s'"
  using assms(1) by (rule modify_voter_effect) (use assms(2,3) in \<open>auto simp: voting_ok_def voting_ok_but_def\<close>)

lemma voter_okD: "voting_ok s \<Longrightarrow> lookup (vs_accounts s) i = Some a \<Longrightarrow> voter_ok (rows (vs_votes s)) i a"
  by (simp add: voting_ok_def)

lemma get_voter_lookup: "get_voter n s = Inr (i, a) \<Longrightarrow> voting_ok s \<Longrightarrow> lookup (vs_accounts s) i = Some a \<and> acc_name a = n"
  using get_row_Inr cb.mem_map_of by (fastforce simp: get_voter_def voting_ok_def lookup_def)

lemma unaccounted_voter:
  assumes "modify_voter i m s = Inr s'" "lookup (vs_accounts s) i = Some a" "voting_ok s"
  shows "unaccounted j s' = unaccounted j s - (weight (m a) - weight a) * int (casts i j s)" "casts k j s' = casts k j s"
  using assms(1)
  by (rule modify_voter_effect, use assms(2) known_witness [OF assms(3), of j i] in
      \<open>auto simp: unaccounted_def casts_def split: option.splits\<close>)+

abbreviation levels :: "nat \<Rightarrow> nat list" where
  "levels depth \<equiv> rev [0..<DEIP_MAX_PROXY_RECURSION_DEPTH - depth + 1]"

lemma deltas_effect:
  assumes "adjust_proxied_deltas L delta depth i s = Inr s'" "voting_ok s" "safe_ok L" "list_all int64 delta"
    and "depth \<le> DEIP_MAX_PROXY_RECURSION_DEPTH"
  shows "voting_ok s' \<and> vs_votes s' = vs_votes s \<and>
    unaccounted j s' = unaccounted j s + sum_list (map ((!) delta) (levels depth)) * int (casts i j s) \<and>
    (\<forall>a. lookup (vs_accounts s) i = Some a \<longrightarrow> vo_proxy a = '''' \<longrightarrow> vs_accounts s' = vs_accounts s)"
  using assms
proof (induction L delta depth i s rule: adjust_proxied_deltas.induct)
  case (1 L delta depth i s)
  obtain a where a: "lookup (vs_accounts s) i = Some a"
    using "1.prems"(1) by (subst (asm) adjust_proxied_deltas.simps) (auto simp: ok_iff)
  show ?case
  proof (cases "vo_proxy a = ''''")
    case True
    obtain t where t: "total_delta L depth delta = Inr t" "adjust_witness_votes L i t s = Inr s'"
      using "1.prems"(1) a True by (subst (asm) adjust_proxied_deltas.simps) (auto simp: ok_iff DEIP_PROXY_TO_SELF_ACCOUNT_def)
    have "t = sum_list (map ((!) delta) (levels depth)) \<and> int64 t"
      using sum_effect [OF t(1) [unfolded total_delta_def] "1.prems"(3,4)] by (simp add: int64_def)
    then show ?thesis
      using adjust_witness_votes_effect [OF t(2) "1.prems"(2,3)] by auto
  next
    case False
    show ?thesis
    proof (cases "depth < DEIP_MAX_PROXY_RECURSION_DEPTH")
      case False
      then show ?thesis
        using "1.prems"(1,2) a \<open>vo_proxy a \<noteq> ''''\<close> no_casts
        by (subst (asm) adjust_proxied_deltas.simps) (auto simp: ok_iff DEIP_PROXY_TO_SELF_ACCOUNT_def)
    next
      case depth: True
      obtain k q votes s1 where q: "get_voter (vo_proxy a) s = Inr (k, q)"
        "add_deltas L depth delta (vo_proxied_vsf_votes q) = Inr votes"
        "modify_voter k (vo_proxied_vsf_votes_update (\<lambda>_. votes)) s = Inr s1"
        "adjust_proxied_deltas L delta (depth + 1) k s1 = Inr s'"
        using "1.prems"(1) a False depth
        by (subst (asm) adjust_proxied_deltas.simps) (auto simp: ok_iff DEIP_PROXY_TO_SELF_ACCOUNT_def)
      have lq: "lookup (vs_accounts s) k = Some q" and vq: "voter_ok (rows (vs_votes s)) k q"
        using get_voter_lookup [OF q(1)] voter_okD "1.prems"(2) by auto
      have votes: "sum_list votes = sum_list (vo_proxied_vsf_votes q) + sum_list (map ((!) delta) (levels (depth + 1)))"
        "length votes = length (vo_proxied_vsf_votes q)" "list_all int64 votes"
        using add_deltas_effect [OF q(2) [unfolded add_deltas_def] "1.prems"(3,4)] vq depth
        by (auto simp: voter_ok_def Suc_diff_Suc)
      have ok1: "voting_ok s1"
        by (rule modify_voter_ok [OF q(3) voting_ok_butI [OF "1.prems"(2)]])
          (use lq vq votes in \<open>auto simp: voter_ok_def\<close>)
      have u1: "unaccounted j s1 = unaccounted j s - sum_list (map ((!) delta) (levels (depth + 1))) * int (casts k j s)"
        "casts k j s1 = casts k j s"
        using unaccounted_voter [OF q(3) lq "1.prems"(2)] votes(1) by (simp_all add: weight_def)
      have "vs_votes s1 = vs_votes s"
        using q(3) by (rule modify_voter_effect)
      moreover have "voting_ok s' \<and> vs_votes s' = vs_votes s1 \<and>
          unaccounted j s' = unaccounted j s1 + sum_list (map ((!) delta) (levels (depth + 1))) * int (casts k j s1)"
        using "1.IH" [of a "(k, q)" votes s1] q a False depth ok1 "1.prems"(3,4)
        by (auto simp: DEIP_PROXY_TO_SELF_ACCOUNT_def)
      ultimately show ?thesis
        using u1 False no_casts [OF "1.prems"(2) a] a by simp
    qed
  qed
qed

section \<open>Clearing the votes of an account\<close>

lemma remove_votes_rows:
  assumes "foldE remove_vote ps s = Inr s'" "wf_index vote_key (vs_votes s)"
  shows "rows (vs_votes s') = filter (\<lambda>q. fst q \<notin> fst ` set ps) (rows (vs_votes s)) \<and>
    wf_index vote_key (vs_votes s') \<and> vs_block s' = vs_block s \<and> vs_accounts s' = vs_accounts s"
  using assms
proof (induction ps arbitrary: s)
  case (Cons p ps)
  obtain t where t: "remove (fst p) (vs_votes s) = Inr t" "foldE remove_vote ps (s\<lparr>vs_votes := t\<rparr>) = Inr s'"
    using Cons.prems(1) by (auto simp: ok_iff remove_vote_def [of p s])
  have "rows t = del (fst p) (rows (vs_votes s))" "wf_index vote_key t"
    using remove_Inr [OF t(1)] cb.wf_remove [OF Cons.prems(2) t(1)] by auto
  then show ?case
    using Cons.IH [OF t(2)] by (auto simp: del_def intro!: filter_cong)
qed simp

lemma votes_of_mem: "p \<in> set (votes_of i s) \<longleftrightarrow> p \<in> set (rows (vs_votes s)) \<and> wv_account (snd p) = i"
  by (auto simp: votes_of_def)

lemma sum_rows_casts_of:
  "sum_rows (\<lambda>v. if wv_witness v = j then W (wv_account v) else (0 :: int)) (filter (\<lambda>p. wv_account (snd p) \<noteq> i) r) =
   sum_rows (\<lambda>v. if wv_witness v = j then W (wv_account v) else 0) r -
     W i * int (length (filter (\<lambda>p. wv_account (snd p) = i \<and> wv_witness (snd p) = j) r))"
  by (induction r) (auto simp: algebra_simps)

lemma clear_effect:
  assumes "clear_witness_votes i s = Inr s'" "voting_ok s" "lookup (vs_accounts s) i = Some a"
  shows "voting_ok s' \<and> unaccounted j s' = unaccounted j s + weight a * int (casts i j s) \<and> casts i j s' = 0 \<and>
    lookup (vs_accounts s') i = Some (a\<lparr>vo_witnesses_voted_for := 0\<rparr>)"
proof -
  obtain s1 where s1: "foldE remove_vote (votes_of i s) s = Inr s1"
    "modify_voter i (vo_witnesses_voted_for_update (\<lambda>_. 0)) s1 = Inr s'"
    using assms(1) by (auto simp: clear_witness_votes_def ok_iff)
  have wf: "wf_index vote_key (vs_votes s)"
    using assms(2) by (simp add: voting_ok_def)
  have "fst q \<in> fst ` set (votes_of i s) \<longleftrightarrow> wv_account (snd q) = i" if "q \<in> set (rows (vs_votes s))" for q
  proof
    assume "fst q \<in> fst ` set (votes_of i s)"
    then obtain p where p: "p \<in> set (rows (vs_votes s))" "wv_account (snd p) = i" "fst q = fst p"
      by (auto simp: votes_of_mem)
    then have "snd p = snd q"
      using that cb.mem_map_of [OF wf, of "fst p" "snd p"] cb.mem_map_of [OF wf, of "fst q" "snd q"] unfolding prod.collapse by simp
    with p(2) show "wv_account (snd q) = i"
      by simp
  qed (use that in \<open>auto simp: votes_of_mem image_iff\<close>)
  then have r: "rows (vs_votes s1) = filter (\<lambda>p. wv_account (snd p) \<noteq> i) (rows (vs_votes s))"
    and same: "wf_index vote_key (vs_votes s1)" "vs_block s1 = vs_block s" "vs_accounts s1 = vs_accounts s"
    using remove_votes_rows [OF s1(1) wf] by (auto intro!: filter_cong)
  have other: "filter (\<lambda>p. wv_account (snd p) = k) (rows (vs_votes s1)) =
      (if k = i then [] else filter (\<lambda>p. wv_account (snd p) = k) (rows (vs_votes s)))" for k
    by (auto simp: r filter_empty_conv intro!: filter_cong)
  have "voting_ok_but i s1"
    using assms(2) by (auto simp: voting_ok_but_def voting_ok_def voter_ok_def same other) (auto simp: r)
  then have ok: "voting_ok s'"
    by (rule modify_voter_ok [OF s1(2)])
      (use voter_okD [OF assms(2)] in \<open>auto simp: voter_ok_def same other\<close>)
  have c: "cast_votes j s1 = cast_votes j s - weight a * int (casts i j s)" "casts i j s1 = 0"
    using assms(3) sum_rows_casts_of [of j "\<lambda>k. weight_at k s" i]
    by (simp_all add: cast_votes_def casts_def weight_at_def same r filter_empty_conv cong: if_cong)
  obtain b where b: "lookup (vs_accounts s1) i = Some b" "vs_block s' = vs_block s1" "vs_votes s' = vs_votes s1"
    "\<And>k. lookup (vs_accounts s') k = (if k = i then Some (b\<lparr>vo_witnesses_voted_for := 0\<rparr>) else lookup (vs_accounts s1) k)"
    "cast_votes j s' = cast_votes j s1 + (weight (b\<lparr>vo_witnesses_voted_for := 0\<rparr>) - weight b) * int (casts i j s1)"
    using s1(2) by (rule modify_voter_effect) (rule that; assumption)
  then show ?thesis
    using ok c assms(3) same known_witness [OF assms(2), of j i]
    by (auto simp: unaccounted_def casts_def weight_def split: option.splits)
qed

lemma clear_known:
  assumes "clear_witness_votes i s = Inr s'"
  shows "\<exists>a. lookup (vs_accounts s) i = Some a"
proof -
  obtain s1 where s1: "foldE remove_vote (votes_of i s) s = Inr s1"
    "modify_voter i (vo_witnesses_voted_for_update (\<lambda>_. 0)) s1 = Inr s'"
    using assms by (auto simp: clear_witness_votes_def ok_iff)
  have "vs_accounts s1 = vs_accounts s"
    by (rule foldE_invariant [where P = "\<lambda>t. vs_accounts t = vs_accounts s", OF _ s1(1)])
      (auto simp: remove_vote_def ok_iff)
  with s1(2) show ?thesis
    by (metis modify_voter_effect)
qed

section \<open>Proxying\<close>

lemma neg_effect:
  assumes "mapE (neg L) xs = Inr ys" "safe_ok L" "list_all int64 xs"
  shows "length ys = length xs \<and> sum_list ys = - sum_list xs \<and> list_all int64 ys"
  using assms(1,3)
proof (induction xs arbitrary: ys)
  case (Cons x xs)
  then show ?case
    using assms(2) by (auto simp: ok_iff neg_def safe_ok_def)
qed simp

lemma levels_all: "length (delta :: int list) = Suc DEIP_MAX_PROXY_RECURSION_DEPTH \<Longrightarrow> sum_list (map ((!) delta) (levels 0)) = sum_list delta"
  using map_nth [of delta] sum_list_rev [of delta] by (simp only: rev_map [symmetric] diff_zero Suc_eq_plus1 [symmetric])

lemma proxy_effect:
  assumes "update_voting_proxy L i proxy s = Inr s'" "lookup (vs_accounts s) i = Some a" "voting_ok s" "safe_ok L"
    and "proxy = None \<Longrightarrow> vo_proxy a \<noteq> ''''"
  shows "voting_ok s' \<and> unaccounted j s' = unaccounted j s +
    (vo_expertise_tokens_balance a - vo_common_tokens_balance a) * int (casts i j s)"
proof -
  have v: "voter_ok (rows (vs_votes s)) i a"
    by (rule voter_okD [OF assms(3,2)])
  obtain delta s1 where delta: "mapE (neg L) (vo_common_tokens_balance a # vo_proxied_vsf_votes a) = Inr delta"
    and s1: "adjust_proxied_deltas L delta 0 i s = Inr s1"
    and rest: "(case proxy of None \<Rightarrow> modify_voter i (vo_proxy_update (\<lambda>_. DEIP_PROXY_TO_SELF_ACCOUNT)) s1
      | Some p \<Rightarrow> bindE (check_proxy_chain i p s1) (\<lambda>_. bindE (clear_witness_votes i s1) (\<lambda>s2.
         bindE (modify_voter i (vo_proxy_update (\<lambda>_. acc_name (snd p))) s2) (\<lambda>s3.
         bindE (mapE (neg L) delta) (\<lambda>delta'. adjust_proxied_deltas L delta' 0 i s3))))) = Inr s'"
    using assms(1,2) unfolding update_voting_proxy_def by (auto simp only: ok_iff the_or_simps)
  have d: "sum_list delta = - vo_common_tokens_balance a - sum_list (vo_proxied_vsf_votes a)" "list_all int64 delta"
    "length delta = Suc DEIP_MAX_PROXY_RECURSION_DEPTH"
    using neg_effect [OF delta assms(4)] v by (auto simp: voter_ok_def)
  have e1: "voting_ok s1" "vs_votes s1 = vs_votes s" "vo_proxy a = '''' \<Longrightarrow> vs_accounts s1 = vs_accounts s"
    "unaccounted j s1 = unaccounted j s + sum_list delta * int (casts i j s)"
    using deltas_effect [OF s1 assms(3,4) d(2)] assms(2) unfolding levels_all [OF d(3)] by auto
  show ?thesis
  proof (cases proxy)
    case None
    then have m: "modify_voter i (vo_proxy_update (\<lambda>_. DEIP_PROXY_TO_SELF_ACCOUNT)) s1 = Inr s'"
      using rest by simp
    obtain a1 where a1: "lookup (vs_accounts s1) i = Some a1"
      using m by (rule modify_voter_effect)
    have "voting_ok s'"
      by (rule modify_voter_ok [OF m voting_ok_butI [OF e1(1)]])
        (use voter_okD [OF e1(1)] in \<open>auto simp: voter_ok_def DEIP_PROXY_TO_SELF_ACCOUNT_def\<close>)
    then show ?thesis
      using unaccounted_voter [OF m a1 e1(1)] e1(4) no_casts [OF assms(3,2)] assms(5) None by (simp add: weight_def)
  next
    case (Some p)
    then obtain s2 s3 delta' where s2: "clear_witness_votes i s1 = Inr s2"
      and s3: "modify_voter i (vo_proxy_update (\<lambda>_. acc_name (snd p))) s2 = Inr s3"
      and delta': "mapE (neg L) delta = Inr delta'" and s': "adjust_proxied_deltas L delta' 0 i s3 = Inr s'"
      using rest by (auto simp: ok_iff)
    obtain a1 where a1: "lookup (vs_accounts s1) i = Some a1"
      using clear_known [OF s2] by blast
    have c: "voting_ok s2" "unaccounted j s2 = unaccounted j s1 + weight a1 * int (casts i j s1)" "casts i j s2 = 0"
      "lookup (vs_accounts s2) i = Some (a1\<lparr>vo_witnesses_voted_for := 0\<rparr>)"
      using clear_effect [OF s2 e1(1) a1] by auto
    have ok3: "voting_ok s3"
      by (rule modify_voter_ok [OF s3 voting_ok_butI [OF c(1)]])
        (use c(4) voter_okD [OF c(1)] in \<open>auto simp: voter_ok_def\<close>)
    have u3: "unaccounted j s3 = unaccounted j s2" "casts i j s3 = 0"
      using unaccounted_voter [OF s3 c(4) c(1)] c(3) by (simp_all add: weight_def)
    have "list_all int64 delta'"
      using neg_effect [OF delta' assms(4) d(2)] by simp
    then have e4: "voting_ok s'" "unaccounted j s' = unaccounted j s3"
      using deltas_effect [OF s' ok3 assms(4)] u3(2) by auto
    have "casts i j s1 = casts i j s"
      by (simp add: casts_def e1(2))
    moreover have "weight a1 = weight a" if "casts i j s \<noteq> 0"
      using no_casts [OF assms(3,2)] that e1(3) a1 assms(2) by force
    ultimately show ?thesis
      using e4 u3(1) c(2) e1(4) d(1) by (cases "casts i j s = 0") (auto simp: weight_def algebra_simps)
  qed
qed

section \<open>Voting and becoming a witness\<close>

lemma length_filter_sum: "int (length (filter (\<lambda>p. P (snd p)) xs)) = sum_rows (\<lambda>v. if P v then 1 else 0) xs"
  by (induction xs) auto

lemma length_filter_del:
  assumes "sorted1 xs" "map_of xs k = Some v"
  shows "int (length (filter (\<lambda>p. P (snd p)) (del k xs))) = int (length (filter (\<lambda>p. P (snd p)) xs)) - (if P v then 1 else 0)"
  unfolding length_filter_sum by (rule sum_rows_del [OF assms])

text \<open>The votes of an account that changes its mind move with its weight.\<close>

lemma adjusted_ok:
  assumes "adjust_witness_vote L j delta (vs_block s) = Inr b" "voting_ok s" "safe_ok L" "int64 delta"
  shows "witnesses_ok b" "votes_at b k = (if k = j then map_option ((+) delta) (votes_at (vs_block s) j) else votes_at (vs_block s) k)"
    "votes_at (vs_block s) j \<noteq> None"
  using adjust_witness_vote_effect [OF assms(1) _ assms(3,4)] assms(2) by (auto simp: voting_ok_def)

lemma approve_effect:
  assumes s: "voting_ok s" "safe_ok L" and i: "lookup (vs_accounts s) i = Some a" "vo_proxy a = ''''"
    and few: "unat (vo_witnesses_voted_for a) < DEIP_MAX_ACCOUNT_WITNESS_VOTES"
    and t: "emplace vote_key \<lparr>wv_witness = j, wv_account = i\<rparr> (vs_votes s) = Inr (n, t)"
    and b: "adjust_witness_vote L j (weight a) (vs_block s) = Inr b" "int64 (weight a)"
    and s': "increase_witnesses_voted_for i (s\<lparr>vs_votes := t, vs_block := b\<rparr>) = Inr s'"
  shows "voting_ok s' \<and> unaccounted k s' = unaccounted k s"
proof -
  let ?s1 = "s\<lparr>vs_votes := t, vs_block := b\<rparr>"
  note at = adjusted_ok [OF b(1) s b(2)]
  have wf: "wf_index vote_key (vs_votes s)" "wf_index vote_key t"
    and r: "rows t = rows (vs_votes s) @ [(n, \<lparr>wv_witness = j, wv_account = i\<rparr>)]"
    using s(1) cb.wf_emplace [OF _ _ t] emplace_rows [OF _ t] by (auto simp: voting_ok_def)
  have "voting_ok_but i ?s1"
    using s(1) at i(1) wf(2) by (auto simp: voting_ok_but_def voting_ok_def voter_ok_def r)
  moreover have "unat (x + 1) = unat x + 1" if "unat x < 30" for x :: "16 word"
    using that by (simp add: unat_word_ariths)
  ultimately have ok: "voting_ok s'"
    using modify_voter_ok [OF s' [unfolded increase_witnesses_voted_for_def]] voter_okD [OF s(1) i(1)] i few
    by (auto simp: voter_ok_def r DEIP_MAX_ACCOUNT_WITNESS_VOTES_def)
  have "cast_votes k ?s1 = cast_votes k s + (if k = j then weight a else 0)"
    using i(1) by (auto simp: cast_votes_def weight_at_def r cong: if_cong)
  moreover obtain "vs_block s' = b" "cast_votes k s' = cast_votes k ?s1"
    using s' unfolding increase_witnesses_voted_for_def
    by (rule modify_voter_effect) (rule that, simp_all add: weight_def)
  ultimately show ?thesis
    using ok at(2) [of k] at(3) by (auto simp: unaccounted_def split: option.splits)
qed

lemma reject_effect:
  assumes s: "voting_ok s" "safe_ok L" and i: "lookup (vs_accounts s) i = Some a"
    and p: "p \<in> set (rows (vs_votes s))" "wv_account (snd p) = i" "wv_witness (snd p) = j"
    and b: "adjust_witness_vote L j (- weight a) (vs_block s) = Inr b" "int64 (- weight a)"
    and s2: "decrease_witnesses_voted_for i (s\<lparr>vs_block := b\<rparr>) = Inr s2" and s': "remove_vote p s2 = Inr s'"
  shows "voting_ok s' \<and> unaccounted k s' = unaccounted k s"
proof -
  note at = adjusted_ok [OF b(1) s b(2)]
  obtain m: "vs_block s2 = b" "vs_votes s2 = vs_votes s"
    "\<And>k. lookup (vs_accounts s2) k = (if k = i then Some (a\<lparr>vo_witnesses_voted_for := vo_witnesses_voted_for a - 1\<rparr>) else lookup (vs_accounts s) k)"
    "wf_index voter_key (vs_accounts s2)"
    using s2 unfolding decrease_witnesses_voted_for_def
    by (rule modify_voter_effect) (rule that, use s(1) i in \<open>auto simp: voting_ok_def\<close>)
  obtain t where t: "remove (fst p) (vs_votes s) = Inr t" "s' = s2\<lparr>vs_votes := t\<rparr>"
    using s' m(2) by (auto simp: remove_vote_def ok_iff)
  have wf: "wf_index vote_key (vs_votes s)" "wf_index vote_key t"
    using s(1) cb.wf_remove [OF _ t(1)] by (auto simp: voting_ok_def)
  have r: "rows t = del (fst p) (rows (vs_votes s))" and so: "sorted1 (rows (vs_votes s))"
    and mp: "map_of (rows (vs_votes s)) (fst p) = Some (snd p)"
    using remove_Inr [OF t(1)] cb.rows_sorted [OF wf(1)] cb.mem_map_of [OF wf(1), of "fst p" "snd p"] p(1) by auto
  have count: "int (length (filter (\<lambda>p. wv_account (snd p) = k) (rows t))) =
      int (length (filter (\<lambda>p. wv_account (snd p) = k) (rows (vs_votes s)))) - (if k = i then 1 else 0)" for k
    using length_filter_del [OF so mp, of "\<lambda>v. wv_account v = k"] p(2) by (simp add: r)
  have "voter_ok (rows t) l c" if "lookup (vs_accounts s2) l = Some c" for l c
  proof (cases "l = i")
    case True
    have v: "voter_ok (rows (vs_votes s)) i a"
      by (rule voter_okD [OF s(1) i])
    then have "vo_witnesses_voted_for a \<noteq> 0"
      using p(1,2) by (force simp: voter_ok_def filter_empty_conv)
    then show ?thesis
      using v that m(3) [of i] count [of i] True by (auto simp: voter_ok_def unat_minus_one)
  next
    case False
    then show ?thesis
      using that m(3) [of l] count [of l] voter_okD [OF s(1), of l c] by (auto simp: voter_ok_def)
  qed
  then have ok: "voting_ok s'"
    using s(1) at(1,2) m wf(2) i by (auto simp: voting_ok_def t(2) r split: if_splits)
  have "weight_at l s' = weight_at l s" for l
    using i by (simp add: weight_at_def t(2) m(3) weight_def)
  then have "cast_votes k s' = cast_votes k s - (if k = j then weight a else 0)"
    using sum_rows_del [OF so mp] p(2,3) i by (simp add: cast_votes_def t(2) r weight_at_def cong: if_cong)
  then show ?thesis
    using ok at(2) [of k] at(3) m(1) t(2) by (auto simp: unaccounted_def split: option.splits)
qed

end
