(* ===== verification/Vote_Properties.thy ===== *)
theory Vote_Properties
  imports Vote_Counts
begin

text \<open>
  Runs of the three voting operations: what they keep well formed, and which operation leaves
  votes in a witness that nobody cast.
\<close>

datatype voting_operation =
    Update_witness witness_update_operation
  | Vote_for_witness account_witness_vote_operation
  | Set_proxy account_witness_proxy_operation

fun voting_apply :: "fc_lib \<Rightarrow> 32 word \<Rightarrow> voting_operation \<Rightarrow> voting_state \<Rightarrow> voting_state result" where
  "voting_apply L genesis (Update_witness op) s = witness_update_apply genesis op s"
| "voting_apply L genesis (Vote_for_witness op) s = account_witness_vote_apply L op s"
| "voting_apply L genesis (Set_proxy op) s = account_witness_proxy_apply L op s"

text \<open>The votes a change of proxy leaves behind in witness \<open>j\<close>.\<close>

definition left_behind :: "voting_operation \<Rightarrow> nat \<Rightarrow> voting_state \<Rightarrow> int" where
  "left_behind op j s =
     (case op of
        Set_proxy p \<Rightarrow> (case get_voter (ap_account p) s of
            Inr (i, a) \<Rightarrow> (vo_expertise_tokens_balance a - vo_common_tokens_balance a) * int (casts i j s)
          | Inl _ \<Rightarrow> 0)
      | _ \<Rightarrow> 0)"

lemma vote_effect:
  assumes "account_witness_vote_apply L op s = Inr s'" "voting_ok s" "safe_ok L"
  shows "voting_ok s' \<and> unaccounted k s' = unaccounted k s"
proof -
  obtain i a j where i: "get_voter (av_account op) s = Inr (i, a)" "vo_proxy a = ''''"
    and rest: "(case find_row (\<lambda>v. wv_account v = i \<and> wv_witness v = j) (vs_votes s) of
         None \<Rightarrow> require (av_approve op) Not_found (approve_witness L i j a s)
       | Some p \<Rightarrow> require (\<not> av_approve op) Already_exists (reject_witness L i j a p s)) = Inr s'"
    using assms(1) by (auto simp: account_witness_vote_apply_def ok_iff)
  have la: "lookup (vs_accounts s) i = Some a" and v: "voter_ok (rows (vs_votes s)) i a"
    using get_voter_lookup [OF i(1) assms(2)] voter_okD [OF assms(2)] by auto
  have weight: "x = weight a \<and> int64 (weight a)" if "witness_vote_weight L a = Inr x" for x
    using weight_effect [OF that assms(3)] v by (auto simp: voter_ok_def)
  show ?thesis
  proof (cases "find_row (\<lambda>v. wv_account v = i \<and> wv_witness v = j) (vs_votes s)")
    case None
    then obtain n t b where t: "emplace vote_key \<lparr>wv_witness = j, wv_account = i\<rparr> (vs_votes s) = Inr (n, t)"
      "unat (vo_witnesses_voted_for a) < DEIP_MAX_ACCOUNT_WITNESS_VOTES"
      "adjust_witness_vote L j (weight a) (vs_block s) = Inr b" "int64 (weight a)"
      "increase_witnesses_voted_for i (s\<lparr>vs_votes := t, vs_block := b\<rparr>) = Inr s'"
      using rest weight by (auto simp: ok_iff approve_witness_def)
    show ?thesis
      by (rule approve_effect [OF assms(2,3) la i(2) t(2,1,3,4,5)])
  next
    case (Some p)
    then obtain b s2 where t: "adjust_witness_vote L j (- weight a) (vs_block s) = Inr b" "int64 (- weight a)"
      "decrease_witnesses_voted_for i (s\<lparr>vs_block := b\<rparr>) = Inr s2" "remove_vote p s2 = Inr s'"
      using rest weight assms(3) by (auto simp: ok_iff reject_witness_def neg_def safe_ok_def)
    have "p \<in> set (rows (vs_votes s))" "wv_account (snd p) = i" "wv_witness (snd p) = j"
      using find_row_Some [of _ "vs_votes s" "fst p" "snd p"] Some by auto
    then show ?thesis
      by (rule reject_effect [OF assms(2,3) la _ _ _ t])
  qed
qed

lemma update_effect:
  assumes "witness_update_apply genesis op s = Inr s'" "voting_ok s"
  shows "voting_ok s' \<and> unaccounted k s' = unaccounted k s"
proof (cases "find_row (\<lambda>w. w_owner w = wu_owner op) (bs_witnesses (vs_block s))")
  case None
  then obtain n t where t: "emplace witness_key (new_witness genesis op) (bs_witnesses (vs_block s)) = Inr (n, t)"
    and s': "s' = s\<lparr>vs_block := (vs_block s)\<lparr>bs_witnesses := t\<rparr>\<rparr>"
    using assms(1) by (auto simp: witness_update_apply_def ok_iff)
  have wf: "wf_index witness_key (bs_witnesses (vs_block s))"
    using assms(2) by (simp add: voting_ok_def witnesses_ok_def)
  have fresh: "lookup (bs_witnesses (vs_block s)) n = None"
    using emplace_Inr(6) [OF t] by (simp add: lookup_def map_of_eq_None)
  have at: "votes_at (vs_block s') k = (if k = n then Some 0 else votes_at (vs_block s) k)" for k
    using emplace_rows [OF wf t] fresh
    by (auto simp: votes_at_def s' lookup_def map_add_def new_witness_def split: option.splits)
  have "voting_ok s'"
    using assms(2) at cb.wf_emplace [OF _ wf t]
    by (auto simp: voting_ok_def witnesses_ok_def s' int64_def split: if_splits)
  moreover have "cast_votes k s' = cast_votes k s" for k
    by (rule cast_votes_same) (simp_all add: s')
  moreover have "cast_votes n s = 0"
  proof -
    have zero: "sum_rows g r = 0" if "\<forall>p\<in>set r. g (snd p) = 0" for g and r :: "(nat \<times> witness_vote_object) list"
      using that by (induction r) auto
    show ?thesis
      unfolding cast_votes_def by (rule zero) (use assms(2) fresh in \<open>auto simp: voting_ok_def votes_at_def\<close>)
  qed
  ultimately show ?thesis
    using at [of k] fresh by (auto simp: unaccounted_def votes_at_def split: option.splits)
next
  case (Some p)
  then obtain m t where t: "modify witness_key (fst p) m (bs_witnesses (vs_block s)) = Inr t" "\<And>w. w_votes (m w) = w_votes w"
    and s': "s' = s\<lparr>vs_block := (vs_block s)\<lparr>bs_witnesses := t\<rparr>\<rparr>"
    using assms(1) by (fastforce simp: witness_update_apply_def modify_witness_def ok_iff)
  have at: "votes_at (vs_block s') k = votes_at (vs_block s) k" for k
    using t(1) by (rule mod_lookup) (use t(2) in \<open>auto simp: votes_at_def s'\<close>)
  have "voting_ok s'"
    using assms(2) at cb.wf_modify [OF _ _ t(1)] by (auto simp: voting_ok_def witnesses_ok_def s')
  then show ?thesis
    using at cast_votes_same [of s' s k] by (simp add: unaccounted_def s' split: option.split)
qed

lemma voting_effect:
  assumes "voting_apply L genesis op s = Inr s'" "voting_ok s" "safe_ok L"
  shows "voting_ok s' \<and> unaccounted j s' = unaccounted j s + left_behind op j s"
proof (cases op)
  case (Set_proxy p)
  then obtain i a where i: "get_voter (ap_account p) s = Inr (i, a)" "vo_proxy a \<noteq> ap_proxy p"
    and u: "\<exists>proxy. update_voting_proxy L i proxy s = Inr s' \<and> (proxy = None \<longrightarrow> ap_proxy p = '''')"
    using assms(1) by (auto simp: account_witness_proxy_apply_def ok_iff split: if_splits) blast+
  obtain proxy where proxy: "update_voting_proxy L i proxy s = Inr s'" "proxy = None \<longrightarrow> ap_proxy p = ''''"
    using u by blast
  have "voting_ok s' \<and> unaccounted j s' = unaccounted j s +
      (vo_expertise_tokens_balance a - vo_common_tokens_balance a) * int (casts i j s)"
    by (rule proxy_effect [OF proxy(1) _ assms(2,3)]) (use get_voter_lookup [OF i(1) assms(2)] i(2) proxy(2) in auto)
  then show ?thesis
    using Set_proxy i(1) by (simp add: left_behind_def)
qed (use assms vote_effect update_effect in \<open>auto simp: left_behind_def\<close>)

text \<open>
  C8. Every run of witness updates, votes and changes of proxy keeps the voting state well formed:
  each vote is cast by a known account for a known witness, an account never casts the same vote
  twice nor more than thirty votes, it knows their number, an account with a proxy casts none, and
  all the cached amounts fit 64 bits.
\<close>

theorem voting_well_formed:
  assumes "foldE (voting_apply L genesis) ops s = Inr s'" "voting_ok s" "safe_ok L"
  shows "voting_ok s'"
  by (rule foldE_invariant [where P = voting_ok, OF _ assms(1,2)]) (use assms(3) voting_effect in blast)

text \<open>
  C14. Voting keeps the votes recorded in every witness equal to the votes cast for it (or off by
  as much as before), except that an account that sets a proxy leaves behind in each witness it had
  voted for the difference of its expertise tokens and its common tokens: a vote counts the former,
  \<open>update_voting_proxy\<close> takes off the latter.
\<close>

theorem votes_accounted:
  assumes "voting_apply L genesis op s = Inr s'" "voting_ok s" "safe_ok L"
  shows "unaccounted j s' = unaccounted j s + left_behind op j s"
  using voting_effect [OF assms] by blast

section \<open>Witnesses\<close>

definition demo_voter :: "string \<Rightarrow> int \<Rightarrow> int \<Rightarrow> voter_object" where
  "demo_voter n expertise common =
     \<lparr>acc_name = n, vo_proxy = '''', vo_can_vote = True, vo_expertise_tokens_balance = expertise,
      vo_common_tokens_balance = common, vo_proxied_vsf_votes = [0, 0, 0, 0], vo_witnesses_voted_for = 0\<rparr>"

definition demo_voting :: voting_state where
  "demo_voting =
     (let b = demo_production [demo_witness ''alice'' (Some 1) 0]
      in \<lparr>vs_block = b\<lparr>bs_dgp := (bs_dgp b)\<lparr>dg_total_expert_tokens_amount := 1000\<rparr>\<rparr>,
          vs_accounts = empty_index\<lparr>next_id := 2, rows := [(0, demo_voter ''carol'' 100 30), (1, demo_voter ''david'' 50 0)]\<rparr>,
          vs_votes = empty_index\<rparr>)"

definition two_votes :: "voting_operation list" where
  "two_votes = [Vote_for_witness \<lparr>av_account = ''carol'', av_witness = ''alice'', av_approve = True\<rparr>,
     Vote_for_witness \<lparr>av_account = ''david'', av_witness = ''alice'', av_approve = True\<rparr>]"

definition carol_proxies :: voting_operation where
  "carol_proxies = Set_proxy \<lparr>ap_account = ''carol'', ap_proxy = ''david''\<rparr>"

lemma demo_voting_ok: "voting_ok demo_voting"
  by (auto simp: voting_ok_def witnesses_ok_def voter_ok_def demo_voting_def demo_production_def demo_witness_def demo_voter_def
      wf_index_def wf_rows_def votes_at_def lookup_def empty_index_def voter_key_def int64_def DEIP_MAX_PROXY_RECURSION_DEPTH_def
      Let_def split: if_splits)

lemma demo_run:
  "case foldE (voting_apply fc_ref 0) two_votes demo_voting of Inl _ \<Rightarrow> False
   | Inr s \<Rightarrow> unaccounted 0 s = 0 \<and> left_behind carol_proxies 0 s = 70 \<and> succeeds (voting_apply fc_ref 0 carol_proxies s)"
  by code_simp

lemma voting_well_formed_witness:
  "\<exists>s'. foldE (voting_apply fc_ref 0) two_votes demo_voting = Inr s' \<and> voting_ok s'"
  using demo_run voting_well_formed [OF _ demo_voting_ok fc_ref_ok(1)] by (auto split: sum.splits)

lemma votes_accounted_witness:
  "\<exists>s s'. foldE (voting_apply fc_ref 0) two_votes demo_voting = Inr s \<and> voting_apply fc_ref 0 carol_proxies s = Inr s' \<and>
     unaccounted 0 s' = 70"
proof -
  obtain s s' where s: "foldE (voting_apply fc_ref 0) two_votes demo_voting = Inr s" "voting_apply fc_ref 0 carol_proxies s = Inr s'"
    "unaccounted 0 s = 0" "left_behind carol_proxies 0 s = 70"
    using demo_run by (auto simp: succeeds_iff split: sum.splits)
  have "voting_ok s"
    by (rule foldE_invariant [where P = voting_ok, OF _ s(1) demo_voting_ok]) (use voting_effect fc_ref_ok(1) in blast)
  then show ?thesis
    using votes_accounted [OF s(2) _ fc_ref_ok(1), of 0] s by auto
qed

end
