(* ===== verification/Transaction_Authority.thy ===== *)
theory Transaction_Authority
  imports Authority
begin

text \<open>
  The authorities of a transaction: \<open>libraries/protocol/transaction.cpp\<close> and the extraction of new
  accounts in \<open>protocol/operations.cpp\<close>. An operation is known by what these routines ask of it
  (\<open>operation_lib\<close>): the accounts whose active and owner authority it needs, further authorities,
  its tag, and what it does to an account. A \<open>flat_set\<close> of names is a list sorted by the place \<open>N\<close>
  of a name in the order of names.
\<close>

section \<open>Operations\<close>

record authority_pack =
  pk_owner :: authority
  pk_active :: authority
  pk_active_overrides :: "(16 word \<times> authority) list"

datatype account_use = Creates_account string authority_pack | Changes_account string | No_account

record 'op operation_lib =
  required_active_authorities :: "'op \<Rightarrow> string list"
  required_owner_authorities :: "'op \<Rightarrow> string list"
  required_authorities :: "'op \<Rightarrow> authority list"
  op_tag :: "'op \<Rightarrow> 16 word"
  account_use :: "'op \<Rightarrow> account_use"

definition add_name :: "(string \<Rightarrow> nat) \<Rightarrow> string \<Rightarrow> string list \<Rightarrow> string list" where
  "add_name N a xs = (if a \<in> set xs then xs else insort_key N a xs)"

definition add_names :: "(string \<Rightarrow> nat) \<Rightarrow> string list \<Rightarrow> string list \<Rightarrow> string list" where
  "add_names N = fold (add_name N)"

section \<open>New accounts\<close>

definition extract_new_account ::
  "'op operation_lib \<Rightarrow> 'op \<Rightarrow> (string \<times> authority_pack) list \<Rightarrow> (string \<times> authority_pack) list result" where
  "extract_new_account D op new =
     (case account_use D op of
        Creates_account a pack \<Rightarrow> Inr (if map_of new a = None then new @ [(a, pack)] else new)
      | Changes_account a \<Rightarrow> require (map_of new a = None) Bad_status (Inr new)
      | No_account \<Rightarrow> Inr new)"

definition extract_new_accounts :: "'op operation_lib \<Rightarrow> 'op list \<Rightarrow> (string \<times> authority_pack) list result" where
  "extract_new_accounts D ops = foldE (extract_new_account D) ops []"

section \<open>What a transaction requires\<close>

record required =
  rq_active :: "string list"
  rq_owner :: "string list"
  rq_other :: "authority list"
  rq_active_overrides :: "(string \<times> authority) list"
  rq_new_active :: "(string \<times> authority) list"
  rq_new_owner :: "(string \<times> authority) list"

definition nothing_required :: required where
  "nothing_required = \<lparr>rq_active = [], rq_owner = [], rq_other = [], rq_active_overrides = [], rq_new_active = [], rq_new_owner = []\<rparr>"

definition new_active :: "(string \<times> authority_pack) list \<Rightarrow> 16 word \<Rightarrow> string \<Rightarrow> (string \<times> authority) list" where
  "new_active new tag a =
     (case map_of new a of
        None \<Rightarrow> []
      | Some pack \<Rightarrow> (case map_of (pk_active_overrides pack) tag of
            Some au \<Rightarrow> [(a, au)]
          | None \<Rightarrow> [(a, pk_active pack)]))"

definition new_owner :: "(string \<times> authority_pack) list \<Rightarrow> string \<Rightarrow> (string \<times> authority) list" where
  "new_owner new a = (case map_of new a of None \<Rightarrow> [] | Some pack \<Rightarrow> [(a, pk_owner pack)])"

text \<open>The accounts of an operation with an override of their active authority for its tag.\<close>

fun split_overrides ::
  "(string \<Rightarrow> 16 word \<Rightarrow> authority option result) \<Rightarrow> 16 word \<Rightarrow> string list \<Rightarrow>
   ((string \<times> authority) list \<times> string list) result" where
  "split_overrides G tag [] = Inr ([], [])"
| "split_overrides G tag (a # as) =
     bindE (G a tag) (\<lambda>auth_opt.
     bindE (split_overrides G tag as) (\<lambda>(overrides, rest).
       Inr (case auth_opt of Some au \<Rightarrow> ((a, au) # overrides, rest) | None \<Rightarrow> (overrides, a # rest))))"

definition require_operation ::
  "(string \<Rightarrow> nat) \<Rightarrow> 'op operation_lib \<Rightarrow> (string \<Rightarrow> 16 word \<Rightarrow> authority option result) \<Rightarrow>
   (string \<times> authority_pack) list \<Rightarrow> 'op \<Rightarrow> required \<Rightarrow> required result" where
  "require_operation N D G new op r =
     (let active = required_active_authorities D op; owner = required_owner_authorities D op; tag = op_tag D op in
      bindE (split_overrides G tag (filter (\<lambda>a. map_of new a = None) active)) (\<lambda>(overrides, rest).
        Inr \<lparr>rq_active = add_names N rest (rq_active r),
             rq_owner = add_names N (filter (\<lambda>a. map_of new a = None) owner) (rq_owner r),
             rq_other = rq_other r @ required_authorities D op,
             rq_active_overrides = rq_active_overrides r @ overrides,
             rq_new_active = rq_new_active r @ concat (map (new_active new tag) active),
             rq_new_owner = rq_new_owner r @ concat (map (new_owner new) owner)\<rparr>))"

section \<open>Checking the signatures\<close>

definition authorized :: "sign_env \<Rightarrow> authority \<Rightarrow> sign_state \<Rightarrow> (bool \<times> sign_state) result" where
  "authorized E au st = check_authority E DEIP_MAX_SIG_CHECK_DEPTH au st"

text \<open>The short circuit of \<open>||\<close>.\<close>

definition or_else ::
  "(sign_state \<Rightarrow> (bool \<times> sign_state) result) \<Rightarrow> (sign_state \<Rightarrow> (bool \<times> sign_state) result) \<Rightarrow>
   sign_state \<Rightarrow> (bool \<times> sign_state) result" where
  "or_else f g st = bindE (f st) (\<lambda>(ok, st1). if ok then Inr (True, st1) else g st1)"

definition owner_authorized :: "sign_env \<Rightarrow> string \<Rightarrow> sign_state \<Rightarrow> (bool \<times> sign_state) result" where
  "owner_authorized E a st = bindE (get_owner E a) (\<lambda>au. authorized E au st)"

definition demand :: "error \<Rightarrow> (sign_state \<Rightarrow> (bool \<times> sign_state) result) \<Rightarrow> sign_state \<Rightarrow> sign_state result" where
  "demand e f st = bindE (f st) (\<lambda>(ok, st1). if ok then Inr st1 else Inl e)"

definition known_before :: "string list \<Rightarrow> string \<Rightarrow> sign_state \<Rightarrow> (bool \<times> sign_state) result" where
  "known_before approvals a st = Inr (a \<in> set approvals, st)"

definition check_required ::
  "sign_env \<Rightarrow> (string \<times> authority_pack) list \<Rightarrow> string list \<Rightarrow> string list \<Rightarrow> required \<Rightarrow> sign_state \<Rightarrow> sign_state result" where
  "check_required E new active_approvals owner_approvals r st =
     bindE (foldE (\<lambda>au. demand Missing_other_authority (authorized E au)) (rq_other r) st) (\<lambda>st1.
     bindE (foldE (\<lambda>p. demand Missing_other_authority (or_else (authorized E (snd p)) (owner_authorized E (fst p)))) (rq_active_overrides r) st1) (\<lambda>st2.
     bindE (foldE (\<lambda>p. demand Missing_other_authority (or_else (authorized E (snd p)) (\<lambda>st. bindE (the_or Out_of_range (map_of new (fst p)))
              (\<lambda>pack. authorized E (pk_owner pack) st)))) (rq_new_active r) st2) (\<lambda>st3.
     bindE (foldE (\<lambda>p. demand Missing_other_authority (authorized E (snd p))) (rq_new_owner r) st3) (\<lambda>st4.
     bindE (foldE (\<lambda>a. demand Missing_active_authority (or_else (known_before active_approvals a) (or_else (known_before owner_approvals a)
              (or_else (check_authority_of E a) (owner_authorized E a))))) (rq_active r) st4) (\<lambda>st5.
     foldE (\<lambda>a. demand Missing_owner_authority (or_else (known_before owner_approvals a) (owner_authorized E a))) (rq_owner r) st5)))))"

definition verify_authority ::
  "(string \<Rightarrow> nat) \<Rightarrow> 'op operation_lib \<Rightarrow> sign_env \<Rightarrow> (string \<Rightarrow> 16 word \<Rightarrow> authority option result) \<Rightarrow>
   'op list \<Rightarrow> public_key list \<Rightarrow> string list \<Rightarrow> string list \<Rightarrow> unit result" where
  "verify_authority N D E G ops sigs active_approvals owner_approvals =
     bindE (extract_new_accounts D ops) (\<lambda>new.
     bindE (foldE (require_operation N D G new) ops nothing_required) (\<lambda>r.
     let E1 = E\<lparr>available_keys := []\<rparr>;
         st = mk_sign_state sigs;
         st1 = st\<lparr>approved_by := fold List.insert owner_approvals (fold List.insert active_approvals (approved_by st))\<rparr>
     in bindE (check_required E1 new active_approvals owner_approvals r st1) (\<lambda>st2.
        if fst (remove_unused_signatures st2) then Inl Irrelevant_signature else Inr ())))"

section \<open>Signatures\<close>

text \<open>\<open>K\<close> recovers the key of a signature of the transaction's digest.\<close>

fun get_signature_keys :: "('sig \<Rightarrow> public_key) \<Rightarrow> 'sig list \<Rightarrow> public_key list \<Rightarrow> public_key list result" where
  "get_signature_keys K [] keys = Inr keys"
| "get_signature_keys K (s # ss) keys =
     (if K s \<in> set keys then Inl Duplicate_signature else get_signature_keys K ss (insort (K s) keys))"

definition verify_tenant_authority ::
  "('sig \<Rightarrow> public_key) \<Rightarrow> (string \<Rightarrow> authority result) \<Rightarrow> (string \<times> 'sig) option \<Rightarrow> unit result" where
  "verify_tenant_authority K T tenant_signature =
     (case tenant_signature of
        None \<Rightarrow> Inl Missing_tenant_authority
      | Some (tenant, sig) \<Rightarrow>
          bindE (T tenant) (\<lambda>au.
            if K sig \<in> set (map fst (key_auths au)) then Inr () else Inl Missing_tenant_authority))"

definition required_of :: "(string \<Rightarrow> nat) \<Rightarrow> 'op operation_lib \<Rightarrow> 'op list \<Rightarrow> string list \<times> string list \<times> authority list" where
  "required_of N D ops =
     (fold (\<lambda>op. add_names N (required_active_authorities D op)) ops [],
      fold (\<lambda>op. add_names N (required_owner_authorities D op)) ops [],
      concat (map (required_authorities D) ops))"

definition run_check :: "(sign_state \<Rightarrow> (bool \<times> sign_state) result) \<Rightarrow> sign_state \<Rightarrow> sign_state result" where
  "run_check f st = bindE (f st) (\<lambda>(_, st1). Inr st1)"

definition get_required_signatures ::
  "(string \<Rightarrow> nat) \<Rightarrow> 'op operation_lib \<Rightarrow> sign_env \<Rightarrow> 'op list \<Rightarrow> public_key list \<Rightarrow> public_key list result" where
  "get_required_signatures N D E ops sigs =
     (case required_of N D ops of (active, owner, other) \<Rightarrow>
        bindE (foldE (\<lambda>au. run_check (authorized E au)) other (mk_sign_state sigs)) (\<lambda>st1.
        bindE (foldE (\<lambda>a. run_check (owner_authorized E a)) owner st1) (\<lambda>st2.
        bindE (foldE (\<lambda>a. run_check (check_authority_of E a)) active st2) (\<lambda>st3.
          Inr (filter (\<lambda>k. k \<in> set (available_keys E))
                 (map fst (provided_signatures (snd (remove_unused_signatures st3)))))))))"

text \<open>Only a missing authority is caught.\<close>

fun minimize_keys :: "(public_key list \<Rightarrow> unit result) \<Rightarrow> public_key list \<Rightarrow> public_key list \<Rightarrow> public_key list result" where
  "minimize_keys V [] result = Inr result"
| "minimize_keys V (k # ks) result =
     (case V (removeAll k result) of
        Inr _ \<Rightarrow> minimize_keys V ks (removeAll k result)
      | Inl e \<Rightarrow> if e \<in> {Missing_owner_authority, Missing_active_authority, Missing_other_authority} then minimize_keys V ks (insort k (removeAll k result)) else Inl e)"

definition minimize_required_signatures ::
  "(string \<Rightarrow> nat) \<Rightarrow> 'op operation_lib \<Rightarrow> sign_env \<Rightarrow> (string \<Rightarrow> 16 word \<Rightarrow> authority option result) \<Rightarrow>
   'op list \<Rightarrow> public_key list \<Rightarrow> public_key list result" where
  "minimize_required_signatures N D E G ops sigs =
     bindE (get_required_signatures N D E ops sigs) (\<lambda>s.
       minimize_keys (\<lambda>keys. verify_authority N D E G ops keys [] []) s s)"

section \<open>What a verified transaction shows\<close>

text \<open>The keys \<open>K\<close> and the accounts granted from \<open>A\<close> reach the threshold.\<close>

definition granted :: "sign_env \<Rightarrow> public_key set \<Rightarrow> string set \<Rightarrow> authority \<Rightarrow> bool" where
  "granted E K A au \<longleftrightarrow> unat (weight_threshold au) \<le> granted_weight K {x. account_granted E K A x} au"

definition active_granted ::
  "'op operation_lib \<Rightarrow> sign_env \<Rightarrow> (string \<Rightarrow> 16 word \<Rightarrow> authority option result) \<Rightarrow> (string \<times> authority_pack) list \<Rightarrow>
   public_key set \<Rightarrow> string set \<Rightarrow> 'op \<Rightarrow> string \<Rightarrow> bool" where
  "active_granted D E G new K A op a \<longleftrightarrow>
     (case map_of new a of
        Some pack \<Rightarrow>
          granted E K A (case map_of (pk_active_overrides pack) (op_tag D op) of Some au \<Rightarrow> au | None \<Rightarrow> pk_active pack) \<or>
          granted E K A (pk_owner pack)
      | None \<Rightarrow>
          (case G a (op_tag D op) of
             Inl _ \<Rightarrow> False
           | Inr (Some au) \<Rightarrow> granted E K A au \<or> (\<exists>au. get_owner E a = Inr au \<and> granted E K A au)
           | Inr None \<Rightarrow> account_granted E K A a))"

definition owner_granted ::
  "sign_env \<Rightarrow> (string \<times> authority_pack) list \<Rightarrow> public_key set \<Rightarrow> string set \<Rightarrow> string list \<Rightarrow> string \<Rightarrow> bool" where
  "owner_granted E new K A owner_approvals a \<longleftrightarrow>
     (case map_of new a of
        Some pack \<Rightarrow> granted E K A (pk_owner pack)
      | None \<Rightarrow> a \<in> set owner_approvals \<or> (\<exists>au. get_owner E a = Inr au \<and> granted E K A au))"

lemma account_granted_env [simp]: "account_granted (E\<lparr>available_keys := ks\<rparr>) K A a = account_granted E K A a"
proof
  show "account_granted E K A a" if "account_granted (E\<lparr>available_keys := ks\<rparr>) K A a"
    using that by (induction rule: account_granted.induct) (auto intro: account_granted.intros)
  show "account_granted (E\<lparr>available_keys := ks\<rparr>) K A a" if "account_granted E K A a"
    using that by (induction rule: account_granted.induct) (auto intro: account_granted.intros)
qed

lemma granted_env [simp]: "granted (E\<lparr>available_keys := ks\<rparr>) K A au = granted E K A au"
  by (simp add: granted_def)

section \<open>The checks are sound\<close>

text \<open>A check keeps to what is granted, and says yes only if \<open>Q\<close> holds.\<close>

definition sound :: "sign_env \<Rightarrow> public_key set \<Rightarrow> string set \<Rightarrow> (sign_state \<Rightarrow> (bool \<times> sign_state) result) \<Rightarrow> bool \<Rightarrow> bool" where
  "sound E K A f Q \<longleftrightarrow> (\<forall>st ok st'. f st = Inr (ok, st') \<longrightarrow> only_granted E K A st \<longrightarrow> only_granted E K A st' \<and> (ok \<longrightarrow> Q))"

named_theorems sound \<open>checks that are sound\<close>

lemma foldE_demand:
  assumes "foldE (\<lambda>x. demand e (f x)) xs st = Inr st'" "only_granted E K A st" "\<And>x. sound E K A (f x) (Q x)"
  shows "only_granted E K A st' \<and> (\<forall>x\<in>set xs. Q x)"
  using assms(1,2)
proof (induction xs arbitrary: st)
  case (Cons x xs)
  obtain st1 where "f x st = Inr (True, st1)" "foldE (\<lambda>x. demand e (f x)) xs st1 = Inr st'"
    using Cons.prems(1) by (auto simp: ok_iff demand_def [of e "f x"] split: if_splits)
  then show ?case
    using Cons.IH [of st1] Cons.prems(2) assms(3) [of x] by (auto simp: sound_def)
qed simp

lemma authorized_sound [sound]: "sound E K A (authorized E au) (granted E K A au)"
  using check_sound by (auto simp: sound_def authorized_def granted_def)

lemma or_else_sound [sound]:
  assumes f: "sound E K A f P" and g: "sound E K A g Q"
  shows "sound E K A (or_else f g) (P \<or> Q)"
  unfolding sound_def
proof (intro allI impI)
  fix st ok st'
  assume r: "or_else f g st = Inr (ok, st')" and st: "only_granted E K A st"
  obtain ok1 st1 where f1: "f st = Inr (ok1, st1)"
    and rest: "(if ok1 then Inr (True, st1) else g st1) = Inr (ok, st')"
    using r by (auto simp: or_else_def ok_iff)
  have st1: "only_granted E K A st1" "ok1 \<longrightarrow> P"
    using f f1 st by (auto simp: sound_def)
  show "only_granted E K A st' \<and> (ok \<longrightarrow> P \<or> Q)"
    using rest st1 g by (cases ok1) (auto simp: sound_def)
qed

lemma owner_authorized_sound [sound]:
  "sound E K A (owner_authorized E a) (\<exists>au. get_owner E a = Inr au \<and> granted E K A au)"
  using authorized_sound by (fastforce simp: sound_def owner_authorized_def ok_iff)

lemma pack_sound [sound]:
  "sound E K A (\<lambda>st. bindE (the_or Out_of_range (map_of new a)) (\<lambda>pack. authorized E (pk_owner pack) st))
     (\<exists>pack. map_of new a = Some pack \<and> granted E K A (pk_owner pack))"
  using authorized_sound by (fastforce simp: sound_def ok_iff)

lemma check_authority_of_sound [sound]: "sound E K A (check_authority_of E a) (account_granted E K A a)"
  unfolding sound_def
proof (intro allI impI)
  fix st ok st'
  assume r: "check_authority_of E a st = Inr (ok, st')" and st: "only_granted E K A st"
  show "only_granted E K A st' \<and> (ok \<longrightarrow> account_granted E K A a)"
  proof (cases "a \<in> set (approved_by st)")
    case False
    then have "try_account E DEIP_MAX_SIG_CHECK_DEPTH a st = Inr (ok, st')"
      using r by (simp add: check_authority_of_def try_account_def)
    then show ?thesis
      using try_account_sound st check_sound by blast
  qed (use r st in \<open>auto simp: check_authority_of_def only_granted_def\<close>)
qed

lemma known_before_sound [sound]: "sound E K A (known_before as a) (a \<in> set as)"
  by (simp add: sound_def known_before_def)

lemma granted_account: "get_active E a = Inr au \<or> get_owner E a = Inr au \<Longrightarrow> granted E K A au \<Longrightarrow> account_granted E K A a"
  unfolding granted_def by (rule granted_by_weight)

definition required_granted ::
  "sign_env \<Rightarrow> (string \<times> authority_pack) list \<Rightarrow> public_key set \<Rightarrow> string set \<Rightarrow> string list \<Rightarrow> required \<Rightarrow> bool" where
  "required_granted E new K A own r \<longleftrightarrow>
    (\<forall>au\<in>set (rq_other r). granted E K A au) \<and>
    (\<forall>p\<in>set (rq_active_overrides r). granted E K A (snd p) \<or> (\<exists>au. get_owner E (fst p) = Inr au \<and> granted E K A au)) \<and>
    (\<forall>p\<in>set (rq_new_active r). granted E K A (snd p) \<or> (\<exists>pack. map_of new (fst p) = Some pack \<and> granted E K A (pk_owner pack))) \<and>
    (\<forall>p\<in>set (rq_new_owner r). granted E K A (snd p)) \<and>
    (\<forall>a\<in>set (rq_active r). account_granted E K A a) \<and>
    (\<forall>a\<in>set (rq_owner r). a \<in> set own \<or> (\<exists>au. get_owner E a = Inr au \<and> granted E K A au))"

lemma check_required_sound:
  assumes "check_required E new act own r st = Inr st'" "only_granted E K A st" "A = set act \<union> set own"
  shows "required_granted E new K A own r"
proof -
  obtain st1 st2 st3 st4 st5 where
    s1: "foldE (\<lambda>au. demand Missing_other_authority (authorized E au)) (rq_other r) st = Inr st1" and
    s2: "foldE (\<lambda>p. demand Missing_other_authority (or_else (authorized E (snd p)) (owner_authorized E (fst p)))) (rq_active_overrides r) st1 = Inr st2" and
    s3: "foldE (\<lambda>p. demand Missing_other_authority (or_else (authorized E (snd p)) (\<lambda>st. bindE (the_or Out_of_range (map_of new (fst p)))
              (\<lambda>pack. authorized E (pk_owner pack) st)))) (rq_new_active r) st2 = Inr st3" and
    s4: "foldE (\<lambda>p. demand Missing_other_authority (authorized E (snd p))) (rq_new_owner r) st3 = Inr st4" and
    s5: "foldE (\<lambda>a. demand Missing_active_authority (or_else (known_before act a) (or_else (known_before own a)
              (or_else (check_authority_of E a) (owner_authorized E a))))) (rq_active r) st4 = Inr st5" and
    s6: "foldE (\<lambda>a. demand Missing_owner_authority (or_else (known_before own a) (owner_authorized E a))) (rq_owner r) st5 = Inr st'"
    using assms(1) unfolding check_required_def ok_iff by blast
  note c1 = foldE_demand [OF s1 assms(2) authorized_sound]
  note c2 = foldE_demand [OF s2 conjunct1 [OF c1] or_else_sound [OF authorized_sound owner_authorized_sound]]
  note c3 = foldE_demand [OF s3 conjunct1 [OF c2] or_else_sound [OF authorized_sound pack_sound]]
  note c4 = foldE_demand [OF s4 conjunct1 [OF c3] authorized_sound]
  note c5 = foldE_demand [OF s5 conjunct1 [OF c4] or_else_sound [OF known_before_sound
      or_else_sound [OF known_before_sound or_else_sound [OF check_authority_of_sound owner_authorized_sound]]]]
  note c6 = foldE_demand [OF s6 conjunct1 [OF c5] or_else_sound [OF known_before_sound owner_authorized_sound]]
  have "account_granted E K A a" if "a \<in> set (rq_active r)" for a
    using c5 that assms(3) by (auto intro: account_granted.granted_before granted_account)
  then show ?thesis
    unfolding required_granted_def using c1 c2 c3 c4 c6 by auto
qed

section \<open>Everything required is collected\<close>

definition requires_more :: "required \<Rightarrow> required \<Rightarrow> bool" where
  "requires_more r r' \<longleftrightarrow> set (rq_active r) \<subseteq> set (rq_active r') \<and> set (rq_owner r) \<subseteq> set (rq_owner r') \<and>
     set (rq_other r) \<subseteq> set (rq_other r') \<and> set (rq_active_overrides r) \<subseteq> set (rq_active_overrides r') \<and>
     set (rq_new_active r) \<subseteq> set (rq_new_active r') \<and> set (rq_new_owner r) \<subseteq> set (rq_new_owner r')"

lemma set_add_names [simp]: "set (add_names N as xs) = set as \<union> set xs"
proof (induction as arbitrary: xs)
  case (Cons a as)
  have "set (add_name N a xs) = insert a (set xs)"
    by (auto simp: add_name_def set_insort_key)
  then show ?case
    using Cons by (auto simp: add_names_def)
qed (simp add: add_names_def)

definition collected_from ::
  "'op operation_lib \<Rightarrow> (string \<Rightarrow> 16 word \<Rightarrow> authority option result) \<Rightarrow> (string \<times> authority_pack) list \<Rightarrow> 'op \<Rightarrow> required \<Rightarrow> bool" where
  "collected_from D G new op r \<longleftrightarrow>
     (\<exists>overrides rest. split_overrides G (op_tag D op) (filter (\<lambda>a. map_of new a = None) (required_active_authorities D op)) = Inr (overrides, rest) \<and>
        set overrides \<subseteq> set (rq_active_overrides r) \<and> set rest \<subseteq> set (rq_active r)) \<and>
     set (filter (\<lambda>a. map_of new a = None) (required_owner_authorities D op)) \<subseteq> set (rq_owner r) \<and>
     set (required_authorities D op) \<subseteq> set (rq_other r) \<and>
     set (concat (map (new_active new (op_tag D op)) (required_active_authorities D op))) \<subseteq> set (rq_new_active r) \<and>
     set (concat (map (new_owner new) (required_owner_authorities D op))) \<subseteq> set (rq_new_owner r)"

lemma require_operation_collects:
  "require_operation N D G new op r = Inr r' \<Longrightarrow> requires_more r r' \<and> collected_from D G new op r'"
  by (auto simp: require_operation_def Let_def ok_iff requires_more_def collected_from_def)

lemma collected_mono:
  assumes "collected_from D G new op r" "requires_more r r'"
  shows "collected_from D G new op r'"
proof -
  obtain overrides rest where
    c: "split_overrides G (op_tag D op) (filter (\<lambda>a. map_of new a = None) (required_active_authorities D op)) = Inr (overrides, rest)"
    "set overrides \<subseteq> set (rq_active_overrides r)" "set rest \<subseteq> set (rq_active r)"
    "set (filter (\<lambda>a. map_of new a = None) (required_owner_authorities D op)) \<subseteq> set (rq_owner r)"
    "set (required_authorities D op) \<subseteq> set (rq_other r)"
    "set (concat (map (new_active new (op_tag D op)) (required_active_authorities D op))) \<subseteq> set (rq_new_active r)"
    "set (concat (map (new_owner new) (required_owner_authorities D op))) \<subseteq> set (rq_new_owner r)"
    using assms(1) unfolding collected_from_def by (elim conjE exE) (rule that)
  show ?thesis
    unfolding collected_from_def
  proof (intro conjI exI)
    show "split_overrides G (op_tag D op) (filter (\<lambda>a. map_of new a = None) (required_active_authorities D op)) = Inr (overrides, rest)"
      by (rule c(1))
  qed (rule subset_trans [OF c(2)] subset_trans [OF c(3)] subset_trans [OF c(4)] subset_trans [OF c(5)]
      subset_trans [OF c(6)] subset_trans [OF c(7)], use assms(2) in \<open>simp add: requires_more_def\<close>)+
qed

lemma requires_more_trans: "requires_more r r' \<Longrightarrow> requires_more r' r'' \<Longrightarrow> requires_more r r''"
  by (auto simp: requires_more_def)

lemma all_collected:
  "foldE (require_operation N D G new) ops r = Inr r' \<Longrightarrow> requires_more r r' \<and> (\<forall>op\<in>set ops. collected_from D G new op r')"
proof (induction ops arbitrary: r)
  case (Cons op ops)
  obtain u where u: "require_operation N D G new op r = Inr u" "foldE (require_operation N D G new) ops u = Inr r'"
    using Cons.prems by (auto simp: ok_iff)
  then show ?case
    using Cons.IH [OF u(2)] require_operation_collects [OF u(1)] requires_more_trans collected_mono by auto
qed (simp add: requires_more_def)

lemma split_overrides_cases:
  "split_overrides G tag as = Inr (overrides, rest) \<Longrightarrow> a \<in> set as \<Longrightarrow>
   (\<exists>au. G a tag = Inr (Some au) \<and> (a, au) \<in> set overrides) \<or> (G a tag = Inr None \<and> a \<in> set rest)"
proof (induction as arbitrary: overrides rest)
  case (Cons b as)
  then show ?case
    by (fastforce simp: ok_iff split: option.splits)
qed simp

text \<open>What is collected and granted is granted to each account an operation needs.\<close>

lemma collected_active:
  assumes "collected_from D G new op r" "required_granted E new K A own r"
    and "a \<in> set (required_active_authorities D op)"
  shows "active_granted D E G new K A op a"
proof (cases "map_of new a")
  case None
  obtain overrides rest where s: "split_overrides G (op_tag D op) (filter (\<lambda>a. map_of new a = None) (required_active_authorities D op)) = Inr (overrides, rest)"
    "set overrides \<subseteq> set (rq_active_overrides r)" "set rest \<subseteq> set (rq_active r)"
    using assms(1) by (auto simp: collected_from_def)
  have "a \<in> set (filter (\<lambda>a. map_of new a = None) (required_active_authorities D op))"
    using None assms(3) by simp
  from split_overrides_cases [OF s(1) this] show ?thesis
  proof (elim disjE exE conjE)
    fix au assume au: "G a (op_tag D op) = Inr (Some au)" "(a, au) \<in> set overrides"
    then have "granted E K A au \<or> (\<exists>au. get_owner E a = Inr au \<and> granted E K A au)"
      using s(2) assms(2) unfolding required_granted_def by (metis fst_conv snd_conv subsetD)
    then show ?thesis
      using None au(1) by (simp add: active_granted_def)
  next
    assume "G a (op_tag D op) = Inr None" "a \<in> set rest"
    then show ?thesis
      using None s(3) assms(2) by (auto simp: active_granted_def required_granted_def)
  qed
next
  case (Some pack)
  let ?au = "case map_of (pk_active_overrides pack) (op_tag D op) of Some au \<Rightarrow> au | None \<Rightarrow> pk_active pack"
  have "(a, ?au) \<in> set (new_active new (op_tag D op) a)"
    using Some by (simp add: new_active_def split: option.splits)
  then have "(a, ?au) \<in> set (rq_new_active r)"
    using assms(1,3) by (auto simp: collected_from_def)
  then have "granted E K A ?au \<or> granted E K A (pk_owner pack)"
    using assms(2) Some unfolding required_granted_def by (metis fst_conv snd_conv option.inject)
  then show ?thesis
    using Some by (simp add: active_granted_def)
qed

lemma collected_owner:
  assumes "collected_from D G new op r" "required_granted E new K A own r"
    and "a \<in> set (required_owner_authorities D op)"
  shows "owner_granted E new K A own a"
proof (cases "map_of new a")
  case None
  then have "a \<in> set (rq_owner r)"
    using assms(1,3) by (auto simp: collected_from_def)
  then show ?thesis
    using assms(2) None by (auto simp: required_granted_def owner_granted_def)
next
  case (Some pack)
  then have "(a, pk_owner pack) \<in> set (new_owner new a)"
    by (simp add: new_owner_def)
  then have "(a, pk_owner pack) \<in> set (rq_new_owner r)"
    using assms(1,3) by (auto simp: collected_from_def)
  then have "granted E K A (pk_owner pack)"
    using assms(2) unfolding required_granted_def by (metis snd_conv)
  then show ?thesis
    using Some by (simp add: owner_granted_def)
qed

lemma set_mk_sign_state: "fst ` set (provided_signatures (mk_sign_state sigs)) = set sigs"
proof -
  have "fst ` set (foldl (\<lambda>m k. ins k b m) m ks) = set ks \<union> fst ` set m" for ks m and b :: bool
    by (induction ks arbitrary: m) (auto simp: fst_set_ins)
  then show ?thesis
    by (simp add: mk_sign_state_def)
qed

lemma set_fold_insert: "set (fold List.insert as xs) = set as \<union> set xs"
  by (induction as arbitrary: xs) auto

text \<open>
  C33. A transaction that passes \<open>verify_authority\<close> is authorized, operation by operation. Every
  account whose active authority an operation needs grants it from the keys that signed and the
  accounts that approved: through the override for that operation, its active or its owner
  authority; an account the transaction creates, through the authorities it is created with.
  Owner authority comes from owner approvals and owner authorities only, and every further
  authority an operation asks for is met.
\<close>

theorem transaction_authorized:
  assumes "verify_authority N D E G ops sigs active_approvals owner_approvals = Inr ()"
  shows "\<exists>new. extract_new_accounts D ops = Inr new \<and>
    (let K = set sigs; A = set active_approvals \<union> set owner_approvals in
     \<forall>op\<in>set ops.
       (\<forall>a\<in>set (required_active_authorities D op). active_granted D E G new K A op a) \<and>
       (\<forall>a\<in>set (required_owner_authorities D op). owner_granted E new K A owner_approvals a) \<and>
       (\<forall>au\<in>set (required_authorities D op). granted E K A au))"
proof -
  let ?E = "E\<lparr>available_keys := []\<rparr>" and ?K = "set sigs" and ?A = "set active_approvals \<union> set owner_approvals"
  let ?st = "mk_sign_state sigs\<lparr>approved_by := fold List.insert owner_approvals (fold List.insert active_approvals (approved_by (mk_sign_state sigs)))\<rparr>"
  obtain new r st where new: "extract_new_accounts D ops = Inr new"
    and r: "foldE (require_operation N D G new) ops nothing_required = Inr r"
    and st: "check_required ?E new active_approvals owner_approvals r ?st = Inr st"
    using assms by (auto simp: verify_authority_def ok_iff Let_def)
  have "set (approved_by ?st) \<subseteq> ?A"
    by (auto simp: set_fold_insert mk_sign_state_def)
  then have "only_granted ?E ?K ?A ?st"
    using set_mk_sign_state [of sigs] by (auto simp: only_granted_def known_keys_def intro: account_granted.granted_before)
  then have "required_granted ?E new ?K ?A owner_approvals r"
    by (rule check_required_sound [OF st _ refl])
  then have granted: "required_granted E new ?K ?A owner_approvals r"
    by (simp add: required_granted_def)
  have "(\<forall>a\<in>set (required_active_authorities D op). active_granted D E G new ?K ?A op a) \<and>
       (\<forall>a\<in>set (required_owner_authorities D op). owner_granted E new ?K ?A owner_approvals a) \<and>
       (\<forall>au\<in>set (required_authorities D op). granted E ?K ?A au)" if "op \<in> set ops" for op
  proof -
    have c: "collected_from D G new op r"
      using all_collected [OF r] that by blast
    then have "granted E ?K ?A au" if "au \<in> set (required_authorities D op)" for au
      using granted that unfolding collected_from_def required_granted_def by blast
    then show ?thesis
      using collected_active [OF c granted] collected_owner [OF c granted] by blast
  qed
  then show ?thesis
    using new by (simp add: Let_def)
qed

section \<open>Minimal signatures\<close>

text \<open>
  What \<open>minimize_required_signatures\<close> returns suffices when the required signatures do, and is a
  part of them. \<open>get_required_signatures\<close> does not look for the overrides of active authorities, so
  what it returns need not suffice.
\<close>

lemma minimize_keys_suffice:
  assumes "minimize_keys V ks result = Inr result'" "V result = Inr ()" "sorted result" "distinct result"
    and "distinct ks" "set ks \<subseteq> set result"
  shows "V result' = Inr () \<and> set result' \<subseteq> set result"
  using assms
proof (induction V ks result rule: minimize_keys.induct)
  case (2 V k ks result)
  have again: "insort k (removeAll k result) = result"
    using "2.prems"(3,4,6) by (simp add: insort_remove1 flip: distinct_remove1_removeAll)
  show ?case
  proof (cases "V (removeAll k result)")
    case (Inr u)
    have "sorted (removeAll k result)"
      using "2.prems"(3) by (simp add: removeAll_filter_not_eq sorted_wrt_filter)
    then show ?thesis
      using "2.IH"(2) [OF Inr] Inr "2.prems" by (auto simp: distinct_removeAll)
  next
    case (Inl e)
    then have "e \<in> {Missing_owner_authority, Missing_active_authority, Missing_other_authority}"
      using "2.prems"(1) by (auto split: if_splits)
    then show ?thesis
      using "2.IH"(1) [OF Inl] Inl "2.prems" again by simp
  qed
qed simp

section \<open>Witness\<close>

text \<open>The operations of the witness are numbers; operation 1 needs alice and creates dave.\<close>

definition demo_pack :: authority_pack where
  "demo_pack = \<lparr>pk_owner = \<lparr>weight_threshold = 1, account_auths = [], key_auths = [(8, 1)]\<rparr>,
     pk_active = \<lparr>weight_threshold = 1, account_auths = [], key_auths = [(7, 1)]\<rparr>, pk_active_overrides = []\<rparr>"

definition demo_operations :: "nat operation_lib" where
  "demo_operations = \<lparr>required_active_authorities = \<lambda>op. if op = 1 then [''alice''] else [''dave''],
     required_owner_authorities = \<lambda>op. [], required_authorities = \<lambda>op. [], op_tag = of_nat,
     account_use = \<lambda>op. if op = 1 then Creates_account ''dave'' demo_pack else No_account\<rparr>"

lemma demo_verified: "verify_authority length demo_operations demo_env (\<lambda>a tag. Inr None) [1, 2] [7] [] [] = Inr ()"
  by code_simp

lemma transaction_authorized_witness:
  "account_granted demo_env {7} {} ''alice'' \<and> granted demo_env {7} {} (pk_active demo_pack)"
proof -
  have new: "extract_new_accounts demo_operations [1, 2] = Inr [(''dave'', demo_pack)]"
    by (simp add: extract_new_accounts_def extract_new_account_def demo_operations_def)
  have "active_granted demo_operations demo_env (\<lambda>a tag. Inr None) [(''dave'', demo_pack)] {7} {} 1 ''alice'' \<and>
      active_granted demo_operations demo_env (\<lambda>a tag. Inr None) [(''dave'', demo_pack)] {7} {} 2 ''dave''"
    using transaction_authorized [OF demo_verified] new by (auto simp: Let_def demo_operations_def)
  moreover have "\<not> granted demo_env {7} {} (pk_owner demo_pack)"
    by (simp add: granted_def granted_weight_def demo_pack_def)
  ultimately show ?thesis
    by (auto simp: active_granted_def demo_pack_def)
qed

end
