(* ===== verification/Transactions.thy ===== *)
theory Transactions
  imports Transaction_Authority Chainbase
begin

text \<open>
  How the chain takes a transaction (\<open>chain/database/database.cpp\<close>): it is validated, looked up
  among the transactions already applied, its authorities are verified, its reference block and
  its expiration are checked, and its operations are applied. What an operation does to the state
  of the chain is a parameter (\<open>tl_apply\<close>, with the reference block of the transaction), and so
  are the id, the size and the recovery of the keys of a transaction, which hash it. An \<open>fc\<close>
  exception anywhere leaves the state of the enclosing session (C1), so that it is an \<open>Inl\<close>.
\<close>

section \<open>State\<close>

definition DEIP_MAX_TIME_UNTIL_EXPIRATION :: nat where "DEIP_MAX_TIME_UNTIL_EXPIRATION = 3600"

record ('op, 'sig) signed_transaction =
  tx_ref_block_num :: "16 word"
  tx_ref_block_prefix :: "32 word"
  tx_expiration :: "32 word"
  tx_operations :: "'op list"
  tx_signatures :: "'sig list"
  tx_tenant_signature :: "(string \<times> 'sig) option"

record transaction_object =
  to_trx_id :: nat
  to_expiration :: "32 word"

definition trx_key :: "transaction_object \<Rightarrow> transaction_object \<Rightarrow> bool" where
  "trx_key v w \<longleftrightarrow> to_trx_id v = to_trx_id w"

record 's tx_state =
  ts_db :: 's
  ts_transactions :: "transaction_object generic_index"

record ('op, 'sig, 's) transaction_lib =
  tl_id :: "('op, 'sig) signed_transaction \<Rightarrow> nat"
  tl_size :: "('op, 'sig) signed_transaction \<Rightarrow> nat"
  tl_recover :: "('op, 'sig) signed_transaction \<Rightarrow> 'sig \<Rightarrow> public_key"
  tl_names :: "string \<Rightarrow> nat"
  tl_operations :: "'op operation_lib"
  tl_validate :: "'op \<Rightarrow> unit result"
  tl_entity_validate :: "'op \<Rightarrow> 16 word \<Rightarrow> 32 word \<Rightarrow> unit result"
  tl_apply :: "16 word \<Rightarrow> 32 word \<Rightarrow> 'op \<Rightarrow> 's \<Rightarrow> 's result"
  tl_account_authority :: "'s \<Rightarrow> string \<Rightarrow> authority_pack result"
  tl_head_block_num :: "'s \<Rightarrow> 32 word"
  tl_head_block_time :: "'s \<Rightarrow> 32 word"
  tl_block_summary :: "'s \<Rightarrow> 16 word \<Rightarrow> 32 word result"
  tl_maximum_block_size :: "'s \<Rightarrow> 32 word"

record skip_steps =
  skip_validate :: bool
  skip_transaction_dupe_check :: bool
  skip_transaction_signatures :: bool
  skip_authority_check :: bool
  skip_tapos_check :: bool

text \<open>The keys of \<open>get_shared_db_merkle\<close> (\<open>chain/shared_db_merkle.hpp\<close>).\<close>

definition shared_db_merkle :: "32 word list" where
  "shared_db_merkle = [3705111, 3705120, 3713940, 3714132, 3714567, 3714588, 4138790, 5435426]"

section \<open>Authorities of a transaction\<close>

definition transaction_validate :: "('op, 'sig, 's) transaction_lib \<Rightarrow> ('op, 'sig) signed_transaction \<Rightarrow> unit result" where
  "transaction_validate L trx =
     require (tx_operations trx \<noteq> []) Bad_size
       (foldE (\<lambda>op _. bindE (tl_validate L op) (\<lambda>_. tl_entity_validate L op (tx_ref_block_num trx) (tx_ref_block_prefix trx)))
          (tx_operations trx) ())"

definition verify_signatures ::
  "('op, 'sig, 's) transaction_lib \<Rightarrow> ('op, 'sig) signed_transaction \<Rightarrow> 's \<Rightarrow> unit result" where
  "verify_signatures L trx db =
     (let E = \<lparr>get_active = \<lambda>n. bindE (tl_account_authority L db n) (\<lambda>p. Inr (pk_active p)),
               get_owner = \<lambda>n. bindE (tl_account_authority L db n) (\<lambda>p. Inr (pk_owner p)), available_keys = []\<rparr>;
          G = (\<lambda>n tag. bindE (tl_account_authority L db n) (\<lambda>p. Inr (map_of (pk_active_overrides p) tag)))
      in bindE (get_signature_keys (tl_recover L trx) (tx_signatures trx) []) (\<lambda>keys.
         verify_authority (tl_names L) (tl_operations L) E G (tx_operations trx) keys [] []))"

definition verify_tenant ::
  "('op, 'sig, 's) transaction_lib \<Rightarrow> ('op, 'sig) signed_transaction \<Rightarrow> 's \<Rightarrow> unit result" where
  "verify_tenant L trx db =
     verify_tenant_authority (tl_recover L trx)
       (\<lambda>n. bindE (tl_account_authority L db n) (\<lambda>p.
          Inr \<lparr>weight_threshold = 0, account_auths = [], key_auths = key_auths (pk_active p) @ key_auths (pk_owner p)\<rparr>))
       (tx_tenant_signature trx)"

definition check_signatures ::
  "('op, 'sig, 's) transaction_lib \<Rightarrow> ('op, 'sig) signed_transaction \<Rightarrow> 's \<Rightarrow> unit result" where
  "check_signatures L trx db =
     bindE (case verify_signatures L trx db of
              Inl e \<Rightarrow> if e = Missing_active_authority \<and> tl_head_block_num L db + 1 \<in> set shared_db_merkle
                       then Inr () else Inl e
            | Inr u \<Rightarrow> Inr u)
       (\<lambda>_. verify_tenant L trx db)"

section \<open>Applying a transaction\<close>

definition check_time ::
  "('op, 'sig, 's) transaction_lib \<Rightarrow> skip_steps \<Rightarrow> ('op, 'sig) signed_transaction \<Rightarrow> 's \<Rightarrow> unit result" where
  "check_time L k trx db =
     (if tl_head_block_num L db > 0 then
        bindE (if skip_tapos_check k then Inr ()
               else bindE (tl_block_summary L db (tx_ref_block_num trx)) (\<lambda>prefix.
                    if tx_ref_block_prefix trx = prefix then Inr () else Inl Tapos_mismatch)) (\<lambda>_.
        if unat (tx_expiration trx) \<le> unat (tl_head_block_time L db) + DEIP_MAX_TIME_UNTIL_EXPIRATION then
          (if tl_head_block_time L db < tx_expiration trx then Inr () else Inl Transaction_expired)
        else Inl Transaction_expired)
      else Inr ())"

definition apply_transaction ::
  "('op, 'sig, 's) transaction_lib \<Rightarrow> skip_steps \<Rightarrow> ('op, 'sig) signed_transaction \<Rightarrow> 's tx_state \<Rightarrow> 's tx_state result" where
  "apply_transaction L k trx s =
     bindE (if skip_validate k then Inr () else transaction_validate L trx) (\<lambda>_.
     require (skip_transaction_dupe_check k \<or> find_row (\<lambda>t. to_trx_id t = tl_id L trx) (ts_transactions s) = None) Already_exists
      (bindE (if skip_transaction_signatures k \<or> skip_authority_check k then Inr () else check_signatures L trx (ts_db s)) (\<lambda>_.
       bindE (check_time L k trx (ts_db s)) (\<lambda>_.
       bindE (if skip_transaction_dupe_check k then Inr (ts_transactions s)
              else bindE (emplace trx_key \<lparr>to_trx_id = tl_id L trx, to_expiration = tx_expiration trx\<rparr> (ts_transactions s))
                     (\<lambda>(_, t). Inr t)) (\<lambda>t.
       bindE (foldE (tl_apply L (tx_ref_block_num trx) (tx_ref_block_prefix trx)) (tx_operations trx) (ts_db s)) (\<lambda>db.
         Inr \<lparr>ts_db = db, ts_transactions = t\<rparr>))))))"

text \<open>The expired transactions are removed in the order of their expiration.\<close>

definition expired :: "('op, 'sig, 's) transaction_lib \<Rightarrow> 's tx_state \<Rightarrow> (nat \<times> transaction_object) list" where
  "expired L s = takeWhile (\<lambda>p. tl_head_block_time L (ts_db s) > to_expiration (snd p))
     (sort_key (\<lambda>p. to_expiration (snd p)) (rows (ts_transactions s)))"

definition clear_expired_transactions :: "('op, 'sig, 's) transaction_lib \<Rightarrow> 's tx_state \<Rightarrow> 's tx_state result" where
  "clear_expired_transactions L s =
     bindE (foldE (\<lambda>p. remove (fst p)) (expired L s) (ts_transactions s)) (\<lambda>t. Inr (s\<lparr>ts_transactions := t\<rparr>))"

section \<open>Pending transactions\<close>

text \<open>
  The pending session is the state it goes back to, the one of the head block; the state of the
  node includes the pending transactions.
\<close>

record ('op, 'sig, 's) pending =
  pn_state :: "'s tx_state"
  pn_session :: "'s tx_state option"
  pn_pending :: "('op, 'sig) signed_transaction list"

definition start_pending :: "('op, 'sig, 's) pending \<Rightarrow> ('op, 'sig, 's) pending" where
  "start_pending nd = (if pn_session nd = None then nd\<lparr>pn_session := Some (pn_state nd)\<rparr> else nd)"

text \<open>The node after it, and the error when the transaction was refused.\<close>

definition push_pending ::
  "('op, 'sig, 's) transaction_lib \<Rightarrow> skip_steps \<Rightarrow> ('op, 'sig) signed_transaction \<Rightarrow> ('op, 'sig, 's) pending \<Rightarrow>
   ('op, 'sig, 's) pending \<times> error option" where
  "push_pending L k trx nd =
     (let nd1 = start_pending nd in
      case apply_transaction L k trx (pn_state nd1) of
        Inl e \<Rightarrow> (nd1, Some e)
      | Inr s \<Rightarrow> (nd1\<lparr>pn_state := s, pn_pending := pn_pending nd1 @ [trx]\<rparr>, None))"

definition push_transaction ::
  "('op, 'sig, 's) transaction_lib \<Rightarrow> skip_steps \<Rightarrow> ('op, 'sig) signed_transaction \<Rightarrow> ('op, 'sig, 's) pending \<Rightarrow>
   ('op, 'sig, 's) pending \<times> error option" where
  "push_transaction L k trx nd =
     (if tl_size L trx \<le> unat (tl_maximum_block_size L (ts_db (pn_state nd)) - 256)
      then push_pending L k trx nd else (nd, Some (Assert Limit_exceeded)))"

definition validate_transaction ::
  "('op, 'sig, 's) transaction_lib \<Rightarrow> skip_steps \<Rightarrow> ('op, 'sig) signed_transaction \<Rightarrow> ('op, 'sig, 's) pending \<Rightarrow> error option" where
  "validate_transaction L k trx nd =
     (case apply_transaction L k trx (pn_state nd) of Inl e \<Rightarrow> Some e | Inr s \<Rightarrow> None)"

text \<open>
  The transactions of a new block, from the state of the head block on: those that expire too
  soon, that do not fit or that throw are passed over. Only \<open>fc\<close> exceptions are caught. The size
  is what the block has so far.
\<close>

fun pick_transactions ::
  "('op, 'sig, 's) transaction_lib \<Rightarrow> skip_steps \<Rightarrow> 32 word \<Rightarrow> nat \<Rightarrow> ('op, 'sig) signed_transaction list \<Rightarrow>
   nat \<Rightarrow> 's tx_state \<Rightarrow> ('op, 'sig) signed_transaction list \<Rightarrow>
   (nat \<times> 's tx_state \<times> ('op, 'sig) signed_transaction list) result" where
  "pick_transactions L k due max_size [] used s included = Inr (used, s, included)"
| "pick_transactions L k due max_size (trx # trxs) used s included =
     (if tx_expiration trx < due then pick_transactions L k due max_size trxs used s included
      else if used + tl_size L trx \<ge> max_size then pick_transactions L k due max_size trxs used s included
      else case apply_transaction L k trx s of
             Inl e \<Rightarrow> if e = Undefined_behaviour then Inl e
                      else pick_transactions L k due max_size trxs used s included
           | Inr s1 \<Rightarrow> pick_transactions L k due max_size trxs (used + tl_size L trx) s1 (included @ [trx]))"

definition pending_block ::
  "('op, 'sig, 's) transaction_lib \<Rightarrow> skip_steps \<Rightarrow> nat \<Rightarrow> 32 word \<Rightarrow> ('op, 'sig, 's) pending \<Rightarrow>
   (nat \<times> 's tx_state \<times> ('op, 'sig) signed_transaction list) result" where
  "pending_block L k header_size due nd =
     (let head = (case pn_session nd of Some s \<Rightarrow> s | None \<Rightarrow> pn_state nd)
      in pick_transactions L k due (unat (tl_maximum_block_size L (ts_db (pn_state nd)))) (pn_pending nd) header_size head [])"

end
