(* ===== verification/Transaction_Properties.thy ===== *)
theory Transaction_Properties
  imports Transactions "HOL-Library.Sublist"
begin

text \<open>
  What the chain promises of transactions: none is applied twice, none is applied without the
  authorities it needs except in eight blocks, and the transactions picked for a block apply one
  after the other to the state of the head.
\<close>

section \<open>No transaction is applied twice\<close>

definition keeps_clock :: "('op, 'sig, 's) transaction_lib \<Rightarrow> bool" where
  "keeps_clock L \<longleftrightarrow> (\<forall>n p op db db'. tl_apply L n p op db = Inr db' \<longrightarrow>
     tl_head_block_num L db' = tl_head_block_num L db \<and> tl_head_block_time L db' = tl_head_block_time L db)"

text \<open>
  What happens to the state between two blocks: transactions, the work of the block, with a time
  that does not go back, and the removal of expired transactions.
\<close>

inductive chain_step :: "('op, 'sig, 's) transaction_lib \<Rightarrow> 's tx_state \<Rightarrow> 's tx_state \<Rightarrow> bool" for L where
  applied: "apply_transaction L k trx s = Inr s' \<Longrightarrow> \<not> skip_transaction_dupe_check k \<Longrightarrow> chain_step L s s'"
| advanced: "tl_head_block_num L db > 0 \<Longrightarrow> tl_head_block_time L (ts_db s) \<le> tl_head_block_time L db \<Longrightarrow>
     chain_step L s (s\<lparr>ts_db := db\<rparr>)"
| cleared: "clear_expired_transactions L s = Inr s' \<Longrightarrow> tl_head_block_num L (ts_db s) > 0 \<Longrightarrow> chain_step L s s'"

definition seen :: "('op, 'sig, 's) transaction_lib \<Rightarrow> ('op, 'sig) signed_transaction \<Rightarrow> 's tx_state \<Rightarrow> bool" where
  "seen L trx s \<longleftrightarrow>
     (\<exists>p\<in>set (rows (ts_transactions s)). to_trx_id (snd p) = tl_id L trx \<and> to_expiration (snd p) = tx_expiration trx) \<or>
     (tl_head_block_num L (ts_db s) > 0 \<and> tx_expiration trx < tl_head_block_time L (ts_db s))"

lemma symp_trx_key [simp]: "symp trx_key"
  by (auto simp: symp_def trx_key_def)

lemma foldE_clock:
  assumes "foldE (tl_apply L n p) ops db = Inr db'" "keeps_clock L"
  shows "tl_head_block_num L db' = tl_head_block_num L db \<and> tl_head_block_time L db' = tl_head_block_time L db"
  by (rule foldE_invariant [where P = "\<lambda>d. tl_head_block_num L d = tl_head_block_num L db \<and>
      tl_head_block_time L d = tl_head_block_time L db", OF _ assms(1)]) (use assms(2) in \<open>auto simp: keeps_clock_def\<close>)

lemma apply_transaction_rows:
  assumes "apply_transaction L k trx s = Inr s'" "\<not> skip_transaction_dupe_check k" "wf_index trx_key (ts_transactions s)" "keeps_clock L"
  obtains i where
    "rows (ts_transactions s') = rows (ts_transactions s) @ [(i, \<lparr>to_trx_id = tl_id L trx, to_expiration = tx_expiration trx\<rparr>)]"
    "wf_index trx_key (ts_transactions s')" "tl_head_block_num L (ts_db s') = tl_head_block_num L (ts_db s)"
    "tl_head_block_time L (ts_db s') = tl_head_block_time L (ts_db s)"
proof -
  obtain i t db where t: "emplace trx_key \<lparr>to_trx_id = tl_id L trx, to_expiration = tx_expiration trx\<rparr> (ts_transactions s) = Inr (i, t)"
    and db: "foldE (tl_apply L (tx_ref_block_num trx) (tx_ref_block_prefix trx)) (tx_operations trx) (ts_db s) = Inr db"
    and s': "s' = \<lparr>ts_db = db, ts_transactions = t\<rparr>"
    using assms(1,2) by (auto simp: apply_transaction_def ok_iff)
  show ?thesis
    by (rule that [of i]) (use emplace_rows [OF assms(3) t] cb.wf_emplace [OF _ assms(3) t] foldE_clock [OF db assms(4)] s' in auto)
qed

lemma remove_rows:
  assumes "foldE (\<lambda>p. remove (fst p)) ps t = Inr t'" "wf_index U t"
  shows "rows t' = filter (\<lambda>q. fst q \<notin> fst ` set ps) (rows t) \<and> wf_index U t'"
  using assms
proof (induction ps arbitrary: t)
  case (Cons p ps)
  obtain u where u: "remove (fst p) t = Inr u" "foldE (\<lambda>p. remove (fst p)) ps u = Inr t'"
    using Cons.prems(1) by (auto simp: ok_iff)
  have "rows u = del (fst p) (rows t)" "wf_index U u"
    using remove_Inr [OF u(1)] cb.wf_remove [OF Cons.prems(2) u(1)] by auto
  then show ?case
    using Cons.IH [OF u(2)] by (auto simp: del_def intro!: filter_cong)
qed simp

lemma cleared_rows:
  assumes "clear_expired_transactions L s = Inr s'" "wf_index trx_key (ts_transactions s)" "p \<in> set (rows (ts_transactions s))"
  shows "wf_index trx_key (ts_transactions s') \<and> ts_db s' = ts_db s \<and>
    (p \<in> set (rows (ts_transactions s')) \<or> to_expiration (snd p) < tl_head_block_time L (ts_db s))"
proof -
  obtain t where t: "foldE (\<lambda>p. remove (fst p)) (expired L s) (ts_transactions s) = Inr t" "s' = s\<lparr>ts_transactions := t\<rparr>"
    using assms(1) by (auto simp: clear_expired_transactions_def ok_iff)
  have "to_expiration (snd p) < tl_head_block_time L (ts_db s)" if "fst p \<in> fst ` set (expired L s)"
  proof -
    from that obtain q where q: "fst p = fst q" "q \<in> set (expired L s)"
      by (rule imageE)
    then have "q \<in> set (rows (ts_transactions s))" "to_expiration (snd q) < tl_head_block_time L (ts_db s)"
      by (auto simp: expired_def dest: set_takeWhileD)
    moreover from this(1) have "snd q = snd p"
      using q(1) assms(3) cb.mem_map_of [OF assms(2), of "fst p" "snd p"] cb.mem_map_of [OF assms(2), of "fst q" "snd q"]
      unfolding prod.collapse by simp
    ultimately show ?thesis
      by simp
  qed
  then show ?thesis
    using remove_rows [OF t(1) assms(2)] t(2) assms(3) by auto
qed

lemma step_seen:
  assumes "chain_step L s s'" "seen L trx s" "wf_index trx_key (ts_transactions s)" "keeps_clock L"
  shows "seen L trx s' \<and> wf_index trx_key (ts_transactions s')"
  using assms(1)
proof cases
  case (applied k trx')
  then show ?thesis
    by (rule apply_transaction_rows [OF _ _ assms(3,4)]) (use assms(2) in \<open>auto simp: seen_def\<close>)
next
  case (advanced db)
  then show ?thesis
    using assms(2,3) by (auto simp: seen_def intro: less_le_trans)
next
  case cleared
  obtain t where "foldE (\<lambda>p. remove (fst p)) (expired L s) (ts_transactions s) = Inr t" "s' = s\<lparr>ts_transactions := t\<rparr>"
    using cleared(1) by (auto simp: clear_expired_transactions_def ok_iff)
  then have "wf_index trx_key (ts_transactions s')" "ts_db s' = ts_db s"
    using remove_rows assms(3) by auto
  then show ?thesis
    using cleared_rows [OF cleared(1) assms(3)] assms(2) cleared(2) unfolding seen_def by metis
qed

lemma seen_refused:
  assumes "seen L trx s" "\<not> skip_transaction_dupe_check k"
  shows "apply_transaction L k trx s \<noteq> Inr s'"
proof
  assume a: "apply_transaction L k trx s = Inr s'"
  then have "find_row (\<lambda>t. to_trx_id t = tl_id L trx) (ts_transactions s) = None" "check_time L k trx (ts_db s) = Inr ()"
    using assms(2) by (auto simp: apply_transaction_def ok_iff)
  then show False
    using assms(1) by (auto simp: seen_def find_row_def find_None_iff check_time_def ok_iff not_less split: if_splits)
qed

text \<open>
  C3. Once a transaction is applied, it is refused for ever: while its record is kept as a
  duplicate, and after \<open>clear_expired_transactions\<close> removed the record as expired.
\<close>

theorem no_replay:
  assumes "apply_transaction L k trx s = Inr s1" "\<not> skip_transaction_dupe_check k" "(chain_step L)\<^sup>*\<^sup>* s1 s2"
    and "wf_index trx_key (ts_transactions s)" "keeps_clock L" "\<not> skip_transaction_dupe_check k'"
  shows "\<not> succeeds (apply_transaction L k' trx s2)"
proof -
  have "seen L trx s1 \<and> wf_index trx_key (ts_transactions s1)"
    using assms(1,2,4,5) by (rule apply_transaction_rows) (auto simp: seen_def)
  with assms(3) have "seen L trx s2 \<and> wf_index trx_key (ts_transactions s2)"
    by (induction rule: rtranclp_induct) (use step_seen assms(5) in blast)+
  then show ?thesis
    using seen_refused [OF _ assms(6)] unfolding succeeds_iff by blast
qed

section \<open>Authorities are enforced\<close>

text \<open>
  C4. A transaction applied with all checks on carries every authority its operations need and a
  tenant's signature, unless the next block is one of eight block numbers of another chain
  (\<open>get_shared_db_merkle\<close>): there a missing active authority makes no difference, and the
  transaction is applied just as if the check were skipped.
\<close>

theorem authority_enforced:
  assumes "\<not> skip_transaction_signatures k" "\<not> skip_authority_check k"
  shows "(succeeds (apply_transaction L k trx s) \<longrightarrow> verify_tenant L trx (ts_db s) = Inr () \<and>
      (verify_signatures L trx (ts_db s) = Inr () \<or>
       verify_signatures L trx (ts_db s) = Inl Missing_active_authority \<and> tl_head_block_num L (ts_db s) + 1 \<in> set shared_db_merkle)) \<and>
    (verify_signatures L trx (ts_db s) = Inl Missing_active_authority \<and>
      tl_head_block_num L (ts_db s) + 1 \<in> set shared_db_merkle \<and> verify_tenant L trx (ts_db s) = Inr () \<longrightarrow>
      apply_transaction L k trx s = apply_transaction L (k\<lparr>skip_authority_check := True\<rparr>) trx s)"
proof (intro conjI impI)
  assume "succeeds (apply_transaction L k trx s)"
  then have c: "check_signatures L trx (ts_db s) = Inr ()"
    using assms by (auto simp: succeeds_iff apply_transaction_def ok_iff)
  then show "verify_tenant L trx (ts_db s) = Inr ()"
    by (auto simp: check_signatures_def ok_iff)
  show "verify_signatures L trx (ts_db s) = Inr () \<or>
       verify_signatures L trx (ts_db s) = Inl Missing_active_authority \<and> tl_head_block_num L (ts_db s) + 1 \<in> set shared_db_merkle"
    using c by (auto simp: check_signatures_def ok_iff split: sum.splits if_splits)
next
  assume "verify_signatures L trx (ts_db s) = Inl Missing_active_authority \<and>
      tl_head_block_num L (ts_db s) + 1 \<in> set shared_db_merkle \<and> verify_tenant L trx (ts_db s) = Inr ()"
  then have "check_signatures L trx (ts_db s) = Inr ()"
    by (simp add: check_signatures_def)
  then show "apply_transaction L k trx s = apply_transaction L (k\<lparr>skip_authority_check := True\<rparr>) trx s"
    by (simp add: apply_transaction_def check_time_def)
qed

section \<open>The transactions of a block\<close>

lemma pick_spec:
  assumes "pick_transactions L k due max_size trxs used s included = Inr (used', s', included')"
  shows "\<exists>picked. included' = included @ picked \<and> subseq picked trxs \<and> foldE (apply_transaction L k) picked s = Inr s' \<and>
    used' = used + sum_list (map (tl_size L) picked) \<and> (used < max_size \<longrightarrow> used' < max_size) \<and>
    (\<forall>trx\<in>set picked. due \<le> tx_expiration trx)"
  using assms
proof (induction L k due max_size trxs used s included rule: pick_transactions.induct)
  case (2 L k due max_size trx trxs used s included)
  show ?case
  proof (cases "due \<le> tx_expiration trx \<and> used + tl_size L trx < max_size \<and> succeeds (apply_transaction L k trx s)")
    case True
    then obtain s1 where s1: "apply_transaction L k trx s = Inr s1"
      by (auto simp: succeeds_iff)
    have c: "\<not> tx_expiration trx < due" "\<not> max_size \<le> used + tl_size L trx"
      using True by auto
    then have rest: "pick_transactions L k due max_size trxs (used + tl_size L trx) s1 (included @ [trx]) = Inr (used', s', included')"
      using "2.prems" s1 by simp
    obtain picked where picked: "included' = (included @ [trx]) @ picked" "subseq picked trxs"
      "foldE (apply_transaction L k) picked s1 = Inr s'" "used' = used + tl_size L trx + sum_list (map (tl_size L) picked)"
      "used + tl_size L trx < max_size \<longrightarrow> used' < max_size" "\<forall>trx\<in>set picked. due \<le> tx_expiration trx"
      using "2.IH"(4) [OF c s1 rest] by auto
    show ?thesis
      by (rule exI [of _ "trx # picked"]) (use picked True s1 in auto)
  next
    case False
    consider (soon) "tx_expiration trx < due" | (big) "\<not> tx_expiration trx < due" "used + tl_size L trx \<ge> max_size"
      | (fails) e where "\<not> tx_expiration trx < due" "\<not> used + tl_size L trx \<ge> max_size" "apply_transaction L k trx s = Inl e"
      using False by (cases "tx_expiration trx < due"; cases "max_size \<le> used + tl_size L trx"; cases "apply_transaction L k trx s")
        (auto simp: not_less not_le)
    then have "\<exists>picked. included' = included @ picked \<and> subseq picked trxs \<and> foldE (apply_transaction L k) picked s = Inr s' \<and>
      used' = used + sum_list (map (tl_size L) picked) \<and> (used < max_size \<longrightarrow> used' < max_size) \<and>
      (\<forall>trx\<in>set picked. due \<le> tx_expiration trx)"
    proof cases
      case soon
      then show ?thesis
        using "2.IH"(1) "2.prems" by simp
    next
      case big
      then show ?thesis
        using "2.IH"(2) "2.prems" by simp
    next
      case fails
      then show ?thesis
        using "2.IH"(3) [OF fails] "2.prems" by (simp split: if_splits)
    qed
    then show ?thesis
      by (elim exE) (rule exI, auto)
  qed
qed simp

text \<open>
  The pending transactions, applied to the state of the head block, give the state of the node;
  pushing another one keeps this.
\<close>

definition pending_ok :: "('op, 'sig, 's) transaction_lib \<Rightarrow> skip_steps \<Rightarrow> ('op, 'sig, 's) pending \<Rightarrow> bool" where
  "pending_ok L k nd \<longleftrightarrow>
     foldE (apply_transaction L k) (pn_pending nd) (case pn_session nd of Some s \<Rightarrow> s | None \<Rightarrow> pn_state nd) = Inr (pn_state nd)"

lemma push_keeps_pending:
  assumes "push_transaction L k trx nd = (nd', r)" "pending_ok L k nd" "pn_session nd = None \<longrightarrow> pn_pending nd = []"
  shows "pending_ok L k nd' \<and> (pn_session nd' = None \<longrightarrow> pn_pending nd' = []) \<and> (r \<noteq> None \<longrightarrow> pn_state nd' = pn_state nd)"
  using assms
  by (auto simp: push_transaction_def push_pending_def start_pending_def pending_ok_def Let_def foldE_append
      split: if_splits sum.splits option.splits)

text \<open>
  C28. The transactions picked for a new block apply one after the other to the state of the head
  block and give the state the picking ended in; they are pending transactions in the order they
  came, none expires before the block is due, and with the header they stay below the size of a block.
\<close>

theorem pending_block_applies:
  assumes "pending_block L k header_size due nd = Inr (used, s, picked)"
    and "header_size < unat (tl_maximum_block_size L (ts_db (pn_state nd)))"
  shows "foldE (apply_transaction L k) picked (case pn_session nd of Some h \<Rightarrow> h | None \<Rightarrow> pn_state nd) = Inr s \<and>
    subseq picked (pn_pending nd) \<and> (\<forall>trx\<in>set picked. due \<le> tx_expiration trx) \<and>
    used = header_size + sum_list (map (tl_size L) picked) \<and> used < unat (tl_maximum_block_size L (ts_db (pn_state nd)))"
proof -
  obtain p where "picked = [] @ p" "subseq p (pn_pending nd)"
    "foldE (apply_transaction L k) p (case pn_session nd of Some h \<Rightarrow> h | None \<Rightarrow> pn_state nd) = Inr s"
    "used = header_size + sum_list (map (tl_size L) p)"
    "header_size < unat (tl_maximum_block_size L (ts_db (pn_state nd))) \<longrightarrow> used < unat (tl_maximum_block_size L (ts_db (pn_state nd)))"
    "\<forall>trx\<in>set p. due \<le> tx_expiration trx"
    using pick_spec [OF assms(1) [unfolded pending_block_def Let_def]] by blast
  then show ?thesis
    using assms(2) by simp
qed

section \<open>Witnesses\<close>

text \<open>
  Operations and signatures of the witnesses are numbers, every operation needs alice, whose keys
  are 7 and 8; every other account has the key 9. The state is number, time and operations applied.
\<close>

definition other_pack :: authority_pack where
  "other_pack = (let au = \<lparr>weight_threshold = 1, account_auths = [], key_auths = [(9, 1)]\<rparr>
     in \<lparr>pk_owner = au, pk_active = au, pk_active_overrides = []\<rparr>)"

definition demo_chain_lib :: "(nat, nat, 32 word \<times> 32 word \<times> nat list) transaction_lib" where
  "demo_chain_lib =
     \<lparr>tl_id = \<lambda>trx. sum_list (tx_operations trx), tl_size = \<lambda>trx. 100, tl_recover = \<lambda>trx sig. sig, tl_names = length,
      tl_operations = \<lparr>required_active_authorities = \<lambda>op. [''alice''], required_owner_authorities = \<lambda>op. [],
        required_authorities = \<lambda>op. [], op_tag = \<lambda>op. 0, account_use = \<lambda>op. No_account\<rparr>,
      tl_validate = \<lambda>op. Inr (), tl_entity_validate = \<lambda>op n p. Inr (),
      tl_apply = \<lambda>n p op db. case db of (num, time, ops) \<Rightarrow> Inr (num, time, ops @ [op]),
      tl_account_authority = \<lambda>db n. Inr (if n = ''alice'' then demo_pack else other_pack),
      tl_head_block_num = \<lambda>db. fst db, tl_head_block_time = \<lambda>db. fst (snd db),
      tl_block_summary = \<lambda>db n. Inr 0, tl_maximum_block_size = \<lambda>db. 600\<rparr>"

definition all_checks :: skip_steps where
  "all_checks = \<lparr>skip_validate = False, skip_transaction_dupe_check = False, skip_transaction_signatures = False,
     skip_authority_check = False, skip_tapos_check = False\<rparr>"

definition demo_trx :: "nat list \<Rightarrow> 32 word \<Rightarrow> (nat, nat) signed_transaction" where
  "demo_trx sigs expiration = \<lparr>tx_ref_block_num = 0, tx_ref_block_prefix = 0, tx_expiration = expiration,
     tx_operations = [5], tx_signatures = sigs, tx_tenant_signature = Some (''mallory'', 9)\<rparr>"

definition demo_state :: "32 word \<Rightarrow> (32 word \<times> 32 word \<times> nat list) tx_state" where
  "demo_state num = \<lparr>ts_db = (num, 100, []), ts_transactions = empty_index\<rparr>"

lemma demo_keeps_clock: "keeps_clock demo_chain_lib"
  by (auto simp: keeps_clock_def demo_chain_lib_def)

lemma demo_replay:
  "case apply_transaction demo_chain_lib all_checks (demo_trx [7] 200) (demo_state 10) of Inl _ \<Rightarrow> False
   | Inr s1 \<Rightarrow> ts_db s1 = (10, 100, [5]) \<and> succeeds (clear_expired_transactions demo_chain_lib (s1\<lparr>ts_db := (11, 300, [5])\<rparr>))"
  by code_simp

lemma no_replay_witness:
  "\<exists>s1 s2. apply_transaction demo_chain_lib all_checks (demo_trx [7] 200) (demo_state 10) = Inr s1 \<and>
     clear_expired_transactions demo_chain_lib (s1\<lparr>ts_db := (11, 300, [5])\<rparr>) = Inr s2 \<and>
     \<not> succeeds (apply_transaction demo_chain_lib all_checks (demo_trx [7] 200) s2)"
proof -
  obtain s1 s2 where s: "apply_transaction demo_chain_lib all_checks (demo_trx [7] 200) (demo_state 10) = Inr s1"
    "ts_db s1 = (10, 100, [5])" "clear_expired_transactions demo_chain_lib (s1\<lparr>ts_db := (11, 300, [5])\<rparr>) = Inr s2"
    using demo_replay by (auto simp: succeeds_iff split: sum.splits)
  have "chain_step demo_chain_lib s1 (s1\<lparr>ts_db := (11, 300, [5])\<rparr>)"
    by (rule chain_step.advanced) (simp_all add: s(2) demo_chain_lib_def)
  moreover have "chain_step demo_chain_lib (s1\<lparr>ts_db := (11, 300, [5])\<rparr>) s2"
    by (rule chain_step.cleared [OF s(3)]) (simp add: demo_chain_lib_def)
  ultimately have "(chain_step demo_chain_lib)\<^sup>*\<^sup>* s1 s2"
    by (meson converse_rtranclp_into_rtranclp rtranclp.rtrancl_refl)
  then show ?thesis
    using no_replay [OF s(1) _ _ _ demo_keeps_clock, of s2 all_checks] s
    by (auto simp: all_checks_def demo_state_def)
qed

text \<open>Mallory, who has no key of alice, applies an operation that needs alice's active authority.\<close>

lemma demo_missing:
  "verify_signatures demo_chain_lib (demo_trx [] 200) (ts_db (demo_state 3705110)) = Inl Missing_active_authority"
  by code_simp

lemma authority_enforced_witness:
  "verify_signatures demo_chain_lib (demo_trx [] 200) (ts_db (demo_state 3705110)) = Inl Missing_active_authority \<and>
   succeeds (apply_transaction demo_chain_lib all_checks (demo_trx [] 200) (demo_state 3705110))"
proof -
  have "verify_signatures demo_chain_lib (demo_trx [] 200) (ts_db (demo_state 3705110)) = Inl Missing_active_authority"
    by (rule demo_missing)
  moreover have "verify_tenant demo_chain_lib (demo_trx [] 200) (ts_db (demo_state 3705110)) = Inr ()"
    by (simp add: verify_tenant_def verify_tenant_authority_def demo_chain_lib_def demo_trx_def other_pack_def Let_def)
  moreover have "succeeds (apply_transaction demo_chain_lib (all_checks\<lparr>skip_authority_check := True\<rparr>) (demo_trx [] 200) (demo_state 3705110))"
    by (simp add: apply_transaction_def all_checks_def demo_state_def demo_chain_lib_def demo_trx_def transaction_validate_def
        check_time_def find_row_def empty_index_def emplace_def DEIP_MAX_TIME_UNTIL_EXPIRATION_def)
  moreover have "tl_head_block_num demo_chain_lib (ts_db (demo_state 3705110)) + 1 \<in> set shared_db_merkle"
    by (simp add: demo_chain_lib_def demo_state_def shared_db_merkle_def)
  ultimately show ?thesis
    using authority_enforced [of all_checks demo_chain_lib "demo_trx [] 200" "demo_state 3705110"]
    by (simp add: all_checks_def)
qed

lemma pending_block_applies_witness:
  "\<exists>used s picked. pending_block demo_chain_lib all_checks 50 150
       \<lparr>pn_state = demo_state 10, pn_session = None, pn_pending = [demo_trx [7] 120, demo_trx [8] 200]\<rparr> = Inr (used, s, picked) \<and>
     foldE (apply_transaction demo_chain_lib all_checks) picked (demo_state 10) = Inr s"
proof -
  let ?nd = "\<lparr>pn_state = demo_state 10, pn_session = None, pn_pending = [demo_trx [7] 120, demo_trx [8] 200]\<rparr>"
  have "succeeds (pending_block demo_chain_lib all_checks 50 150 ?nd)"
    by code_simp
  then obtain used s picked where p: "pending_block demo_chain_lib all_checks 50 150 ?nd = Inr (used, s, picked)"
    by (auto simp: succeeds_iff)
  have h: "50 < unat (tl_maximum_block_size demo_chain_lib (ts_db (pn_state ?nd)))"
    by (simp add: demo_chain_lib_def)
  have "foldE (apply_transaction demo_chain_lib all_checks) picked (demo_state 10) = Inr s"
    using pending_block_applies [OF p h, THEN conjunct1] by simp
  with p show ?thesis
    by blast
qed

end
