(* ===== verification/Spec2Isabelle.thy ===== *)
theory Spec2Isabelle
  imports Undo Sale_Properties Vesting Group_Shares Award_Properties Block_Head Fork_Switch
    Vote_Properties Transaction_Properties
begin

text \<open>
  A verification library for the DEIP blockchain (C++): the object store that keeps the state of
  the chain, the protocol types, and the services and evaluators that move tokens, shares and
  grants. File and function names below are under \<open>src/libraries/\<close>.

  \<^bold>\<open>How the program is put together.\<close> A node applies blocks of transactions of operations. An
  operation is first validated on its own (\<open>protocol/deip_operations.cpp\<close>,
  \<open>protocol/operations/\<close>), its authorities are checked against its signatures
  (\<open>protocol/sign_state.cpp\<close>), and an evaluator applies it to the state
  (\<open>chain/deip_evaluator.cpp\<close>). Evaluators work through services (\<open>chain/services/dbs_*.cpp\<close>), one for
  each kind of object, which read and write the object store (\<open>chainbase\<close>). The store keeps an
  undo stack, so that a block or transaction that throws leaves no trace. After the transactions
  of a block the services run their periodic work.

  \<^bold>\<open>How it is modelled.\<close> The state is the record \<open>chain\<close> (theory \<open>Schema\<close>), with one
  \<open>generic_index\<close> of the object store for each type of object. An operation, service call or
  evaluator is a function to \<open>error + chain\<close>: \<open>FC_ASSERT\<close> and the other exceptions are \<open>Inl\<close>. The
  state an exception leaves behind is not part of the result, because the session of the
  transaction is undone (C1, C2). Loops over the objects of a type run over the rows of its
  index in the order of their ids, which is the order in which a secondary index lists objects
  with equal keys. The uniqueness of the secondary indexes is a relation for each type
  (\<open>asset_key\<close>, \<open>balance_key\<close> and so on). Types of the \<open>fc\<close> library, whose source is not in the
  repository, are a parameter: a record of functions \<open>fc_lib\<close> with the laws \<open>safe_ok\<close> (checked
  64-bit arithmetic), \<open>u128_ok\<close> and \<open>text_ok\<close>, and \<open>fc_ref\<close> is an instance of all of them. Amounts
  are integers with the bound \<open>int64\<close> written out; symbols, weights and 128-bit products are words.
  Times are seconds. The \<open>double\<close> of the token sale is a binary64 model (\<open>Floats\<close>).

  \<^bold>\<open>The parts, in the order they build on each other.\<close>

  \<^item> \<open>Prelude\<close>: errors, \<open>bindE\<close> and \<open>require\<close>, loops that may throw (\<open>foldE\<close>), sorted association
    lists, sums over rows, and the collections \<open>ok_iff\<close> and \<open>alist\<close>.
  \<^item> \<open>Object_Store\<close>: the interface the services use of the store, as a locale.
    \<open>Chainbase\<close> models \<open>chainbase.hpp\<close> (\<open>emplace\<close>, \<open>modify\<close>, \<open>remove\<close>, sessions, \<open>undo\<close>, \<open>squash\<close>,
    \<open>commit\<close>) and interprets the locale. \<open>Undo\<close> relates the undo stack to the states it goes
    back to (C1, C2).
  \<^item> \<open>Fc\<close>, \<open>Assets\<close> (C5, C7), \<open>Rewards\<close> (C9): amounts, symbols, the text form of assets, prices,
    percents and shares. \<open>Authority\<close> (C10 to C12): account names and the check of signatures.
  \<^item> \<open>Schema\<close>: the objects. \<open>Ledger\<close>: the interface of the balance service, as a locale;
    \<open>Balances\<close> models \<open>dbs_account_balance\<close> and \<open>dbs_asset\<close> and interprets it. \<open>Validators\<close>,
    \<open>Supply\<close>: the supply invariant \<open>supply_ok\<close>, that the recorded supply of an asset is what the
    accounts hold and what contracts hold for them.
  \<^item> \<open>Token_Operations\<close>: transfer, creation, issue and reserve of assets (C13, C22).
  \<^item> \<open>Token_Sale\<close>, \<open>Sale_Invariant\<close>, \<open>Sale_Steps\<close>, \<open>Sale_Properties\<close>: research token sales, their
    maintenance pass and operations (C16 to C21).
  \<^item> \<open>Vesting\<close>: vesting contracts (C23, C24).
  \<^item> \<open>Research_Groups\<close>, \<open>Group_Shares\<close>: \<open>dbs_research_group\<close>, how shares are diluted and given back
    (C25, C26).
  \<^item> \<open>Grants\<close>: disciplines, discipline supplies, funding opportunities and \<open>create_grant\<close> (C27).
  \<^item> \<open>Awards\<close>, \<open>Award_Split\<close>, \<open>Award_Invariant\<close>, \<open>Award_Decisions\<close>, \<open>Award_Withdrawals\<close>, \<open>Award_Runs\<close>,
    \<open>Award_Payments\<close>, \<open>Award_Properties\<close>: \<open>dbs_award\<close> and the eight operations on awards and their
    withdrawals (C29 to C32, C34, C35).
  \<^item> \<open>Fork_Database\<close>, \<open>Fork_Branches\<close>: block numbers and ids, the fork database of the chain and
    its search for a common ancestor (C36). \<open>Push_Block\<close>, \<open>Fork_Switch\<close>: how the node takes a block and
    switches forks, as a refinement of one step on its state (C15).
  \<^item> \<open>Witness_Objects\<close> (C38), \<open>Witness_Schedule\<close>, \<open>Schedule_Properties\<close> (C37, C39): witnesses,
    slots, and the rounds of their schedule (\<open>database_witness_schedule.cpp\<close>). \<open>Block_Head\<close>: what a block
    does to the head of the chain, participation (C6) and the last irreversible block (C40).
  \<^item> \<open>Witness_Votes\<close>, \<open>Vote_Counts\<close>, \<open>Vote_Properties\<close>: the votes for witnesses and their proxies
    (\<open>dbs_account.cpp\<close>, \<open>dbs_witness.cpp\<close> and three operations), well-formedness (C8) and whether the
    votes recorded in a witness are the votes cast for it (C14).
  \<^item> \<open>Transaction_Authority\<close>: what a transaction must be signed with (\<open>protocol/transaction.cpp\<close>, C33).
    \<open>Transactions\<close>, \<open>Transaction_Properties\<close>: how \<open>database.cpp\<close> checks and applies a transaction,
    forgets expired ones, and picks the pending ones for a block (C3, C4, C28). The state and
    what an operation does to it are parameters; an operation is known by the authorities it needs.

  \<^bold>\<open>Interfaces.\<close> \<open>object_store\<close> is interpreted on the chainbase model (\<open>cb\<close>), \<open>token_ledger\<close> on the
  balance service (\<open>lg\<close>). Every proof about a service goes through the laws of the first; every
  proof that money is neither made nor lost goes through the laws of the second.

  \<^bold>\<open>Bounds and fuel.\<close> The depth of the authority check is the recursion limit of the code
  (\<open>DEIP_MAX_SIG_CHECK_DEPTH\<close>). The loops that follow the links
  of the fork database and undo blocks are partial functions whose value \<open>None\<close> is a loop that does not
  end; C15 and C36 show that they do. Every other loop is structural recursion; no definition uses fuel.

  \<^bold>\<open>What is not modelled.\<close> The peer-to-peer network, the application, its RPC interfaces and the
  wallet (I/O and views of the state); plugins; the memory-mapped file below the object store.
  Within the chain: accounts but for their votes, proposals (which nest transactions), reviews and expertise (ECI), research and
  its content, assessments, NDA contracts, and the rest of the block logic of the database (headers, notifications, hardforks applied). Of the grants, the
  periodic distribution of discipline supplies, which needs the expertise tables. Fields that no
  modelled operation reads are left out of the records.
\<close>

end
